(* ===== verification/Confort_Prelude.thy ===== *)
theory Confort_Prelude
  imports Main
begin

text \<open>
  Shared vocabulary of the development: the outcome of a call that may block, the panics of the
  Go runtime that the lock code can raise, Go errors, maps and pointers, the lemma collections the components declare their
  facts into, and the generic facts on cardinalities and association lists that several
  components use.
\<close>

section \<open>Outcomes of blocking calls\<close>

text \<open>
  A Go call that takes a context either returns normally, returns the error of the context, or is
  still waiting. Each outcome carries the state the call has left behind at that moment.
\<close>

datatype 'a outcome =
    Granted 'a
  | CtxErr 'a
  | Waits 'a

primrec outcome_state :: "'a outcome \<Rightarrow> 'a" where
  "outcome_state (Granted a) = a"
| "outcome_state (CtxErr a) = a"
| "outcome_state (Waits a) = a"

text \<open>The panics the lock code can raise: its own messages, and those of the semaphore package.\<close>

datatype go_panic =
    UnlockedMutex string
  | SemaphorePanic
  | NilDereference
  | MakeSliceLen
  | IndexOutOfRange

text \<open>
  Go error values: a message, a message given by its format and arguments, an error wrapped with a
  prefix (\<open>fmt.Errorf\<close> with \<open>%w\<close> at the end of the format), several errors joined, or a non-zero exit status.
\<close>

datatype go_error =
    ErrorString string
  | Errorf string "string list"
  | Wrapped string go_error
  | Joined "go_error list"
  | ExitStatus int

text \<open>The status of a gRPC health check; the zero value is the first one.\<close>

datatype serving_status = HealthUnknown | HealthServing | HealthNotServing

text \<open>
  A Go map is given by its bindings, in an arbitrary iteration order; a pointer is an \<open>option\<close>, and
  reading through a nil pointer panics.
\<close>

type_synonym ('k, 'v) go_map = "('k \<times> 'v) list"

section \<open>Lemma collections\<close>

named_theorems sub_simps \<open>what the checks of the configuration fields mean\<close>

section \<open>Generic facts\<close>

lemma card_insert_fresh: "finite A \<Longrightarrow> i \<notin> A \<Longrightarrow> int (card (insert i A)) = int (card A) + 1"
  by simp

lemma card_remove_member: "finite A \<Longrightarrow> i \<in> A \<Longrightarrow> int (card (A - {i})) = int (card A) - 1"
proof -
  assume "finite A" and "i \<in> A"
  then have "Suc (card (A - {i})) = card A" by (rule card_Suc_Diff1)
  then show ?thesis by linarith
qed

lemma card_le_one_singleton:
  assumes "finite A" and "card A \<le> 1" and "i \<in> A"
  shows "A = {i}"
proof -
  have "card {i} \<le> card A" using assms by (intro card_mono) auto
  then have "card A = card {i}" using assms(2) by simp
  then show ?thesis using assms card_subset_eq [of A "{i}"] by auto
qed

lemma card_gt_one_remove:
  assumes "1 < card A"
  shows "A - {i} \<noteq> {}"
proof
  assume "A - {i} = {}"
  then have "A \<subseteq> {i}" by blast
  then have "card A \<le> card {i}" by (rule card_mono [rotated]) simp
  with assms show False by simp
qed

lemma find_split_first:
  assumes "e \<notin> set xs" and "P e"
  shows "List.find P (xs @ e # ys) = Some e \<longleftrightarrow> (\<forall>x \<in> set xs. \<not> P x)"
  using assms by (induction xs) auto

text \<open>The elements of a queue that stand before a given one.\<close>

definition ahead :: "'a list \<Rightarrow> 'a \<Rightarrow> 'a set" where
  "ahead q e = set (takeWhile (\<lambda>x. x \<noteq> e) q)"

lemma ahead_split: "e \<notin> set xs \<Longrightarrow> ahead (xs @ e # ys) e = set xs"
proof -
  assume "e \<notin> set xs"
  then have "takeWhile (\<lambda>x. x \<noteq> e) (xs @ e # ys) = xs" by (induction xs) auto
  then show ?thesis by (simp add: ahead_def)
qed

lemma ahead_subset: "ahead q e \<subseteq> set q"
  by (auto simp: ahead_def dest: set_takeWhileD)

lemma ahead_not_self: "e \<notin> ahead q e"
  by (auto simp: ahead_def dest: set_takeWhileD)

lemma ahead_snoc: "h \<in> set q \<Longrightarrow> ahead (q @ [e]) h = ahead q h"
  by (simp add: ahead_def takeWhile_append1)

lemma ahead_filter: "h \<noteq> r \<Longrightarrow> ahead (filter (\<lambda>x. x \<noteq> r) q) h = ahead q h - {r}"
  by (induction q) (auto simp: ahead_def)

lemma in_queue_cases: "h \<in> set q \<Longrightarrow> \<exists>xs ys. q = xs @ h # ys \<and> h \<notin> set xs \<and> ahead q h = set xs"
  using split_list_first [of h q] ahead_split by metis

end
