(* ===== verification/Keyed_Lock.thy ===== *)
theory Keyed_Lock
  imports Confort_Prelude
begin

text \<open>
  The keyed reader/writer lock of internal/exclusion/keyedlock.go: a map from keys to weighted
  semaphores of size \<open>max\<close>, where an exclusive lock takes the whole weight, a shared lock takes one
  unit and a downgrade gives all but one unit back.

  The semaphore comes from golang.org/x/sync and is a parameter: its operations are the record
  \<open>sem_ops\<close>, and what its documentation promises is the locale \<open>weighted_semaphore\<close>. The contract of
  the keyed lock towards its clients is the locale \<open>rw_keyed_lock\<close>, which every weighted semaphore
  provides through the definitions below.
\<close>

section \<open>The weighted semaphore\<close>

text \<open>
  \<open>SemAcquire s n\<close> is \<open>Some\<close> when the semaphore grants the weight at once and \<open>None\<close> when the caller
  has to wait; \<open>SemRelease s n\<close> is \<open>None\<close> when the call panics.
\<close>

record 's sem_ops =
  NewWeighted :: "int \<Rightarrow> 's"
  SemAcquire :: "'s \<Rightarrow> int \<Rightarrow> 's option"
  SemRelease :: "'s \<Rightarrow> int \<Rightarrow> 's option"

section \<open>The keyed lock\<close>

text \<open>The constant \<open>max\<close>: 1<<63 - 1.\<close>

definition max_weight :: int where
  "max_weight = 2 ^ 63 - 1"

record 's keyed_lock =
  klm :: "string \<Rightarrow> 's option"

definition NewKeyedLock :: "'s keyed_lock" where
  "NewKeyedLock = \<lparr>klm = Map.empty\<rparr>"

text \<open>\<open>LoadOrStore(key, semaphore.NewWeighted(max))\<close>: the semaphore of the key, stored when missing.\<close>

definition load_or_store :: "'s sem_ops \<Rightarrow> 's keyed_lock \<Rightarrow> string \<Rightarrow> 's \<times> 's keyed_lock" where
  "load_or_store so k key =
     (case klm k key of
        Some s \<Rightarrow> (s, k)
      | None \<Rightarrow> (let s = NewWeighted so max_weight in (s, k\<lparr>klm := (klm k)(key \<mapsto> s)\<rparr>)))"

text \<open>
  Acquiring a weight: on success the semaphore of the key holds the weight; otherwise the call
  returns the context's error if the context is done, and waits if it is not. In both cases the
  semaphore itself is unchanged.
\<close>

definition acquire_weight ::
  "'s sem_ops \<Rightarrow> bool \<Rightarrow> 's keyed_lock \<Rightarrow> string \<Rightarrow> int \<Rightarrow> 's keyed_lock outcome" where
  "acquire_weight so ctx_done k key n =
     (let (s, k1) = load_or_store so k key in
      case SemAcquire so s n of
        Some s' \<Rightarrow> Granted (k1\<lparr>klm := (klm k1)(key \<mapsto> s')\<rparr>)
      | None \<Rightarrow> if ctx_done then CtxErr k1 else Waits k1)"

definition Lock :: "'s sem_ops \<Rightarrow> bool \<Rightarrow> 's keyed_lock \<Rightarrow> string \<Rightarrow> 's keyed_lock outcome" where
  "Lock so ctx_done k key = acquire_weight so ctx_done k key max_weight"

definition RLock :: "'s sem_ops \<Rightarrow> bool \<Rightarrow> 's keyed_lock \<Rightarrow> string \<Rightarrow> 's keyed_lock outcome" where
  "RLock so ctx_done k key = acquire_weight so ctx_done k key 1"

text \<open>
  The three releasing operations: a panic when the key has never been locked, and the semaphore's
  own panic when more is released than held.
\<close>

definition release_weight ::
  "'s sem_ops \<Rightarrow> string \<Rightarrow> 's keyed_lock \<Rightarrow> string \<Rightarrow> int \<Rightarrow> go_panic + 's keyed_lock" where
  "release_weight so msg k key n =
     (case klm k key of
        None \<Rightarrow> Inl (UnlockedMutex msg)
      | Some s \<Rightarrow>
          (case SemRelease so s n of
             None \<Rightarrow> Inl SemaphorePanic
           | Some s' \<Rightarrow> Inr (k\<lparr>klm := (klm k)(key \<mapsto> s')\<rparr>)))"

definition Unlock :: "'s sem_ops \<Rightarrow> 's keyed_lock \<Rightarrow> string \<Rightarrow> go_panic + 's keyed_lock" where
  "Unlock so k key = release_weight so ''Unlock of unlocked mutex'' k key max_weight"

definition Downgrade :: "'s sem_ops \<Rightarrow> 's keyed_lock \<Rightarrow> string \<Rightarrow> go_panic + 's keyed_lock" where
  "Downgrade so k key = release_weight so ''Downgrade of unlocked mutex'' k key (max_weight - 1)"

definition RUnlock :: "'s sem_ops \<Rightarrow> 's keyed_lock \<Rightarrow> string \<Rightarrow> go_panic + 's keyed_lock" where
  "RUnlock so k key = release_weight so ''RUnlock of unlocked mutex'' k key 1"

section \<open>What clients may rely on\<close>

text \<open>
  \<open>holds k rd wr\<close> relates a lock state to its holders: \<open>rd key\<close> are the clients that hold the key
  shared and \<open>wr key\<close> those that hold it exclusively. The laws say what each operation does to the
  holders, that operations of a holder never panic, and that a free key is granted at once.
\<close>

locale rw_keyed_lock =
  fixes lock :: "bool \<Rightarrow> 'k \<Rightarrow> string \<Rightarrow> 'k outcome"
    and rlock :: "bool \<Rightarrow> 'k \<Rightarrow> string \<Rightarrow> 'k outcome"
    and unlock :: "'k \<Rightarrow> string \<Rightarrow> go_panic + 'k"
    and runlock :: "'k \<Rightarrow> string \<Rightarrow> go_panic + 'k"
    and downgrade :: "'k \<Rightarrow> string \<Rightarrow> go_panic + 'k"
    and init_lock :: 'k
    and holds :: "'k \<Rightarrow> (string \<Rightarrow> nat set) \<Rightarrow> (string \<Rightarrow> nat set) \<Rightarrow> bool"
  assumes holds_init: "holds init_lock (\<lambda>_. {}) (\<lambda>_. {})"
    and holds_exclusive: "holds k rd wr \<Longrightarrow> i \<in> wr key \<Longrightarrow> wr key = {i} \<and> rd key = {}"
    and lock_granted: "holds k rd wr \<Longrightarrow> lock d k key = Granted k' \<Longrightarrow>
          rd key = {} \<and> wr key = {} \<and> holds k' rd (wr(key := {i}))"
    and rlock_granted: "holds k rd wr \<Longrightarrow> rlock d k key = Granted k' \<Longrightarrow> i \<notin> rd key \<Longrightarrow>
          wr key = {} \<and> holds k' (rd(key := insert i (rd key))) wr"
    and lock_not_granted: "holds k rd wr \<Longrightarrow> lock d k key = CtxErr k' \<or> lock d k key = Waits k' \<Longrightarrow>
          holds k' rd wr"
    and rlock_not_granted: "holds k rd wr \<Longrightarrow> rlock d k key = CtxErr k' \<or> rlock d k key = Waits k' \<Longrightarrow>
          holds k' rd wr"
    and lock_free: "holds k rd wr \<Longrightarrow> rd key = {} \<Longrightarrow> wr key = {} \<Longrightarrow> \<exists>k'. lock d k key = Granted k'"
    and rlock_free: "holds k rd wr \<Longrightarrow> rd key = {} \<Longrightarrow> wr key = {} \<Longrightarrow> \<exists>k'. rlock d k key = Granted k'"
    and unlock_held: "holds k rd wr \<Longrightarrow> i \<in> wr key \<Longrightarrow>
          \<exists>k'. unlock k key = Inr k' \<and> holds k' rd (wr(key := {}))"
    and runlock_held: "holds k rd wr \<Longrightarrow> i \<in> rd key \<Longrightarrow>
          \<exists>k'. runlock k key = Inr k' \<and> holds k' (rd(key := rd key - {i})) wr"
    and downgrade_held: "holds k rd wr \<Longrightarrow> i \<in> wr key \<Longrightarrow>
          \<exists>k'. downgrade k key = Inr k' \<and> holds k' (rd(key := {i})) (wr(key := {}))"
begin

lemma exclusive_excludes:
  "holds k rd wr \<Longrightarrow> i \<in> wr key \<Longrightarrow> j \<in> rd key \<union> wr key \<Longrightarrow> j = i"
  using holds_exclusive by fastforce

lemma lock_waits_while_held:
  assumes "holds k rd wr" and "rd key \<union> wr key \<noteq> {}"
  shows "lock d k key \<noteq> Granted k'"
  using lock_granted [OF assms(1)] assms(2) by auto

lemma rlock_waits_for_writer:
  assumes "holds k rd wr" and "i \<in> wr key"
  shows "rlock d k key \<noteq> Granted k'"
proof
  assume g: "rlock d k key = Granted k'"
  have "rd key = {}" using holds_exclusive [OF assms] by simp
  then have "i \<notin> rd key" by simp
  from rlock_granted [OF assms(1) g this] assms(2) show False by simp
qed

end

text \<open>
  What the documentation of semaphore.Weighted says, in terms of the weight in use (\<open>cur\<close>) and the
  capacity (\<open>size_of\<close>): an acquisition is granted only if it fits, an idle semaphore grants
  everything that fits, and releasing more than is held panics.
\<close>

locale weighted_semaphore =
  fixes so :: "'s sem_ops" and cur :: "'s \<Rightarrow> int" and size_of :: "'s \<Rightarrow> int"
  assumes new_cur: "cur (NewWeighted so n) = 0"
    and new_size: "size_of (NewWeighted so n) = n"
    and acquire_fits: "SemAcquire so s n = Some s' \<Longrightarrow> 0 \<le> n \<Longrightarrow>
          cur s + n \<le> size_of s \<and> cur s' = cur s + n \<and> size_of s' = size_of s"
    and acquire_idle: "cur s = 0 \<Longrightarrow> 0 \<le> n \<Longrightarrow> n \<le> size_of s \<Longrightarrow> SemAcquire so s n \<noteq> None"
    and release_held: "0 \<le> n \<Longrightarrow> n \<le> cur s \<Longrightarrow>
          \<exists>s'. SemRelease so s n = Some s' \<and> cur s' = cur s - n \<and> size_of s' = size_of s"
    and release_more: "cur s < n \<Longrightarrow> SemRelease so s n = None"

text \<open>The weight the holders of a key have taken.\<close>

definition weight_of :: "nat set \<Rightarrow> nat set \<Rightarrow> int" where
  "weight_of rd wr = int (card rd) + max_weight * int (card wr)"

definition holds_key ::
  "('s \<Rightarrow> int) \<Rightarrow> ('s \<Rightarrow> int) \<Rightarrow> 's option \<Rightarrow> nat set \<Rightarrow> nat set \<Rightarrow> bool" where
  "holds_key cur size_of so rd wr \<longleftrightarrow>
     finite rd \<and> finite wr \<and>
     (case so of
        None \<Rightarrow> rd = {} \<and> wr = {}
      | Some s \<Rightarrow> size_of s = max_weight \<and> cur s = weight_of rd wr \<and> cur s \<le> max_weight)"

definition kl_holds ::
  "('s \<Rightarrow> int) \<Rightarrow> ('s \<Rightarrow> int) \<Rightarrow> 's keyed_lock \<Rightarrow> (string \<Rightarrow> nat set) \<Rightarrow> (string \<Rightarrow> nat set) \<Rightarrow> bool" where
  "kl_holds cur size_of k rd wr \<longleftrightarrow> (\<forall>key. holds_key cur size_of (klm k key) (rd key) (wr key))"

lemma max_weight_big: "1 < max_weight"
  by (simp add: max_weight_def)

lemma holds_key_writer:
  assumes "holds_key cur size_of s rd wr" and "i \<in> wr"
  shows "wr = {i} \<and> rd = {}"
proof -
  from assms obtain t where t: "finite rd" "finite wr" "weight_of rd wr \<le> max_weight"
    by (cases s) (auto simp: holds_key_def)
  have "0 < card wr" using t assms(2) by (auto simp: card_gt_0_iff)
  have "max_weight * int (card wr) \<le> max_weight * 1"
    using t by (simp add: weight_of_def)
  then have "card wr \<le> 1" using max_weight_big by simp
  with \<open>0 < card wr\<close> have one: "card wr = 1" by simp
  then have "wr = {i}" using assms(2) by (metis card_1_singletonE singletonD)
  moreover have "card rd = 0" using t one by (simp add: weight_of_def)
  ultimately show ?thesis using t by simp
qed

lemma kl_holds_update:
  assumes "kl_holds cur size_of k rd wr" and "holds_key cur size_of (Some s) R W"
  shows "kl_holds cur size_of (k\<lparr>klm := (klm k)(key \<mapsto> s)\<rparr>) (rd(key := R)) (wr(key := W))"
  using assms by (simp add: kl_holds_def)

lemma weight_of_zero:
  assumes "finite rd" and "finite wr" and "weight_of rd wr \<le> 0"
  shows "rd = {}" and "wr = {}"
proof -
  have p: "0 \<le> max_weight * int (card wr)" using max_weight_big by simp
  then have "int (card rd) = 0" "max_weight * int (card wr) = 0"
    using assms(3) by (auto simp: weight_of_def simp del: mult_eq_0_iff)
  then show "rd = {}" and "wr = {}" using assms max_weight_big by auto
qed

context weighted_semaphore
begin

lemma load_or_store_holds:
  assumes "kl_holds cur size_of k rd wr" and "load_or_store so k key = (s, k1)"
  shows "kl_holds cur size_of k1 rd wr" and "klm k1 key = Some s"
    and "holds_key cur size_of (Some s) (rd key) (wr key)"
proof -
  have key: "holds_key cur size_of (klm k key) (rd key) (wr key)"
    using assms(1) by (simp add: kl_holds_def)
  show sk: "klm k1 key = Some s"
    using assms(2) by (auto simp: load_or_store_def Let_def split: option.splits)
  show hk: "holds_key cur size_of (Some s) (rd key) (wr key)"
    using key assms(2) max_weight_big
    by (auto simp: load_or_store_def Let_def holds_key_def new_cur new_size weight_of_def
        split: option.splits)
  have "klm k1 = (klm k)(key \<mapsto> s)"
    using assms(2) by (auto simp: load_or_store_def Let_def split: option.splits)
  then show "kl_holds cur size_of k1 rd wr"
    using assms(1) hk by (auto simp: kl_holds_def)
qed

lemma acquire_weight_cases:
  assumes "kl_holds cur size_of k rd wr"
  obtains (granted) s s' k1 where
      "acquire_weight so d k key n = Granted (k1\<lparr>klm := (klm k1)(key \<mapsto> s')\<rparr>)"
      "kl_holds cur size_of k1 rd wr" "holds_key cur size_of (Some s) (rd key) (wr key)"
      "SemAcquire so s n = Some s'"
  | (other) s k1 where
      "acquire_weight so d k key n = CtxErr k1 \<or> acquire_weight so d k key n = Waits k1"
      "kl_holds cur size_of k1 rd wr" "holds_key cur size_of (Some s) (rd key) (wr key)"
      "SemAcquire so s n = None"
proof -
  obtain s k1 where ls: "load_or_store so k key = (s, k1)" by fastforce
  note L = load_or_store_holds [OF assms ls]
  show thesis
  proof (cases "SemAcquire so s n")
    case None
    then have "acquire_weight so d k key n = CtxErr k1 \<or> acquire_weight so d k key n = Waits k1"
      by (simp add: acquire_weight_def ls)
    then show thesis using other L None by blast
  next
    case (Some s')
    then have "acquire_weight so d k key n = Granted (k1\<lparr>klm := (klm k1)(key \<mapsto> s')\<rparr>)"
      by (simp add: acquire_weight_def ls)
    then show thesis using granted L Some by blast
  qed
qed

lemma acquire_weight_granted:
  assumes h: "kl_holds cur size_of k rd wr" and g: "acquire_weight so d k key n = Granted k'"
    and n: "0 \<le> n" and fin: "finite R" "finite W"
    and w: "weight_of R W = weight_of (rd key) (wr key) + n"
  shows "kl_holds cur size_of k' (rd(key := R)) (wr(key := W)) \<and> weight_of R W \<le> max_weight"
  using h
proof (cases rule: acquire_weight_cases [where d = d and key = key and n = n])
  case (granted s s' k1)
  then have k': "k' = k1\<lparr>klm := (klm k1)(key \<mapsto> s')\<rparr>" using g by simp
  have "holds_key cur size_of (Some s') R W"
    using granted(3) acquire_fits [OF granted(4) n] fin w by (auto simp: holds_key_def)
  then show ?thesis using kl_holds_update [OF granted(2)] k' by (auto simp: holds_key_def)
next
  case (other s k1)
  then show ?thesis using g by auto
qed

lemma acquire_weight_idle:
  assumes h: "kl_holds cur size_of k rd wr" and e: "rd key = {}" "wr key = {}"
    and n: "0 \<le> n" "n \<le> max_weight"
  shows "\<exists>k'. acquire_weight so d k key n = Granted k'"
  using h
proof (cases rule: acquire_weight_cases [where d = d and key = key and n = n])
  case (other s k1)
  have "cur s = 0" "size_of s = max_weight"
    using other(3) e by (auto simp: holds_key_def weight_of_def)
  then show ?thesis using acquire_idle [of s n] n other(4) by simp
qed blast

lemma release_weight_held:
  assumes h: "kl_holds cur size_of k rd wr" and n: "0 < n" and fin: "finite R" "finite W"
    and w: "weight_of R W = weight_of (rd key) (wr key) - n"
  shows "\<exists>k'. release_weight so msg k key n = Inr k' \<and>
           kl_holds cur size_of k' (rd(key := R)) (wr(key := W))"
proof -
  have hk: "holds_key cur size_of (klm k key) (rd key) (wr key)"
    using h by (simp add: kl_holds_def)
  have pos: "0 \<le> weight_of R W" using max_weight_big by (simp add: weight_of_def)
  then have ne: "weight_of (rd key) (wr key) \<noteq> 0" using w n by simp
  then obtain s where s: "klm k key = Some s" and hs: "holds_key cur size_of (Some s) (rd key) (wr key)"
    using hk by (cases "klm k key") (auto simp: holds_key_def weight_of_def)
  have "n \<le> cur s" using hs w pos by (simp add: holds_key_def)
  then obtain s' where s': "SemRelease so s n = Some s'" "cur s' = cur s - n" "size_of s' = size_of s"
    using release_held [of n s] n by auto
  have "holds_key cur size_of (Some s') R W"
    using hs s' fin w n by (auto simp: holds_key_def)
  then show ?thesis using s s' kl_holds_update [OF h] by (simp add: release_weight_def)
qed

lemma holds_finite:
  assumes "kl_holds cur size_of k rd wr"
  shows "finite (rd key)" and "finite (wr key)"
  using assms by (auto simp: kl_holds_def holds_key_def)

lemma holds_writer:
  assumes "kl_holds cur size_of k rd wr" and "i \<in> wr key"
  shows "wr key = {i} \<and> rd key = {}"
  using assms by (intro holds_key_writer) (auto simp: kl_holds_def)

lemma Lock_granted:
  assumes h: "kl_holds cur size_of k rd wr" and g: "Lock so d k key = Granted k'"
  shows "rd key = {} \<and> wr key = {} \<and> kl_holds cur size_of k' rd (wr(key := {i}))"
proof -
  note fin = holds_finite [OF h, of key]
  have "acquire_weight so d k key max_weight = Granted k'" using g by (simp add: Lock_def)
  note a = acquire_weight_granted [OF h this]
  obtain j where j: "j \<notin> wr key" using ex_new_if_finite [OF infinite_UNIV_nat fin(2)] by auto
  have w: "weight_of (rd key) (insert j (wr key)) = weight_of (rd key) (wr key) + max_weight"
    using j fin by (simp add: weight_of_def algebra_simps)
  have "weight_of (rd key) (insert j (wr key)) \<le> max_weight"
    using a [OF _ fin(1) _ w] fin max_weight_big by simp
  then have e: "rd key = {}" "wr key = {}"
    using w weight_of_zero [OF fin] by simp_all
  have "weight_of {} {i} = weight_of (rd key) (wr key) + max_weight"
    using e by (simp add: weight_of_def)
  then have "kl_holds cur size_of k' (rd(key := {})) (wr(key := {i}))"
    using a [of "{}" "{i}"] max_weight_big by simp
  then show ?thesis using e by (metis fun_upd_triv)
qed

lemma RLock_granted:
  assumes h: "kl_holds cur size_of k rd wr" and g: "RLock so d k key = Granted k'" and i: "i \<notin> rd key"
  shows "wr key = {} \<and> kl_holds cur size_of k' (rd(key := insert i (rd key))) wr"
proof -
  note fin = holds_finite [OF h, of key]
  have "acquire_weight so d k key 1 = Granted k'" using g by (simp add: RLock_def)
  note a = acquire_weight_granted [OF h this]
  have w: "weight_of (insert i (rd key)) (wr key) = weight_of (rd key) (wr key) + 1"
    using i fin by (simp add: weight_of_def)
  have b: "kl_holds cur size_of k' (rd(key := insert i (rd key))) (wr(key := wr key))"
    using a [OF _ _ _ w] fin by simp
  then have "holds_key cur size_of (klm k' key) (insert i (rd key)) (wr key)"
    by (metis kl_holds_def fun_upd_same fun_upd_triv)
  then have "wr key = {}" using holds_key_writer by blast
  then show ?thesis using b by (metis fun_upd_triv)
qed

lemma acquire_weight_not_granted:
  assumes h: "kl_holds cur size_of k rd wr"
    and g: "acquire_weight so d k key n = CtxErr k' \<or> acquire_weight so d k key n = Waits k'"
  shows "kl_holds cur size_of k' rd wr"
  using h by (cases rule: acquire_weight_cases [where d = d and key = key and n = n]) (use g in auto)

lemma Unlock_held:
  assumes h: "kl_holds cur size_of k rd wr" and i: "i \<in> wr key"
  shows "\<exists>k'. Unlock so k key = Inr k' \<and> kl_holds cur size_of k' rd (wr(key := {}))"
proof -
  note e = holds_writer [OF h i]
  have "weight_of (rd key) {} = weight_of (rd key) (wr key) - max_weight"
    using e by (simp add: weight_of_def)
  then show ?thesis
    using release_weight_held [OF h, of max_weight "rd key" "{}" key] holds_finite [OF h] max_weight_big
    by (simp add: Unlock_def)
qed

lemma RUnlock_held:
  assumes h: "kl_holds cur size_of k rd wr" and i: "i \<in> rd key"
  shows "\<exists>k'. RUnlock so k key = Inr k' \<and> kl_holds cur size_of k' (rd(key := rd key - {i})) wr"
proof -
  note fin = holds_finite [OF h, of key]
  have "weight_of (rd key - {i}) (wr key) = weight_of (rd key) (wr key) - 1"
    using card_remove_member [OF fin(1) i] by (simp add: weight_of_def)
  then show ?thesis
    using release_weight_held [OF h, of 1 "rd key - {i}" "wr key" key] fin
    by (auto simp: RUnlock_def)
qed

lemma Downgrade_held:
  assumes h: "kl_holds cur size_of k rd wr" and i: "i \<in> wr key"
  shows "\<exists>k'. Downgrade so k key = Inr k' \<and> kl_holds cur size_of k' (rd(key := {i})) (wr(key := {}))"
proof -
  note e = holds_writer [OF h i]
  have "weight_of {i} {} = weight_of (rd key) (wr key) - (max_weight - 1)"
    using e by (simp add: weight_of_def)
  then show ?thesis
    using release_weight_held [OF h, of "max_weight - 1" "{i}" "{}" key] max_weight_big
    by (auto simp: Downgrade_def)
qed

end

text \<open>Over any weighted semaphore, the keyed lock is a reader/writer lock.\<close>

sublocale weighted_semaphore \<subseteq> kl: rw_keyed_lock "Lock so" "RLock so" "Unlock so" "RUnlock so"
  "Downgrade so" NewKeyedLock "kl_holds cur size_of"
proof unfold_locales
  show "kl_holds cur size_of NewKeyedLock (\<lambda>_. {}) (\<lambda>_. {})"
    by (simp add: kl_holds_def NewKeyedLock_def holds_key_def)
next
  fix k rd wr d key k'
  assume h: "kl_holds cur size_of k rd wr"
  show "Lock so d k key = CtxErr k' \<or> Lock so d k key = Waits k' \<Longrightarrow> kl_holds cur size_of k' rd wr"
    and "RLock so d k key = CtxErr k' \<or> RLock so d k key = Waits k' \<Longrightarrow> kl_holds cur size_of k' rd wr"
    using acquire_weight_not_granted [OF h] by (simp_all add: Lock_def RLock_def)
next
  fix k rd wr key d
  assume "kl_holds cur size_of k rd wr" "rd key = {}" "wr key = {}"
  note idle = acquire_weight_idle [OF this]
  show "\<exists>k'. Lock so d k key = Granted k'" and "\<exists>k'. RLock so d k key = Granted k'"
    using idle max_weight_big by (simp_all add: Lock_def RLock_def)
qed (fact holds_writer Lock_granted RLock_granted Unlock_held RUnlock_held Downgrade_held)+

section \<open>A counting semaphore\<close>

text \<open>
  A concrete semaphore that satisfies the documented contract: the pair of the weight in use and
  the capacity. It instantiates the parameter in the examples.
\<close>

definition counting_sem :: "(int \<times> int) sem_ops" where
  "counting_sem =
     \<lparr>NewWeighted = (\<lambda>n. (0, n)),
      SemAcquire = (\<lambda>(c, n) w. if c + w \<le> n then Some (c + w, n) else None),
      SemRelease = (\<lambda>(c, n) w. if w \<le> c then Some (c - w, n) else None)\<rparr>"

interpretation csem: weighted_semaphore counting_sem fst snd
  by unfold_locales (auto simp: counting_sem_def split: prod.splits if_splits)

end
