(* ===== verification/Acquire_Controller.thy ===== *)
theory Acquire_Controller
  imports Confort_Prelude
begin

text \<open>
  The admission queue of internal/exclusion/acquire.go (\<open>acquireController\<close>). Every multi-key
  acquisition is an entry of a queue with the set of keys it still has to lock and a channel that
  is closed when the entry may start locking. Entries are pointers in the code; here an entry is
  the number under which its \<open>acquireSet\<close> lives in a heap. The mutex makes each of the operations
  \<open>accept\<close>, \<open>removeLockedKey\<close> and \<open>remove\<close> one atomic step.

  The central fact is \<open>settled\<close>: after every operation an entry has been let through exactly when
  no entry ahead of it wants one of its keys. The locale \<open>admission\<close> is the contract that the
  Acquirer relies on.
\<close>

section \<open>State and operations\<close>

record acquire_set =
  as_set :: "string set"
  as_proceed :: bool

record controller =
  ac_next :: nat
  ac_heap :: "nat \<Rightarrow> acquire_set"
  ac_queue :: "nat list"

text \<open>The controller that \<open>NewAcquirer\<close> creates: an empty list.\<close>

definition NewAcquirer :: controller where
  "NewAcquirer = \<lparr>ac_next = 0, ac_heap = (\<lambda>_. \<lparr>as_set = {}, as_proceed = False\<rparr>), ac_queue = []\<rparr>"

text \<open>
  The loop of \<open>proceed\<close>: walk the queue from the front with the set of keys seen so far
  (\<open>waitSet\<close>). An entry that has already started only adds its keys; any other entry is pending if
  one of its keys has been seen, and otherwise its channel is closed.
\<close>

fun proceed_loop :: "(nat \<Rightarrow> acquire_set) \<Rightarrow> string set \<Rightarrow> nat list \<Rightarrow> (nat \<Rightarrow> acquire_set)" where
  "proceed_loop h waitSet [] = h"
| "proceed_loop h waitSet (e # es) =
     (let s = h e in
      if as_proceed s then proceed_loop h (waitSet \<union> as_set s) es
      else
        (let pending = (\<exists>key \<in> as_set s. key \<in> waitSet);
             h' = (if pending then h else h(e := s\<lparr>as_proceed := True\<rparr>))
         in proceed_loop h' (waitSet \<union> as_set s) es))"

definition proceed :: "controller \<Rightarrow> controller" where
  "proceed q = (if ac_queue q = [] then q else q\<lparr>ac_heap := proceed_loop (ac_heap q) {} (ac_queue q)\<rparr>)"

definition accept :: "string set \<Rightarrow> controller \<Rightarrow> nat \<times> controller" where
  "accept keys q =
     (let e = ac_next q;
          q1 = q\<lparr>ac_next := Suc e,
                 ac_heap := (ac_heap q)(e := \<lparr>as_set = keys, as_proceed = False\<rparr>),
                 ac_queue := ac_queue q @ [e]\<rparr>
      in (e, proceed q1))"

text \<open>\<open>list.Remove\<close>: takes the element out if it is in the list, and is a no-op otherwise.\<close>

definition list_remove :: "nat \<Rightarrow> nat list \<Rightarrow> nat list" where
  "list_remove e es = filter (\<lambda>x. x \<noteq> e) es"

definition removeLockedKey :: "nat \<Rightarrow> string \<Rightarrow> controller \<Rightarrow> controller" where
  "removeLockedKey e key q =
     (let s = ac_heap q e;
          q1 = (if 1 < card (as_set s)
                then q\<lparr>ac_heap := (ac_heap q)(e := s\<lparr>as_set := as_set s - {key}\<rparr>)\<rparr>
                else q\<lparr>ac_queue := list_remove e (ac_queue q)\<rparr>)
      in proceed q1)"

definition remove :: "nat \<Rightarrow> controller \<Rightarrow> controller" where
  "remove e q = proceed (q\<lparr>ac_queue := list_remove e (ac_queue q)\<rparr>)"

text \<open>Observations: the keys an entry still wants, and whether its channel is closed.\<close>

abbreviation wants :: "controller \<Rightarrow> nat \<Rightarrow> string set" where
  "wants q e \<equiv> as_set (ac_heap q e)"

abbreviation started :: "controller \<Rightarrow> nat \<Rightarrow> bool" where
  "started q e \<equiv> as_proceed (ac_heap q e)"

text \<open>The first entry of the queue that wants a key.\<close>

definition first_in_line :: "controller \<Rightarrow> string \<Rightarrow> nat option" where
  "first_in_line q key = List.find (\<lambda>e. key \<in> wants q e) (ac_queue q)"

section \<open>The scan of the queue\<close>

text \<open>
  \<open>fair\<close>: a started entry shares no key with what lies ahead of it. \<open>settled\<close>: the converse holds
  too, so nothing that could start is left waiting.
\<close>

fun fair :: "(nat \<Rightarrow> acquire_set) \<Rightarrow> string set \<Rightarrow> nat list \<Rightarrow> bool" where
  "fair h W [] = True"
| "fair h W (e # es) =
     ((as_proceed (h e) \<longrightarrow> as_set (h e) \<inter> W = {}) \<and> fair h (W \<union> as_set (h e)) es)"

fun settled :: "(nat \<Rightarrow> acquire_set) \<Rightarrow> string set \<Rightarrow> nat list \<Rightarrow> bool" where
  "settled h W [] = True"
| "settled h W (e # es) =
     ((as_proceed (h e) \<longleftrightarrow> as_set (h e) \<inter> W = {}) \<and> settled h (W \<union> as_set (h e)) es)"

definition ctl_inv :: "controller \<Rightarrow> bool" where
  "ctl_inv q \<longleftrightarrow>
     distinct (ac_queue q) \<and> (\<forall>e \<in> set (ac_queue q). e < ac_next q) \<and>
     (\<forall>e. finite (wants q e)) \<and> settled (ac_heap q) {} (ac_queue q)"

lemma proceed_loop_set [simp]: "as_set (proceed_loop h W q e) = as_set (h e)"
  by (induction h W q rule: proceed_loop.induct) (auto simp: Let_def)

lemma proceed_loop_keeps_started: "as_proceed (h e) \<Longrightarrow> as_proceed (proceed_loop h W q e)"
  by (induction h W q rule: proceed_loop.induct) (auto simp: Let_def)

lemma proceed_loop_other: "e \<notin> set q \<Longrightarrow> proceed_loop h W q e = h e"
  by (induction h W q rule: proceed_loop.induct) (auto simp: Let_def)

lemma fair_cong:
  "(\<And>e. e \<in> set q \<Longrightarrow> h e = h' e) \<Longrightarrow> fair h W q = fair h' W q"
  by (induction q arbitrary: W) auto

lemma settled_cong:
  "(\<And>e. e \<in> set q \<Longrightarrow> h e = h' e) \<Longrightarrow> settled h W q = settled h' W q"
  by (induction q arbitrary: W) auto

lemma settled_fair: "settled h W q \<Longrightarrow> fair h W q"
  by (induction q arbitrary: W) auto

lemma fair_antimono: "fair h W q \<Longrightarrow> W' \<subseteq> W \<Longrightarrow> fair h W' q"
proof (induction q arbitrary: W W')
  case (Cons e es)
  then have "fair h (W' \<union> as_set (h e)) es" by (auto intro: Cons.IH)
  with Cons.prems show ?case by auto
qed simp

lemma fair_shrink:
  assumes "fair h W q" and "\<And>e. as_set (h' e) \<subseteq> as_set (h e)" and "\<And>e. as_proceed (h' e) = as_proceed (h e)"
  shows "fair h' W q"
  using assms(1)
proof (induction q arbitrary: W)
  case (Cons e es)
  have "fair h' (W \<union> as_set (h e)) es" using Cons by simp
  then have "fair h' (W \<union> as_set (h' e)) es"
    by (rule fair_antimono) (use assms(2) in auto)
  then show ?case using Cons.prems assms(2) [of e] assms(3) [of e] by auto
qed simp

lemma fair_filter: "fair h W q \<Longrightarrow> fair h W (filter P q)"
proof (induction q arbitrary: W)
  case (Cons e es)
  then have "fair h (W \<union> as_set (h e)) (filter P es)" by simp
  then have "fair h W (filter P es)" by (rule fair_antimono) auto
  with Cons show ?case by auto
qed simp

lemma fair_snoc: "fair h W q \<Longrightarrow> \<not> as_proceed (h e) \<Longrightarrow> fair h W (q @ [e])"
  by (induction q arbitrary: W) auto

lemma proceed_loop_settles:
  "fair h W q \<Longrightarrow> distinct q \<Longrightarrow> settled (proceed_loop h W q) W q"
proof (induction q arbitrary: h W)
  case (Cons e es)
  define h' where
    "h' = (if as_proceed (h e) \<or> (\<exists>key \<in> as_set (h e). key \<in> W) then h else h(e := (h e)\<lparr>as_proceed := True\<rparr>))"
  have loop: "proceed_loop h W (e # es) = proceed_loop h' (W \<union> as_set (h e)) es"
    by (auto simp: h'_def Let_def)
  have e: "e \<notin> set es" using Cons.prems by simp
  have h'e: "as_proceed (h' e) \<longleftrightarrow> as_set (h e) \<inter> W = {}"
    using Cons.prems by (auto simp: h'_def)
  have "fair h (W \<union> as_set (h e)) es = fair h' (W \<union> as_set (h e)) es"
    by (rule fair_cong) (use e in \<open>auto simp: h'_def\<close>)
  then have "fair h' (W \<union> as_set (h e)) es" using Cons.prems by simp
  then have "settled (proceed_loop h' (W \<union> as_set (h e)) es) (W \<union> as_set (h e)) es"
    by (rule Cons.IH) (use Cons.prems in simp)
  moreover have "proceed_loop h' (W \<union> as_set (h e)) es e = h' e"
    using e by (rule proceed_loop_other)
  moreover have "as_set (h' e) = as_set (h e)" by (simp add: h'_def)
  ultimately show ?case using h'e by (simp add: loop del: proceed_loop.simps)
qed simp

lemma settled_split:
  "settled h W (xs @ e # ys) \<Longrightarrow>
     as_proceed (h e) \<longleftrightarrow> as_set (h e) \<inter> (W \<union> (\<Union>x \<in> set xs. as_set (h x))) = {}"
  by (induction xs arbitrary: W) (auto simp: Un_assoc)

section \<open>Every operation keeps the invariant\<close>

lemma list_remove_simps [simp]:
  "list_remove e [] = []" "list_remove e (x # xs) = (if x = e then list_remove e xs else x # list_remove e xs)"
  "set (list_remove e es) = set es - {e}"
  "list_remove e (xs @ ys) = list_remove e xs @ list_remove e ys"
  by (auto simp: list_remove_def)

lemma distinct_list_remove: "distinct es \<Longrightarrow> distinct (list_remove e es)"
  by (simp add: list_remove_def)

lemma proceed_simps [simp]:
  "ac_next (proceed q) = ac_next q" "ac_queue (proceed q) = ac_queue q"
  "wants (proceed q) e = wants q e"
  by (simp_all add: proceed_def)

lemma proceed_keeps_started: "started q e \<Longrightarrow> started (proceed q) e"
  by (simp add: proceed_def proceed_loop_keeps_started)

lemma ctl_inv_proceed:
  assumes "distinct (ac_queue q)" and "\<forall>e \<in> set (ac_queue q). e < ac_next q"
    and "\<forall>e. finite (wants q e)" and "fair (ac_heap q) {} (ac_queue q)"
  shows "ctl_inv (proceed q)"
  using assms proceed_loop_settles [of "ac_heap q" "{}" "ac_queue q"]
  by (auto simp: ctl_inv_def proceed_def)

lemma ctl_inv_fair: "ctl_inv q \<Longrightarrow> fair (ac_heap q) {} (ac_queue q)"
  by (simp add: ctl_inv_def settled_fair)

lemma ctl_inv_NewAcquirer: "ctl_inv NewAcquirer"
  by (simp add: ctl_inv_def NewAcquirer_def)

lemma ctl_inv_accept:
  assumes "ctl_inv q" and "finite K"
  shows "ctl_inv (snd (accept K q))"
proof -
  let ?e = "ac_next q"
  let ?h = "(ac_heap q)(?e := \<lparr>as_set = K, as_proceed = False\<rparr>)"
  have new: "?e \<notin> set (ac_queue q)" using assms by (auto simp: ctl_inv_def)
  have "fair (ac_heap q) {} (ac_queue q) = fair ?h {} (ac_queue q)"
    by (rule fair_cong) (use new in auto)
  then have "fair ?h {} (ac_queue q @ [?e])"
    using ctl_inv_fair [OF assms(1)] by (intro fair_snoc) auto
  then show ?thesis
    using assms new unfolding accept_def Let_def snd_conv
    by (intro ctl_inv_proceed) (auto simp: ctl_inv_def less_Suc_eq)
qed

lemma ctl_inv_remove: "ctl_inv q \<Longrightarrow> ctl_inv (remove e q)"
  unfolding remove_def using ctl_inv_fair
  by (intro ctl_inv_proceed) (auto simp: ctl_inv_def list_remove_def fair_filter)

lemma ctl_inv_removeLockedKey:
  assumes "ctl_inv q"
  shows "ctl_inv (removeLockedKey e key q)"
proof (cases "1 < card (wants q e)")
  case True
  let ?h = "(ac_heap q)(e := (ac_heap q e)\<lparr>as_set := wants q e - {key}\<rparr>)"
  have "fair ?h {} (ac_queue q)"
    using ctl_inv_fair [OF assms] by (rule fair_shrink) auto
  then have "ctl_inv (proceed (q\<lparr>ac_heap := ?h\<rparr>))"
    by (intro ctl_inv_proceed) (use assms in \<open>auto simp: ctl_inv_def\<close>)
  then show ?thesis using True by (simp add: removeLockedKey_def Let_def)
next
  case False
  then have "removeLockedKey e key q = remove e q"
    by (simp add: removeLockedKey_def remove_def)
  then show ?thesis using ctl_inv_remove [OF assms] by simp
qed

section \<open>The contract towards the Acquirer\<close>

text \<open>
  An admission queue hands out tickets, admits a ticket when every key it wants is free of earlier
  tickets, and lets a ticket give keys back one by one or leave altogether.
\<close>

locale admission =
  fixes enter :: "string set \<Rightarrow> 'c \<Rightarrow> nat \<times> 'c"
    and drop_key :: "nat \<Rightarrow> string \<Rightarrow> 'c \<Rightarrow> 'c"
    and leave :: "nat \<Rightarrow> 'c \<Rightarrow> 'c"
    and line :: "'c \<Rightarrow> nat list"
    and want :: "'c \<Rightarrow> nat \<Rightarrow> string set"
    and admitted :: "'c \<Rightarrow> nat \<Rightarrow> bool"
    and next_ticket :: "'c \<Rightarrow> nat"
    and inv :: "'c \<Rightarrow> bool"
  assumes line_distinct: "inv c \<Longrightarrow> distinct (line c)"
    and line_ticket: "inv c \<Longrightarrow> e \<in> set (line c) \<Longrightarrow> e < next_ticket c"
    and admitted_iff: "inv c \<Longrightarrow> line c = xs @ e # ys \<Longrightarrow>
          admitted c e \<longleftrightarrow> want c e \<inter> (\<Union>x \<in> set xs. want c x) = {}"
    and enter_inv: "inv c \<Longrightarrow> finite K \<Longrightarrow> inv (snd (enter K c))"
    and enter_ticket: "fst (enter K c) = next_ticket c"
    and enter_next: "next_ticket (snd (enter K c)) = Suc (next_ticket c)"
    and enter_line: "line (snd (enter K c)) = line c @ [next_ticket c]"
    and enter_want: "want (snd (enter K c)) = (want c)(next_ticket c := K)"
    and drop_key_inv: "inv c \<Longrightarrow> inv (drop_key e key c)"
    and drop_key_next: "next_ticket (drop_key e key c) = next_ticket c"
    and drop_key_more: "1 < card (want c e) \<Longrightarrow>
          line (drop_key e key c) = line c \<and> want (drop_key e key c) = (want c)(e := want c e - {key})"
    and drop_key_last: "card (want c e) \<le> 1 \<Longrightarrow> drop_key e key c = leave e c"
    and leave_inv: "inv c \<Longrightarrow> inv (leave e c)"
    and leave_next: "next_ticket (leave e c) = next_ticket c"
    and leave_line: "line (leave e c) = list_remove e (line c)"
    and leave_want: "want (leave e c) = want c"
    and enter_admitted: "admitted c x \<Longrightarrow> x \<noteq> next_ticket c \<Longrightarrow> admitted (snd (enter K c)) x"
    and drop_key_admitted: "admitted c x \<Longrightarrow> admitted (drop_key e key c) x"
    and leave_admitted: "admitted c x \<Longrightarrow> admitted (leave e c) x"
begin

lemma admitted_iff_ahead:
  assumes "inv c" and "e \<in> set (line c)"
  shows "admitted c e \<longleftrightarrow> want c e \<inter> (\<Union>x \<in> ahead (line c) e. want c x) = {}"
proof -
  obtain xs ys where "line c = xs @ e # ys" and "ahead (line c) e = set xs"
    using in_queue_cases [OF assms(2)] by blast
  with admitted_iff [OF assms(1)] show ?thesis by simp
qed

lemma admitted_disjoint:
  assumes "inv c" and "e \<in> set (line c)" and "f \<in> set (line c)" and "e \<noteq> f"
    and "admitted c e" and "admitted c f"
  shows "want c e \<inter> want c f = {}"
proof -
  obtain xs ys where l: "line c = xs @ e # ys" using assms(2) by (auto dest: split_list)
  show ?thesis
  proof (cases "f \<in> set xs")
    case True
    then show ?thesis using admitted_iff [OF assms(1) l] assms(5) by auto
  next
    case False
    then have "f \<in> set ys" using assms(3,4) l by auto
    then obtain us vs where "ys = us @ f # vs" by (auto dest: split_list)
    then have "line c = (xs @ e # us) @ f # vs" using l by simp
    from admitted_iff [OF assms(1) this] show ?thesis using assms(6) by auto
  qed
qed

lemma no_overtaking:
  assumes "inv c" and "line c = xs @ e # ys" and "f \<in> set ys" and "want c e \<inter> want c f \<noteq> {}"
  shows "\<not> admitted c f"
proof -
  obtain us vs where "ys = us @ f # vs" using assms(3) by (auto dest: split_list)
  then have "line c = (xs @ e # us) @ f # vs" using assms(2) by simp
  from admitted_iff [OF assms(1) this] show ?thesis using assms(4) by auto
qed

lemma admitted_iff_first:
  assumes "inv c" and "e \<in> set (line c)"
  shows "admitted c e \<longleftrightarrow> (\<forall>key \<in> want c e. List.find (\<lambda>x. key \<in> want c x) (line c) = Some e)"
proof -
  obtain xs ys where l: "line c = xs @ e # ys" using assms(2) by (auto dest: split_list)
  have e: "e \<notin> set xs" using line_distinct [OF assms(1)] l by simp
  have find: "List.find (\<lambda>x. key \<in> want c x) (line c) = Some e \<longleftrightarrow> (\<forall>x \<in> set xs. key \<notin> want c x)"
    if "key \<in> want c e" for key
    unfolding l using find_split_first [OF e, of "\<lambda>x. key \<in> want c x"] that by simp
  show ?thesis using admitted_iff [OF assms(1) l] find by auto
qed

lemma head_admitted: "inv c \<Longrightarrow> line c = e # es \<Longrightarrow> admitted c e"
  using admitted_iff [of c "[]" e es] by simp

lemma first_wanting_admitted:
  assumes "inv c" and "line c = xs @ e # ys" and "\<And>x. x \<in> set xs \<Longrightarrow> want c x = {}"
  shows "admitted c e"
  using admitted_iff [OF assms(1,2)] assms(3) by auto

end

interpretation adm: admission accept removeLockedKey remove ac_queue wants started ac_next ctl_inv
proof unfold_locales
  fix c xs e ys
  assume "ctl_inv c" "ac_queue c = xs @ e # ys"
  then show "started c e \<longleftrightarrow> wants c e \<inter> (\<Union>x \<in> set xs. wants c x) = {}"
    using settled_split [of "ac_heap c" "{}" xs e ys] by (auto simp: ctl_inv_def)
next
  fix c e key
  show "ctl_inv c \<Longrightarrow> distinct (ac_queue c)" and "ctl_inv c \<Longrightarrow> e \<in> set (ac_queue c) \<Longrightarrow> e < ac_next c"
    by (auto simp: ctl_inv_def)
  show "card (wants c e) \<le> 1 \<Longrightarrow> removeLockedKey e key c = remove e c"
    by (simp add: removeLockedKey_def remove_def)
  show "1 < card (wants c e) \<Longrightarrow> ac_queue (removeLockedKey e key c) = ac_queue c \<and>
      wants (removeLockedKey e key c) = (wants c)(e := wants c e - {key})"
    by (auto simp: removeLockedKey_def Let_def fun_eq_iff)
next
  fix c x e key K
  assume x: "started c x"
  show "started (remove e c) x"
    unfolding remove_def by (rule proceed_keeps_started) (simp add: x)
  show "started (removeLockedKey e key c) x"
    unfolding removeLockedKey_def Let_def by (rule proceed_keeps_started) (use x in auto)
  show "x \<noteq> ac_next c \<Longrightarrow> started (snd (accept K c)) x"
    unfolding accept_def Let_def snd_conv by (rule proceed_keeps_started) (simp add: x)
qed (simp_all add: ctl_inv_accept ctl_inv_remove ctl_inv_removeLockedKey,
      auto simp: accept_def removeLockedKey_def remove_def Let_def fun_eq_iff)

section \<open>Runs of the controller\<close>

text \<open>Every state that the three operations can produce, called in any order and with any argument.\<close>

inductive ctl_reach :: "controller \<Rightarrow> bool" where
  new: "ctl_reach NewAcquirer"
| accept: "ctl_reach q \<Longrightarrow> finite K \<Longrightarrow> ctl_reach (snd (accept K q))"
| locked: "ctl_reach q \<Longrightarrow> ctl_reach (removeLockedKey e key q)"
| removed: "ctl_reach q \<Longrightarrow> ctl_reach (remove e q)"

lemma ctl_reach_inv: "ctl_reach q \<Longrightarrow> ctl_inv q"
  by (induction rule: ctl_reach.induct)
    (auto simp: ctl_inv_NewAcquirer ctl_inv_accept ctl_inv_remove ctl_inv_removeLockedKey)

lemma remove_ahead_queue:
  "ac_queue (fold remove xs q) = filter (\<lambda>x. x \<notin> set xs) (ac_queue q)"
  by (induction xs arbitrary: q) (auto simp: adm.leave_line list_remove_def conj_commute intro!: filter_cong)

lemma remove_ahead_inv: "ctl_inv q \<Longrightarrow> ctl_inv (fold remove xs q)"
  by (induction xs arbitrary: q) (auto simp: ctl_inv_remove)

section \<open>Main properties\<close>

text \<open>A queue of three entries: the second shares a key with the first, the third with the second only.\<close>

definition three_in_line :: controller where
  "three_in_line =
     snd (accept {''kv'', ''mq''} (snd (accept {''db'', ''kv''} (snd (accept {''db''} NewAcquirer)))))"

lemma three_in_line_reach: "ctl_reach three_in_line"
  unfolding three_in_line_def by (intro ctl_reach.intros) simp_all

text \<open>
  C13: Fair admission. Whatever sequence of accept, removeLockedKey and remove has led to the present
  queue, a queued acquisition has been let through exactly when it is the first in the queue for
  every key it still wants: a later acquisition never overtakes an earlier one on a common key,
  and none is held back without such a reason.
\<close>

theorem admission_first_in_line:
  assumes "ctl_reach q" and "e \<in> set (ac_queue q)"
  shows "started q e \<longleftrightarrow> (\<forall>key \<in> wants q e. first_in_line q key = Some e)"
  unfolding first_in_line_def using ctl_reach_inv [OF assms(1)] assms(2) by (rule adm.admitted_iff_first)

theorem admission_first_in_line_witness:
  "\<not> started three_in_line 2 \<and> \<not> started three_in_line 1 \<and> started three_in_line 0"
proof -
  have q: "ac_queue three_in_line = [0, 1, 2]" by code_simp
  have w: "wants three_in_line 0 = {''db''}" "wants three_in_line 1 = {''db'', ''kv''}"
    "wants three_in_line 2 = {''kv'', ''mq''}" by code_simp+
  note iff = admission_first_in_line [OF three_in_line_reach, unfolded q first_in_line_def]
  show ?thesis using iff [of 0] iff [of 1] iff [of 2] by (simp add: w del: One_nat_def)
qed

text \<open>
  No acquisition is lost in the queue. When the entries ahead of it have left, in any order and
  each by its own call of remove, an entry has been let through.
\<close>

theorem admission_after_predecessors:
  assumes "ctl_reach q" and "ac_queue q = xs @ e # ys" and "set gone = set xs"
  shows "started (fold remove gone q) e"
proof -
  have d: "distinct (xs @ e # ys)" using ctl_reach_inv [OF assms(1)] assms(2) by (auto simp: ctl_inv_def)
  then have "ac_queue (fold remove gone q) = e # ys"
    using assms(2,3) by (auto simp: remove_ahead_queue intro!: filter_True)
  then show ?thesis
    by (rule adm.head_admitted [OF remove_ahead_inv [OF ctl_reach_inv [OF assms(1)]]])
qed

theorem admission_after_predecessors_witness:
  "\<not> started three_in_line 2 \<and> started (fold remove [1, 0] three_in_line) 2"
proof -
  have "ac_queue three_in_line = [0, 1] @ 2 # []" by code_simp
  then have "started (fold remove [1, 0] three_in_line) 2"
    by (rule admission_after_predecessors [OF three_in_line_reach]) auto
  moreover have "\<not> started three_in_line 2" by code_simp
  ultimately show ?thesis by simp
qed

end
