(* ===== verification/Exclusion_Locker.thy ===== *)
theory Exclusion_Locker
  imports Keyed_Lock Acquire_Controller
begin

text \<open>
  internal/exclusion/locker.go and the \<open>Acquirer\<close> of acquire.go. The first part translates the
  Locker, the container lock with its one-time initialisation, and the lock and unlock closures of
  an \<open>AcquireContainerLockEntry\<close>. The second part is the transition system of any number of
  concurrent \<open>AcquireContainerLock\<close> calls on one Locker: each call queues in the acquire controller,
  starts one goroutine per container, waits for all of them, and either holds every lock or gives
  all of them back.

  github.com/daichitakahashi/oncewait is a parameter: \<open>OnceDo o name\<close> says whether a call of
  \<open>Get(name).Do(f)\<close> runs \<open>f\<close>, and the factory after it; \<open>OnceRefresh\<close> is \<open>Refresh(name)\<close>.
\<close>

section \<open>The Locker\<close>

record 'o once_ops =
  OnceNew :: 'o
  OnceDo :: "'o \<Rightarrow> string \<Rightarrow> bool \<times> 'o"
  OnceRefresh :: "'o \<Rightarrow> string \<Rightarrow> 'o"

record ('s, 'o) locker =
  lk_namespace :: bool
  lk_build :: "'s keyed_lock"
  lk_containerSetup :: "'s keyed_lock"
  lk_containerUse :: "'s keyed_lock"
  lk_acquirer :: controller
  lk_once :: 'o

definition NewLocker :: "'o once_ops \<Rightarrow> ('s, 'o) locker" where
  "NewLocker oo =
     \<lparr>lk_namespace = False, lk_build = NewKeyedLock, lk_containerSetup = NewKeyedLock,
      lk_containerUse = NewKeyedLock, lk_acquirer = NewAcquirer, lk_once = OnceNew oo\<rparr>"

text \<open>The namespace lock is a \<open>sync.Mutex\<close>; the function returned to the caller unlocks it.\<close>

definition LockForNamespace :: "('s, 'o) locker \<Rightarrow> ('s, 'o) locker outcome" where
  "LockForNamespace l = (if lk_namespace l then Waits l else Granted (l\<lparr>lk_namespace := True\<rparr>))"

definition UnlockNamespace :: "('s, 'o) locker \<Rightarrow> go_panic + ('s, 'o) locker" where
  "UnlockNamespace l =
     (if lk_namespace l then Inr (l\<lparr>lk_namespace := False\<rparr>)
      else Inl (UnlockedMutex ''sync: unlock of unlocked mutex''))"

definition LockForBuild ::
  "'s sem_ops \<Rightarrow> bool \<Rightarrow> ('s, 'o) locker \<Rightarrow> string \<Rightarrow> ('s, 'o) locker outcome" where
  "LockForBuild so d l img = map_outcome (\<lambda>k. l\<lparr>lk_build := k\<rparr>) (Lock so d (lk_build l) img)"

definition UnlockBuild ::
  "'s sem_ops \<Rightarrow> ('s, 'o) locker \<Rightarrow> string \<Rightarrow> go_panic + ('s, 'o) locker" where
  "UnlockBuild so l img = map_sum id (\<lambda>k. l\<lparr>lk_build := k\<rparr>) (Unlock so (lk_build l) img)"

definition LockForContainerSetup ::
  "'s sem_ops \<Rightarrow> bool \<Rightarrow> ('s, 'o) locker \<Rightarrow> string \<Rightarrow> ('s, 'o) locker outcome" where
  "LockForContainerSetup so d l name =
     map_outcome (\<lambda>k. l\<lparr>lk_containerSetup := k\<rparr>) (Lock so d (lk_containerSetup l) name)"

definition UnlockContainerSetup ::
  "'s sem_ops \<Rightarrow> ('s, 'o) locker \<Rightarrow> string \<Rightarrow> go_panic + ('s, 'o) locker" where
  "UnlockContainerSetup so l name =
     map_sum id (\<lambda>k. l\<lparr>lk_containerSetup := k\<rparr>) (Unlock so (lk_containerSetup l) name)"

section \<open>Container locks\<close>

text \<open>
  \<open>ContainerLock\<close>: its \<open>l\<close> and \<open>once\<close> are the ones of the Locker it was made by. \<open>cl_downgraded\<close> is the
  atomic int32 of the code.
\<close>

record container_lock =
  cl_name :: string
  cl_init :: bool
  cl_exclusive :: bool
  cl_downgraded :: int

definition InitAcquired :: "container_lock \<Rightarrow> bool" where
  "InitAcquired cl = cl_init cl"

definition SetInitResult ::
  "'s sem_ops \<Rightarrow> 'o once_ops \<Rightarrow> ('s, 'o) locker \<Rightarrow> container_lock \<Rightarrow> bool \<Rightarrow>
     go_panic + (('s, 'o) locker \<times> container_lock)" where
  "SetInitResult so oo l cl ok =
     (if cl_init cl then
        if ok then
          if \<not> cl_exclusive cl \<and> cl_downgraded cl = 0 then
            (case Downgrade so (lk_containerUse l) (cl_name cl) of
               Inl p \<Rightarrow> Inl p
             | Inr k \<Rightarrow> Inr (l\<lparr>lk_containerUse := k\<rparr>, cl\<lparr>cl_downgraded := 1\<rparr>))
          else Inr (l, cl)
        else Inr (l\<lparr>lk_once := OnceRefresh oo (lk_once l) (cl_name cl)\<rparr>, cl)
      else Inr (l, cl))"

definition Release ::
  "'s sem_ops \<Rightarrow> ('s, 'o) locker \<Rightarrow> container_lock \<Rightarrow> go_panic + ('s, 'o) locker" where
  "Release so l cl =
     map_sum id (\<lambda>k. l\<lparr>lk_containerUse := k\<rparr>)
       (if cl_exclusive cl \<or> cl_downgraded cl = 0
        then Unlock so (lk_containerUse l) (cl_name cl)
        else RUnlock so (lk_containerUse l) (cl_name cl))"

record acquire_entry =
  en_exclusive :: bool
  en_init :: bool

text \<open>
  The goroutine that locks one container. \<open>GInit\<close>: inside \<open>once.Get(name).Do\<close>, waiting for the
  exclusive lock that comes with the initialisation. \<open>GPlain\<close>: past it, waiting for the lock of the
  entry. \<open>GLocked\<close>: the entry's \<open>cl\<close> is set. \<open>GFailed\<close>: returned the context's error. \<open>GUnlocked\<close>: the
  lock was given back.
\<close>

datatype goroutine =
    GNew
  | GInit
  | GPlain
  | GLocked container_lock
  | GFailed
  | GUnlocked

text \<open>The first part of the \<open>Lock\<close> closure: does this call get to initialise the container?\<close>

definition lock_enter ::
  "'o once_ops \<Rightarrow> ('s, 'o) locker \<Rightarrow> string \<Rightarrow> acquire_entry \<Rightarrow> goroutine \<times> ('s, 'o) locker" where
  "lock_enter oo l name p =
     (if en_init p then
        (let (run, o') = OnceDo oo (lk_once l) name in
           ((if run then GInit else GPlain), l\<lparr>lk_once := o'\<rparr>))
      else (GPlain, l))"

text \<open>
  The second part: take the lock. A failed acquisition inside \<open>Do\<close> refreshes the once, so that the
  next caller gets the initialisation.
\<close>

definition lock_try ::
  "'s sem_ops \<Rightarrow> 'o once_ops \<Rightarrow> bool \<Rightarrow> ('s, 'o) locker \<Rightarrow> string \<Rightarrow> acquire_entry \<Rightarrow> bool \<Rightarrow>
     ('s, 'o) locker outcome" where
  "lock_try so oo d l name p init =
     (if init then
        (case Lock so d (lk_containerUse l) name of
           Granted k \<Rightarrow> Granted (l\<lparr>lk_containerUse := k\<rparr>)
         | CtxErr k \<Rightarrow> CtxErr (l\<lparr>lk_containerUse := k, lk_once := OnceRefresh oo (lk_once l) name\<rparr>)
         | Waits k \<Rightarrow> Waits (l\<lparr>lk_containerUse := k\<rparr>))
      else
        map_outcome (\<lambda>k. l\<lparr>lk_containerUse := k\<rparr>)
          (if en_exclusive p then Lock so d (lk_containerUse l) name
           else RLock so d (lk_containerUse l) name))"

definition new_container_lock :: "string \<Rightarrow> acquire_entry \<Rightarrow> bool \<Rightarrow> container_lock" where
  "new_container_lock name p init =
     \<lparr>cl_name = name, cl_init = init, cl_exclusive = en_exclusive p,
      cl_downgraded = (if init \<or> en_exclusive p then 0 else 1)\<rparr>"

text \<open>The \<open>Unlock\<close> closures of several entries, called in the given order.\<close>

fun unlock_all ::
  "'s sem_ops \<Rightarrow> ('s, 'o) locker \<Rightarrow> (string \<Rightarrow> goroutine) \<Rightarrow> string list \<Rightarrow> go_panic + ('s, 'o) locker" where
  "unlock_all so l go [] = Inr l"
| "unlock_all so l go (name # names) =
     (case go name of
        GLocked cl \<Rightarrow>
          (case Release so l cl of
             Inl p \<Rightarrow> Inl p
           | Inr l' \<Rightarrow> unlock_all so l' go names)
      | _ \<Rightarrow> unlock_all so l go names)"

section \<open>Concurrent acquisitions\<close>

text \<open>
  Where a call of \<open>Acquire\<close> is: waiting for \<open>proceed\<close> or \<open>ctx.Done()\<close>; waiting for its goroutines;
  returned with all locks; released; or returned with an error.
\<close>

datatype phase = PWait | PLock | PHeld | PReleased | PFailed

record req =
  rq_entries :: "(string \<times> acquire_entry) list"
  rq_phase :: phase
  rq_go :: "string \<Rightarrow> goroutine"

record ('s, 'o) sys =
  sy_locker :: "('s, 'o) locker"
  sy_reqs :: "nat \<Rightarrow> req option"

definition NewSys :: "'o once_ops \<Rightarrow> ('s, 'o) sys" where
  "NewSys oo = \<lparr>sy_locker = NewLocker oo, sy_reqs = Map.empty\<rparr>"

text \<open>
  The steps. A request is named by its queue entry. \<open>Accept\<close> enters \<open>Acquire\<close> with a Go map, given by
  its bindings; \<open>Start\<close> and \<open>Cancel\<close> are the two branches of the select; \<open>Enter\<close> and \<open>Try\<close> are the two
  parts of a goroutine's \<open>Lock\<close>, with the state of the context; \<open>WaitOk\<close> and \<open>WaitErr\<close> are the two
  results of \<open>eg.Wait()\<close>; \<open>InitResult\<close> is \<open>SetInitResult\<close> on a held lock and \<open>ReleaseAll\<close> is the
  returned release function. The order in which locks are given back is part of the label.
\<close>

datatype label =
    Accept "(string \<times> acquire_entry) list"
  | Start nat
  | Cancel nat
  | Enter nat string
  | Try nat string bool
  | WaitOk nat
  | WaitErr nat "string list"
  | InitResult nat string bool
  | ReleaseAll nat "string list"

definition keys_of :: "req \<Rightarrow> string set" where
  "keys_of q = set (map fst (rq_entries q))"

abbreviation rq_entry :: "req \<Rightarrow> string \<Rightarrow> acquire_entry option" where
  "rq_entry q \<equiv> map_of (rq_entries q)"

definition is_locked :: "goroutine \<Rightarrow> bool" where
  "is_locked g = (case g of GLocked _ \<Rightarrow> True | _ \<Rightarrow> False)"

definition set_req :: "nat \<Rightarrow> req \<Rightarrow> ('s, 'o) locker \<Rightarrow> ('s, 'o) sys \<Rightarrow> ('s, 'o) sys" where
  "set_req r q l s = \<lparr>sy_locker = l, sy_reqs = (sy_reqs s)(r \<mapsto> q)\<rparr>"

definition set_go :: "req \<Rightarrow> string \<Rightarrow> goroutine \<Rightarrow> req" where
  "set_go q k g = q\<lparr>rq_go := (rq_go q)(k := g)\<rparr>"

definition do_accept :: "(string \<times> acquire_entry) list \<Rightarrow> ('s, 'o) sys \<Rightarrow> ('s, 'o) sys option" where
  "do_accept es s =
     (if distinct (map fst es) then
        (let l = sy_locker s; (e, c) = accept (set (map fst es)) (lk_acquirer l) in
         Some (set_req e \<lparr>rq_entries = es, rq_phase = PWait, rq_go = (\<lambda>_. GNew)\<rparr>
                 (l\<lparr>lk_acquirer := c\<rparr>) s))
      else None)"

definition do_start :: "nat \<Rightarrow> req \<Rightarrow> ('s, 'o) sys \<Rightarrow> ('s, 'o) sys option" where
  "do_start r q s =
     (if rq_phase q = PWait \<and> started (lk_acquirer (sy_locker s)) r
      then Some (set_req r (q\<lparr>rq_phase := PLock\<rparr>) (sy_locker s) s) else None)"

definition do_cancel :: "nat \<Rightarrow> req \<Rightarrow> ('s, 'o) sys \<Rightarrow> ('s, 'o) sys option" where
  "do_cancel r q s =
     (if rq_phase q = PWait then Some (set_req r (q\<lparr>rq_phase := PFailed\<rparr>) (sy_locker s) s) else None)"

definition do_enter ::
  "'o once_ops \<Rightarrow> nat \<Rightarrow> req \<Rightarrow> string \<Rightarrow> ('s, 'o) sys \<Rightarrow> ('s, 'o) sys option" where
  "do_enter oo r q k s =
     (case rq_entry q k of
        None \<Rightarrow> None
      | Some p \<Rightarrow>
          if rq_phase q = PLock \<and> rq_go q k = GNew then
            (let (g, l) = lock_enter oo (sy_locker s) k p in Some (set_req r (set_go q k g) l s))
          else None)"

text \<open>
  A granted lock calls \<open>notifyLock\<close>, which is \<open>removeLockedKey\<close>, and sets the entry's \<open>cl\<close>. A lock that
  has to wait takes no step.
\<close>

definition do_try ::
  "'s sem_ops \<Rightarrow> 'o once_ops \<Rightarrow> nat \<Rightarrow> req \<Rightarrow> string \<Rightarrow> bool \<Rightarrow> ('s, 'o) sys \<Rightarrow> ('s, 'o) sys option" where
  "do_try so oo r q k d s =
     (case rq_entry q k of
        None \<Rightarrow> None
      | Some p \<Rightarrow>
          if rq_phase q = PLock \<and> (rq_go q k = GInit \<or> rq_go q k = GPlain) then
            (let init = (rq_go q k = GInit) in
             case lock_try so oo d (sy_locker s) k p init of
               Granted l \<Rightarrow>
                 Some (set_req r (set_go q k (GLocked (new_container_lock k p init)))
                         (l\<lparr>lk_acquirer := removeLockedKey r k (lk_acquirer l)\<rparr>) s)
             | CtxErr l \<Rightarrow> Some (set_req r (set_go q k GFailed) l s)
             | Waits _ \<Rightarrow> None)
          else None)"

definition do_wait_ok :: "nat \<Rightarrow> req \<Rightarrow> ('s, 'o) sys \<Rightarrow> ('s, 'o) sys option" where
  "do_wait_ok r q s =
     (if rq_phase q = PLock \<and> (\<forall>k \<in> keys_of q. is_locked (rq_go q k))
      then Some (set_req r (q\<lparr>rq_phase := PHeld\<rparr>) (sy_locker s) s) else None)"

definition unlocked_go :: "(string \<Rightarrow> goroutine) \<Rightarrow> string \<Rightarrow> goroutine" where
  "unlocked_go go k = (if is_locked (go k) then GUnlocked else go k)"

definition do_wait_err ::
  "'s sem_ops \<Rightarrow> nat \<Rightarrow> req \<Rightarrow> string list \<Rightarrow> ('s, 'o) sys \<Rightarrow> (go_panic + ('s, 'o) sys) option" where
  "do_wait_err so r q ns s =
     (if rq_phase q = PLock \<and> (\<forall>k \<in> keys_of q. is_locked (rq_go q k) \<or> rq_go q k = GFailed)
         \<and> (\<exists>k \<in> keys_of q. rq_go q k = GFailed) \<and> distinct ns \<and> set ns = keys_of q
      then
        (let l = sy_locker s; l1 = l\<lparr>lk_acquirer := remove r (lk_acquirer l)\<rparr> in
         Some (map_sum id
           (\<lambda>l2. set_req r (q\<lparr>rq_phase := PFailed, rq_go := unlocked_go (rq_go q)\<rparr>) l2 s)
           (unlock_all so l1 (rq_go q) ns)))
      else None)"

definition do_init_result ::
  "'s sem_ops \<Rightarrow> 'o once_ops \<Rightarrow> nat \<Rightarrow> req \<Rightarrow> string \<Rightarrow> bool \<Rightarrow> ('s, 'o) sys \<Rightarrow>
     (go_panic + ('s, 'o) sys) option" where
  "do_init_result so oo r q k ok s =
     (if rq_phase q = PHeld then
        (case rq_go q k of
           GLocked cl \<Rightarrow>
             Some (map_sum id (\<lambda>(l, cl'). set_req r (set_go q k (GLocked cl')) l s)
                     (SetInitResult so oo (sy_locker s) cl ok))
         | _ \<Rightarrow> None)
      else None)"

definition do_release ::
  "'s sem_ops \<Rightarrow> nat \<Rightarrow> req \<Rightarrow> string list \<Rightarrow> ('s, 'o) sys \<Rightarrow> (go_panic + ('s, 'o) sys) option" where
  "do_release so r q ns s =
     (if rq_phase q = PHeld \<and> distinct ns \<and> set ns = keys_of q then
        Some (map_sum id
          (\<lambda>l. set_req r (q\<lparr>rq_phase := PReleased, rq_go := unlocked_go (rq_go q)\<rparr>) l s)
          (unlock_all so (sy_locker s) (rq_go q) ns))
      else None)"

definition with_req ::
  "nat \<Rightarrow> ('s, 'o) sys \<Rightarrow> (req \<Rightarrow> (go_panic + ('s, 'o) sys) option) \<Rightarrow> (go_panic + ('s, 'o) sys) option" where
  "with_req r s f = (case sy_reqs s r of None \<Rightarrow> None | Some q \<Rightarrow> f q)"

fun step ::
  "'s sem_ops \<Rightarrow> 'o once_ops \<Rightarrow> label \<Rightarrow> ('s, 'o) sys \<Rightarrow> (go_panic + ('s, 'o) sys) option" where
  "step so oo (Accept es) s = map_option Inr (do_accept es s)"
| "step so oo (Start r) s = with_req r s (\<lambda>q. map_option Inr (do_start r q s))"
| "step so oo (Cancel r) s = with_req r s (\<lambda>q. map_option Inr (do_cancel r q s))"
| "step so oo (Enter r k) s = with_req r s (\<lambda>q. map_option Inr (do_enter oo r q k s))"
| "step so oo (Try r k d) s = with_req r s (\<lambda>q. map_option Inr (do_try so oo r q k d s))"
| "step so oo (WaitOk r) s = with_req r s (\<lambda>q. map_option Inr (do_wait_ok r q s))"
| "step so oo (WaitErr r ns) s = with_req r s (\<lambda>q. do_wait_err so r q ns s)"
| "step so oo (InitResult r k ok) s = with_req r s (\<lambda>q. do_init_result so oo r q k ok s)"
| "step so oo (ReleaseAll r ns) s = with_req r s (\<lambda>q. do_release so r q ns s)"

text \<open>Runs: \<open>None\<close> when a step is not enabled or panics.\<close>

fun run :: "'s sem_ops \<Rightarrow> 'o once_ops \<Rightarrow> label list \<Rightarrow> ('s, 'o) sys \<Rightarrow> ('s, 'o) sys option" where
  "run so oo [] s = Some s"
| "run so oo (a # as) s =
     (case step so oo a s of
        Some (Inr s') \<Rightarrow> run so oo as s'
      | _ \<Rightarrow> None)"

inductive sys_reach :: "'s sem_ops \<Rightarrow> 'o once_ops \<Rightarrow> ('s, 'o) sys \<Rightarrow> bool" for so oo where
  start: "sys_reach so oo (NewSys oo)"
| step: "sys_reach so oo s \<Longrightarrow> step so oo a s = Some (Inr s') \<Longrightarrow> sys_reach so oo s'"

end
