(* ===== verification/Locker_Invariant.thy ===== *)
theory Locker_Invariant
  imports Exclusion_Locker
begin

text \<open>
  The invariants of concurrent container-lock acquisitions. \<open>struct_inv\<close> relates the requests to the
  queue of the acquire controller; \<open>lock_ok\<close> relates what the requests hold to the semaphores. Both
  are kept by every step; no step ever panics; and a request is never blocked by a request that is
  behind it in the queue, which is what makes the system free of deadlock.
\<close>

section \<open>Holders of the container locks\<close>

text \<open>What a goroutine holds: nothing, a shared lock (\<open>Some False\<close>) or an exclusive one.\<close>

definition mode :: "goroutine \<Rightarrow> bool option" where
  "mode g = (case g of GLocked cl \<Rightarrow> Some (cl_exclusive cl \<or> cl_downgraded cl = 0) | _ \<Rightarrow> None)"

definition hold :: "('s, 'o) sys \<Rightarrow> nat \<Rightarrow> string \<Rightarrow> bool option" where
  "hold s r key = (case sy_reqs s r of None \<Rightarrow> None | Some q \<Rightarrow> mode (rq_go q key))"

definition shared_by :: "(nat \<Rightarrow> string \<Rightarrow> bool option) \<Rightarrow> string \<Rightarrow> nat set" where
  "shared_by H key = {i. H i key = Some False}"

definition excl_by :: "(nat \<Rightarrow> string \<Rightarrow> bool option) \<Rightarrow> string \<Rightarrow> nat set" where
  "excl_by H key = {i. H i key = Some True}"

lemma shared_by_upd:
  "shared_by (H(i := (H i)(key := m))) =
     (shared_by H)(key := (if m = Some False then insert i (shared_by H key) else shared_by H key - {i}))"
  by (auto simp: shared_by_def fun_eq_iff)

lemma excl_by_upd:
  "excl_by (H(i := (H i)(key := m))) =
     (excl_by H)(key := (if m = Some True then insert i (excl_by H key) else excl_by H key - {i}))"
  by (auto simp: excl_by_def fun_eq_iff)

lemmas holders_upd = shared_by_upd excl_by_upd

lemma nobody_holds: "shared_by H key = {} \<Longrightarrow> excl_by H key = {} \<Longrightarrow> H j key = None"
  by (cases "H j key"; cases "the (H j key)") (auto simp: shared_by_def excl_by_def)

context rw_keyed_lock
begin

lemma held_exclusive:
  assumes "holds k (shared_by H) (excl_by H)" and "H i key = Some True" and "H j key \<noteq> None"
  shows "j = i"
proof -
  have "i \<in> excl_by H key" using assms(2) by (simp add: excl_by_def)
  moreover have "j \<in> shared_by H key \<union> excl_by H key"
    using assms(3) by (cases "H j key") (auto simp: shared_by_def excl_by_def)
  ultimately show ?thesis using exclusive_excludes [OF assms(1)] by blast
qed

lemma held_lock:
  assumes "holds k (shared_by H) (excl_by H)" and "lock d k key = Granted k'" and "H i key = None"
  shows "H j key = None"
    and "holds k' (shared_by (H(i := (H i)(key := Some True)))) (excl_by (H(i := (H i)(key := Some True))))"
proof -
  note g = lock_granted [OF assms(1,2), of i]
  show "H j key = None" using g nobody_holds [of H key] by blast
  have "shared_by (H(i := (H i)(key := Some True))) = shared_by H"
    using g by (auto simp: fun_eq_iff holders_upd)
  then show "holds k' (shared_by (H(i := (H i)(key := Some True)))) (excl_by (H(i := (H i)(key := Some True))))"
    using g by (simp add: holders_upd)
qed

lemma held_rlock:
  assumes "holds k (shared_by H) (excl_by H)" and "rlock d k key = Granted k'" and "H i key = None"
  shows "holds k' (shared_by (H(i := (H i)(key := Some False)))) (excl_by (H(i := (H i)(key := Some False))))"
proof -
  have "i \<notin> shared_by H key" using assms(3) by (simp add: shared_by_def)
  note g = rlock_granted [OF assms(1,2) this]
  have "excl_by (H(i := (H i)(key := Some False))) = excl_by H"
    using g by (auto simp: fun_eq_iff holders_upd)
  then show ?thesis using g by (simp add: holders_upd)
qed

lemma held_unlock:
  assumes h: "holds k (shared_by H) (excl_by H)" and "H i key = Some True"
  shows "\<exists>k'. unlock k key = Inr k' \<and>
    holds k' (shared_by (H(i := (H i)(key := None)))) (excl_by (H(i := (H i)(key := None))))"
proof -
  have i: "i \<in> excl_by H key" using assms(2) by (simp add: excl_by_def)
  note e = holds_exclusive [OF h i]
  have "shared_by (H(i := (H i)(key := None))) = shared_by H"
    "excl_by (H(i := (H i)(key := None))) = (excl_by H)(key := {})"
    using e by (auto simp: fun_eq_iff holders_upd)
  then show ?thesis using unlock_held [OF h i] by simp
qed

lemma held_runlock:
  assumes h: "holds k (shared_by H) (excl_by H)" and "H i key = Some False"
  shows "\<exists>k'. runlock k key = Inr k' \<and>
    holds k' (shared_by (H(i := (H i)(key := None)))) (excl_by (H(i := (H i)(key := None))))"
proof -
  have i: "i \<in> shared_by H key" using assms(2) by (simp add: shared_by_def)
  then have "excl_by H key = {}" using holds_exclusive [OF h] by blast
  then have "excl_by (H(i := (H i)(key := None))) = excl_by H"
    "shared_by (H(i := (H i)(key := None))) = (shared_by H)(key := shared_by H key - {i})"
    by (auto simp: fun_eq_iff holders_upd)
  then show ?thesis using runlock_held [OF h i] by simp
qed

lemma held_downgrade:
  assumes h: "holds k (shared_by H) (excl_by H)" and "H i key = Some True"
  shows "\<exists>k'. downgrade k key = Inr k' \<and>
    holds k' (shared_by (H(i := (H i)(key := Some False)))) (excl_by (H(i := (H i)(key := Some False))))"
proof -
  have i: "i \<in> excl_by H key" using assms(2) by (simp add: excl_by_def)
  note e = holds_exclusive [OF h i]
  have "shared_by (H(i := (H i)(key := Some False))) = (shared_by H)(key := {i})"
    "excl_by (H(i := (H i)(key := Some False))) = (excl_by H)(key := {})"
    using e by (auto simp: fun_eq_iff holders_upd)
  then show ?thesis using downgrade_held [OF h i] by simp
qed

end

section \<open>Requests and the queue\<close>

abbreviation ctl :: "('s, 'o) sys \<Rightarrow> controller" where
  "ctl s \<equiv> lk_acquirer (sy_locker s)"

abbreviation use_lock :: "('s, 'o) sys \<Rightarrow> 's keyed_lock" where
  "use_lock s \<equiv> lk_containerUse (sy_locker s)"

definition locked_keys :: "req \<Rightarrow> string set" where
  "locked_keys q = {k. is_locked (rq_go q k)}"

text \<open>
  A request is consistent with the controller: while it is queued the controller knows exactly the
  keys it has not locked yet; it stays queued until all keys are locked; and its phase fits the
  state of its goroutines.
\<close>

definition req_shape :: "req \<Rightarrow> bool" where
  "req_shape q \<longleftrightarrow>
     distinct (map fst (rq_entries q)) \<and>
     (\<forall>k. k \<notin> keys_of q \<longrightarrow> rq_go q k = GNew) \<and>
     (\<forall>k cl. rq_go q k = GLocked cl \<longrightarrow> cl_name cl = k) \<and>
     (rq_phase q = PWait \<longrightarrow> (\<forall>k. rq_go q k = GNew)) \<and>
     (rq_phase q = PHeld \<longrightarrow> keys_of q \<subseteq> locked_keys q) \<and>
     (rq_phase q \<in> {PReleased, PFailed} \<longrightarrow> locked_keys q = {}) \<and>
     (rq_phase q = PLock \<longrightarrow> (\<forall>k. rq_go q k \<noteq> GUnlocked)) \<and>
     (rq_phase q \<noteq> PLock \<longrightarrow> (\<forall>k. rq_go q k \<noteq> GInit \<and> rq_go q k \<noteq> GPlain))"

definition req_queued :: "controller \<Rightarrow> nat \<Rightarrow> req \<Rightarrow> bool" where
  "req_queued c r q \<longleftrightarrow>
     (rq_phase q = PLock \<and> r \<in> set (ac_queue c) \<longrightarrow> started c r) \<and>
     (r \<in> set (ac_queue c) \<longrightarrow>
        wants c r = keys_of q - locked_keys q \<and> (keys_of q = {} \<or> \<not> keys_of q \<subseteq> locked_keys q)) \<and>
     (rq_phase q = PLock \<and> \<not> keys_of q \<subseteq> locked_keys q \<longrightarrow> r \<in> set (ac_queue c)) \<and>
     (rq_phase q = PWait \<longrightarrow> r \<in> set (ac_queue c)) \<and>
     (rq_phase q = PReleased \<and> r \<in> set (ac_queue c) \<longrightarrow> keys_of q = {})"

definition req_ok :: "controller \<Rightarrow> nat \<Rightarrow> req \<Rightarrow> bool" where
  "req_ok c r q \<longleftrightarrow> req_shape q \<and> req_queued c r q"

text \<open>Nobody waits for a key that a request behind it in the queue has already locked.\<close>

definition order_ok :: "('s, 'o) sys \<Rightarrow> bool" where
  "order_ok s \<longleftrightarrow>
     (\<forall>h q. h \<in> set (ac_queue (ctl s)) \<longrightarrow> sy_reqs s h = Some q \<longrightarrow>
        (\<forall>e \<in> ahead (ac_queue (ctl s)) h. wants (ctl s) e \<inter> locked_keys q = {}))"

definition struct_inv :: "('s, 'o) sys \<Rightarrow> bool" where
  "struct_inv s \<longleftrightarrow>
     ctl_inv (ctl s) \<and> (\<forall>r. sy_reqs s r \<noteq> None \<longleftrightarrow> r < ac_next (ctl s)) \<and>
     (\<forall>r q. sy_reqs s r = Some q \<longrightarrow> req_ok (ctl s) r q) \<and> order_ok s"

lemma is_locked_simps [simp]:
  "is_locked (GLocked cl)" "\<not> is_locked GNew" "\<not> is_locked GInit" "\<not> is_locked GPlain"
  "\<not> is_locked GFailed" "\<not> is_locked GUnlocked"
  by (simp_all add: is_locked_def)

lemma is_lockedE: "is_locked g \<Longrightarrow> \<exists>cl. g = GLocked cl"
  by (cases g) auto

lemma set_req_simps [simp]:
  "sy_locker (set_req r q l s) = l" "sy_reqs (set_req r q l s) = (sy_reqs s)(r \<mapsto> q)"
  by (simp_all add: set_req_def)

lemma set_go_simps [simp]:
  "rq_entries (set_go q k g) = rq_entries q" "rq_phase (set_go q k g) = rq_phase q"
  "rq_go (set_go q k g) = (rq_go q)(k := g)"
  by (simp_all add: set_go_def)

lemma locked_keys_simps [simp]:
  "locked_keys (q\<lparr>rq_phase := ph\<rparr>) = locked_keys q"
  "locked_keys (set_go q k g) = (if is_locked g then insert k (locked_keys q) else locked_keys q - {k})"
  by (auto simp: locked_keys_def)

lemma locked_keys_unlocked [simp]: "locked_keys (q\<lparr>rq_phase := ph, rq_go := unlocked_go go\<rparr>) = {}"
  by (auto simp: locked_keys_def unlocked_go_def)

lemma struct_invD:
  assumes "struct_inv s" and "sy_reqs s r = Some q"
  shows "ctl_inv (ctl s)" and "req_ok (ctl s) r q" and "r < ac_next (ctl s)" and "order_ok s"
  using assms unfolding struct_inv_def by blast+

text \<open>A step that leaves the controller alone and locks nothing new.\<close>

lemma struct_inv_set_req:
  assumes inv: "struct_inv s" and q: "sy_reqs s r = Some q" and ok: "req_ok (ctl s) r q'"
    and sub: "locked_keys q' \<subseteq> locked_keys q" and l: "lk_acquirer l = ctl s"
  shows "struct_inv (set_req r q' l s)"
proof -
  have "order_ok (set_req r q' l s)"
    unfolding order_ok_def
  proof (intro allI impI ballI)
    fix h qh e
    assume h: "h \<in> set (ac_queue (ctl (set_req r q' l s)))"
      and qh: "sy_reqs (set_req r q' l s) h = Some qh"
      and e: "e \<in> ahead (ac_queue (ctl (set_req r q' l s))) h"
    obtain q0 where q0: "sy_reqs s h = Some q0" "locked_keys qh \<subseteq> locked_keys q0"
      using qh q sub by (cases "h = r") auto
    have "wants (ctl s) e \<inter> locked_keys q0 = {}"
      using struct_invD(4) [OF inv q] h e q0(1) l by (auto simp: order_ok_def)
    then show "wants (ctl (set_req r q' l s)) e \<inter> locked_keys qh = {}"
      using q0(2) l by auto
  qed
  then show ?thesis
    using inv ok l q unfolding struct_inv_def by auto
qed

section \<open>Steps that change the controller\<close>

lemma req_ok_other:
  assumes "req_ok c x q" and "x \<in> set (ac_queue c') \<longleftrightarrow> x \<in> set (ac_queue c)"
    and "wants c' x = wants c x" and "started c x \<Longrightarrow> started c' x"
  shows "req_ok c' x q"
  using assms(1,4) unfolding req_ok_def req_queued_def assms(2) assms(3) by blast

lemma struct_inv_accept:
  assumes inv: "struct_inv s" and st: "do_accept es s = Some s'"
  shows "struct_inv s'"
proof -
  let ?c = "ctl s" and ?K = "set (map fst es)"
  let ?c' = "snd (accept ?K ?c)" and ?e = "ac_next ?c"
  define q0 where "q0 = \<lparr>rq_entries = es, rq_phase = PWait, rq_go = (\<lambda>_. GNew)\<rparr>"
  have es: "distinct (map fst es)" and s': "s' = set_req ?e q0 ((sy_locker s)\<lparr>lk_acquirer := ?c'\<rparr>) s"
    using st by (auto simp: do_accept_def Let_def q0_def case_prod_beta adm.enter_ticket split: if_splits)
  have ci: "ctl_inv ?c" using inv by (simp add: struct_inv_def)
  have new: "?e \<notin> set (ac_queue ?c)" using adm.line_ticket [OF ci] by blast
  note [simp] = adm.enter_line adm.enter_next
  have want: "wants ?c' x = (if x = ?e then ?K else wants ?c x)" for x
    using adm.enter_want [of ?K ?c] by (simp add: fun_eq_iff)
  have "req_ok ?c' ?e q0"
    using es want by (auto simp: req_ok_def req_shape_def req_queued_def q0_def locked_keys_def keys_of_def)
  moreover have "req_ok ?c' x q" if "sy_reqs s x = Some q" for x q
  proof -
    have x: "x < ?e" using struct_invD [OF inv that] by simp
    show ?thesis
      by (rule req_ok_other [OF struct_invD(2) [OF inv that]])
        (use x want adm.enter_admitted in auto)
  qed
  moreover have "order_ok s'"
    unfolding order_ok_def
  proof (intro allI impI ballI)
    fix h q e
    assume h: "h \<in> set (ac_queue (ctl s'))" and q: "sy_reqs s' h = Some q"
      and e: "e \<in> ahead (ac_queue (ctl s')) h"
    show "wants (ctl s') e \<inter> locked_keys q = {}"
    proof (cases "h = ?e")
      case True
      then show ?thesis using q by (auto simp: s' q0_def locked_keys_def)
    next
      case False
      then have hq: "h \<in> set (ac_queue ?c)" and qq: "sy_reqs s h = Some q" using h q by (auto simp: s')
      have e': "e \<in> ahead (ac_queue ?c) h" using e hq by (simp add: s' ahead_snoc)
      then have "e \<noteq> ?e" using new ahead_subset by fastforce
      then show ?thesis
        using struct_invD(4) [OF inv qq] hq qq e' want by (auto simp: order_ok_def s')
    qed
  qed
  ultimately show ?thesis
    using inv ci adm.enter_inv [OF ci, of ?K] by (auto simp: struct_inv_def s' less_Suc_eq)
qed

text \<open>A request that leaves the queue for good.\<close>

lemma struct_inv_leave:
  assumes inv: "struct_inv s" and q: "sy_reqs s r = Some q"
    and ok: "req_ok (remove r (ctl s)) r q'" and l: "lk_acquirer l = remove r (ctl s)"
  shows "struct_inv (set_req r q' l s)"
proof -
  let ?c = "ctl s" and ?c' = "remove r (ctl s)"
  note ci = struct_invD(1) [OF inv q]
  note [simp] = adm.leave_line adm.leave_next
  have want: "wants ?c' x = wants ?c x" for x using adm.leave_want by (simp add: fun_eq_iff)
  have "req_ok ?c' x qx" if "sy_reqs s x = Some qx" "x \<noteq> r" for x qx
    by (rule req_ok_other [OF struct_invD(2) [OF inv that(1)]])
      (use that(2) want adm.leave_admitted in auto)
  moreover have "order_ok (set_req r q' l s)"
    unfolding order_ok_def
  proof (intro allI impI ballI)
    fix h qh e
    assume h: "h \<in> set (ac_queue (ctl (set_req r q' l s)))" and qh: "sy_reqs (set_req r q' l s) h = Some qh"
      and e: "e \<in> ahead (ac_queue (ctl (set_req r q' l s))) h"
    have hr: "h \<noteq> r" "h \<in> set (ac_queue ?c)" using h l by auto
    have "e \<in> ahead (ac_queue ?c) h"
      using e ahead_filter [OF hr(1)] l by (simp add: list_remove_def)
    then show "wants (ctl (set_req r q' l s)) e \<inter> locked_keys qh = {}"
      using struct_invD(4) [OF inv q] qh hr l want by (auto simp: order_ok_def)
  qed
  ultimately show ?thesis
    using inv q ok l ctl_inv_remove [OF ci] by (auto simp: struct_inv_def)
qed

text \<open>A request that locks one more key and stays in the queue.\<close>

lemma struct_inv_drop_key:
  assumes inv: "struct_inv s" and q: "sy_reqs s r = Some q" and card: "1 < card (wants (ctl s) r)"
    and rq: "r \<in> set (ac_queue (ctl s))" and st: "started (ctl s) r" and k: "k \<in> wants (ctl s) r"
    and ok: "req_ok (removeLockedKey r k (ctl s)) r q'" and l: "lk_acquirer l = removeLockedKey r k (ctl s)"
    and lk: "locked_keys q' = insert k (locked_keys q)"
  shows "struct_inv (set_req r q' l s)"
proof -
  let ?c = "ctl s" and ?c' = "removeLockedKey r k (ctl s)"
  note ci = struct_invD(1) [OF inv q]
  have qu: "ac_queue ?c' = ac_queue ?c" and want: "wants ?c' x \<subseteq> wants ?c x"
    and other: "x \<noteq> r \<Longrightarrow> wants ?c' x = wants ?c x" for x
    using adm.drop_key_more [OF card, of k] by (auto simp: fun_eq_iff split: if_splits)
  have "req_ok ?c' x qx" if "sy_reqs s x = Some qx" "x \<noteq> r" for x qx
    by (rule req_ok_other [OF struct_invD(2) [OF inv that(1)]])
      (use that(2) qu other adm.drop_key_admitted in auto)
  moreover have "order_ok (set_req r q' l s)"
    unfolding order_ok_def
  proof (intro allI impI ballI)
    fix h qh e
    assume h: "h \<in> set (ac_queue (ctl (set_req r q' l s)))" and qh: "sy_reqs (set_req r q' l s) h = Some qh"
      and e: "e \<in> ahead (ac_queue (ctl (set_req r q' l s))) h"
    have e': "e \<in> ahead (ac_queue ?c) h" and h': "h \<in> set (ac_queue ?c)" using h e l qu by auto
    obtain q0 where q0: "sy_reqs s h = Some q0" and sub: "locked_keys qh \<subseteq> locked_keys q0 \<union> (if h = r then {k} else {})"
      using qh q lk by (cases "h = r") auto
    have "wants ?c e \<inter> locked_keys q0 = {}"
      using struct_invD(4) [OF inv q] h' q0 e' by (auto simp: order_ok_def)
    moreover have "k \<notin> wants ?c e" if "h = r"
      using adm.admitted_iff_ahead [OF ci rq] st k e' that by auto
    ultimately have "wants ?c e \<inter> locked_keys qh = {}" using sub by (auto split: if_splits)
    then show "wants (ctl (set_req r q' l s)) e \<inter> locked_keys qh = {}"
      using want [of e] l by auto
  qed
  ultimately show ?thesis
    using inv q ok l ctl_inv_removeLockedKey [OF ci] adm.drop_key_next [of r k ?c]
    by (auto simp: struct_inv_def)
qed

section \<open>Every step keeps the structure\<close>

lemma lock_enter_frame:
  assumes "lock_enter oo l k p = (g, l')"
  shows "lk_acquirer l' = lk_acquirer l" and "lk_containerUse l' = lk_containerUse l"
    and "g = GInit \<or> g = GPlain"
  using assms by (auto simp: lock_enter_def split: if_splits prod.splits)

lemma lock_try_frame: "lk_acquirer (outcome_state (lock_try so oo d l k p init)) = lk_acquirer l"
proof -
  have plain: "lk_acquirer (outcome_state (map_outcome (\<lambda>k. l\<lparr>lk_containerUse := k\<rparr>) x)) = lk_acquirer l" for x
    by (cases x) auto
  show ?thesis
    by (cases "Lock so d (lk_containerUse l) k") (simp_all add: lock_try_def plain)
qed

lemma Release_frame: "Release so l cl = Inr l' \<Longrightarrow> lk_acquirer l' = lk_acquirer l"
  by (auto simp: Release_def map_sum_def split: sum.splits if_splits)

lemma unlock_all_frame: "unlock_all so l go ns = Inr l' \<Longrightarrow> lk_acquirer l' = lk_acquirer l"
  by (induction so l go ns rule: unlock_all.induct)
    (auto simp: Release_frame split: goroutine.splits sum.splits)

lemma SetInitResult_frame:
  assumes "SetInitResult so oo l cl ok = Inr (l', cl')"
  shows "lk_acquirer l' = lk_acquirer l" and "cl_name cl' = cl_name cl"
  using assms by (auto simp: SetInitResult_def split: if_splits sum.splits)

lemma Some_eq_map_option: "Some y = map_option f x \<longleftrightarrow> (\<exists>z. x = Some z \<and> y = f z)"
  by (cases x) auto

lemma map_sum_Inr: "map_sum f g x = Inr y \<longleftrightarrow> (\<exists>z. x = Inr z \<and> y = g z)"
  by (cases x) auto

lemma keys_of_simps [simp]:
  "keys_of (q\<lparr>rq_phase := ph\<rparr>) = keys_of q" "keys_of (q\<lparr>rq_phase := ph, rq_go := go\<rparr>) = keys_of q"
  "keys_of (set_go q k g) = keys_of q"
  by (simp_all add: keys_of_def)

lemma rq_entry_keys: "rq_entry q k = Some p \<Longrightarrow> k \<in> keys_of q"
  by (auto simp: keys_of_def dest!: map_of_SomeD intro: image_eqI [where x = "(k, p)"])

lemma struct_inv_start:
  assumes "struct_inv s" and "sy_reqs s r = Some q" and "do_start r q s = Some s'"
  shows "struct_inv s'"
proof -
  have ph: "rq_phase q = PWait" "started (ctl s) r" and s': "s' = set_req r (q\<lparr>rq_phase := PLock\<rparr>) (sy_locker s) s"
    using assms(3) by (auto simp: do_start_def split: if_splits)
  note ok = struct_invD(2) [OF assms(1,2), unfolded req_ok_def]
  have "req_shape (q\<lparr>rq_phase := PLock\<rparr>)" using ok ph by (auto simp: req_shape_def)
  moreover have "req_queued (ctl s) r (q\<lparr>rq_phase := PLock\<rparr>)" using ok ph by (auto simp: req_queued_def)
  ultimately have "req_ok (ctl s) r (q\<lparr>rq_phase := PLock\<rparr>)" by (simp add: req_ok_def)
  then show ?thesis unfolding s' by (rule struct_inv_set_req [OF assms(1,2)]) auto
qed

lemma struct_inv_cancel:
  assumes "struct_inv s" and "sy_reqs s r = Some q" and "do_cancel r q s = Some s'"
  shows "struct_inv s'"
proof -
  have ph: "rq_phase q = PWait" and s': "s' = set_req r (q\<lparr>rq_phase := PFailed\<rparr>) (sy_locker s) s"
    using assms(3) by (auto simp: do_cancel_def split: if_splits)
  note ok = struct_invD(2) [OF assms(1,2), unfolded req_ok_def]
  have "locked_keys q = {}" using ok ph by (auto simp: req_shape_def locked_keys_def)
  then have "req_shape (q\<lparr>rq_phase := PFailed\<rparr>)" using ok ph by (auto simp: req_shape_def)
  moreover have "req_queued (ctl s) r (q\<lparr>rq_phase := PFailed\<rparr>)" using ok ph by (auto simp: req_queued_def)
  ultimately have "req_ok (ctl s) r (q\<lparr>rq_phase := PFailed\<rparr>)" by (simp add: req_ok_def)
  then show ?thesis unfolding s' by (rule struct_inv_set_req [OF assms(1,2)]) auto
qed

text \<open>A goroutine of a locking request that has no lock yet may move to another such state.\<close>

lemma req_ok_set_go:
  assumes "req_ok c r q" and "rq_phase q = PLock" and "\<not> is_locked (rq_go q k)"
    and "\<not> is_locked g" and "g \<noteq> GUnlocked" and "k \<in> keys_of q"
  shows "req_ok c r (set_go q k g)"
proof -
  have lk: "locked_keys q - {k} = locked_keys q" using assms(3) by (auto simp: locked_keys_def)
  have "req_shape (set_go q k g)" using assms lk by (auto simp: req_ok_def req_shape_def)
  moreover have "req_queued c r (set_go q k g)" using assms lk by (auto simp: req_ok_def req_queued_def)
  ultimately show ?thesis by (simp add: req_ok_def)
qed

lemma struct_inv_enter:
  assumes inv: "struct_inv s" "sy_reqs s r = Some q" and st: "do_enter oo r q k s = Some s'"
  shows "struct_inv s'"
proof -
  obtain p g l where p: "rq_entry q k = Some p" "rq_phase q = PLock" "rq_go q k = GNew"
    and gl: "lock_enter oo (sy_locker s) k p = (g, l)" and s': "s' = set_req r (set_go q k g) l s"
    using st by (auto simp: do_enter_def split: option.splits if_splits prod.splits)
  note f = lock_enter_frame [OF gl]
  have "req_ok (ctl s) r (set_go q k g)"
    using struct_invD(2) [OF inv] p f(3) rq_entry_keys by (intro req_ok_set_go) auto
  then show ?thesis
    unfolding s' using f by (intro struct_inv_set_req [OF inv]) auto
qed

lemma do_try_cases:
  assumes "do_try so oo r q k d s = Some s'"
  obtains (granted) p l where "rq_entry q k = Some p" "rq_phase q = PLock"
      "rq_go q k = GInit \<or> rq_go q k = GPlain"
      "lock_try so oo d (sy_locker s) k p (rq_go q k = GInit) = Granted l"
      "s' = set_req r (set_go q k (GLocked (new_container_lock k p (rq_go q k = GInit))))
              (l\<lparr>lk_acquirer := removeLockedKey r k (lk_acquirer l)\<rparr>) s"
  | (failed) p l where "rq_entry q k = Some p" "rq_phase q = PLock"
      "rq_go q k = GInit \<or> rq_go q k = GPlain"
      "lock_try so oo d (sy_locker s) k p (rq_go q k = GInit) = CtxErr l"
      "s' = set_req r (set_go q k GFailed) l s"
  using assms
  by (auto simp: do_try_def Let_def split: option.splits if_splits outcome.splits)

lemma struct_inv_try:
  assumes inv: "struct_inv s" "sy_reqs s r = Some q" and st: "do_try so oo r q k d s = Some s'"
  shows "struct_inv s'"
  using st
proof (cases rule: do_try_cases)
  case (failed p l)
  have l: "lk_acquirer l = ctl s"
    using lock_try_frame [of so oo d "sy_locker s" k p "rq_go q k = GInit"] failed by simp
  have "req_ok (ctl s) r (set_go q k GFailed)"
    using struct_invD(2) [OF inv] failed rq_entry_keys by (intro req_ok_set_go) auto
  then show ?thesis
    unfolding failed(5) using l by (intro struct_inv_set_req [OF inv]) auto
next
  case (granted p l)
  let ?q' = "set_go q k (GLocked (new_container_lock k p (rq_go q k = GInit)))"
  have l: "lk_acquirer l = ctl s"
    using lock_try_frame [of so oo d "sy_locker s" k p "rq_go q k = GInit"] granted by simp
  note ok = struct_invD(2) [OF inv]
  have k: "k \<in> keys_of q" "k \<notin> locked_keys q"
    using rq_entry_keys [OF granted(1)] granted(3) by (auto simp: locked_keys_def)
  then have rq: "r \<in> set (ac_queue (ctl s))" and w: "wants (ctl s) r = keys_of q - locked_keys q"
    and sr: "started (ctl s) r"
    using ok granted(2) by (auto simp: req_ok_def req_queued_def)
  have "cl_name (new_container_lock k p i) = k" for i by (simp add: new_container_lock_def)
  then have shape: "req_shape ?q'" using ok k granted(2) by (auto simp: req_ok_def req_shape_def)
  show ?thesis
  proof (cases "1 < card (wants (ctl s) r)")
    case True
    have w': "wants (removeLockedKey r k (ctl s)) r = wants (ctl s) r - {k}"
      and q': "ac_queue (removeLockedKey r k (ctl s)) = ac_queue (ctl s)"
      using adm.drop_key_more [OF True, of k] by (auto simp: fun_eq_iff)
    have ne: "wants (ctl s) r - {k} \<noteq> {}" using True by (rule card_gt_one_remove)
    have "req_queued (removeLockedKey r k (ctl s)) r ?q'"
      using granted(2) w w' q' ne rq adm.drop_key_admitted [OF sr] by (auto simp: req_queued_def)
    then have "req_ok (removeLockedKey r k (ctl s)) r ?q'" using shape by (simp add: req_ok_def)
    then show ?thesis
      unfolding granted(5) using True k rq sr w l by (intro struct_inv_drop_key [OF inv True rq sr]) auto
  next
    case False
    then have rm: "removeLockedKey r k (ctl s) = remove r (ctl s)"
      by (intro adm.drop_key_last) simp
    have "finite (wants (ctl s) r)" using struct_invD(1) [OF inv] by (simp add: ctl_inv_def)
    then have "wants (ctl s) r = {k}" using False k w by (intro card_le_one_singleton) auto
    then have "keys_of q \<subseteq> insert k (locked_keys q)" using w by blast
    then have "req_queued (remove r (ctl s)) r ?q'"
      using granted(2) by (auto simp: req_queued_def adm.leave_line)
    then have "req_ok (remove r (ctl s)) r ?q'" using shape by (simp add: req_ok_def)
    then show ?thesis
      unfolding granted(5) using l rm by (intro struct_inv_leave [OF inv]) auto
  qed
qed

lemma struct_inv_wait_ok:
  assumes inv: "struct_inv s" "sy_reqs s r = Some q" and st: "do_wait_ok r q s = Some s'"
  shows "struct_inv s'"
proof -
  have ph: "rq_phase q = PLock" "keys_of q \<subseteq> locked_keys q"
    and s': "s' = set_req r (q\<lparr>rq_phase := PHeld\<rparr>) (sy_locker s) s"
    using st by (auto simp: do_wait_ok_def locked_keys_def split: if_splits)
  note ok = struct_invD(2) [OF inv, unfolded req_ok_def]
  have "rq_go q k \<noteq> GInit \<and> rq_go q k \<noteq> GPlain" for k
    using ok ph(2) by (cases "k \<in> keys_of q") (auto simp: req_shape_def locked_keys_def)
  then have "req_shape (q\<lparr>rq_phase := PHeld\<rparr>)" using ok ph by (auto simp: req_shape_def)
  moreover have "req_queued (ctl s) r (q\<lparr>rq_phase := PHeld\<rparr>)" using ok ph by (auto simp: req_queued_def)
  ultimately have "req_ok (ctl s) r (q\<lparr>rq_phase := PHeld\<rparr>)" by (simp add: req_ok_def)
  then show ?thesis unfolding s' by (rule struct_inv_set_req [OF inv]) auto
qed

lemma req_shape_unlocked:
  assumes "req_shape q" and "ph = PReleased \<or> ph = PFailed"
    and "\<And>k. k \<in> keys_of q \<Longrightarrow> is_locked (rq_go q k) \<or> rq_go q k = GFailed"
  shows "req_shape (q\<lparr>rq_phase := ph, rq_go := unlocked_go (rq_go q)\<rparr>)"
proof -
  have out: "k \<notin> keys_of q \<Longrightarrow> unlocked_go (rq_go q) k = GNew" for k
    using assms(1) by (simp add: req_shape_def unlocked_go_def)
  have "unlocked_go (rq_go q) k = GNew \<or> unlocked_go (rq_go q) k = GUnlocked \<or> unlocked_go (rq_go q) k = GFailed" for k
    using out [of k] assms(3) [of k] by (cases "k \<in> keys_of q") (auto simp: unlocked_go_def)
  then have no: "unlocked_go (rq_go q) k \<noteq> GLocked cl" "unlocked_go (rq_go q) k \<noteq> GInit"
    "unlocked_go (rq_go q) k \<noteq> GPlain" for k cl
    by (metis goroutine.distinct)+
  have "distinct (map fst (rq_entries q))" using assms(1) by (simp add: req_shape_def)
  with out no assms(2) show ?thesis by (elim disjE) (simp_all add: req_shape_def)
qed

lemma struct_inv_wait_err:
  assumes inv: "struct_inv s" "sy_reqs s r = Some q" and st: "do_wait_err so r q ns s = Some (Inr s')"
  shows "struct_inv s'"
proof -
  let ?l1 = "(sy_locker s)\<lparr>lk_acquirer := remove r (ctl s)\<rparr>"
  let ?q' = "q\<lparr>rq_phase := PFailed, rq_go := unlocked_go (rq_go q)\<rparr>"
  obtain l where u: "unlock_all so ?l1 (rq_go q) ns = Inr l" and s': "s' = set_req r ?q' l s"
    and fin: "\<And>k. k \<in> keys_of q \<Longrightarrow> is_locked (rq_go q k) \<or> rq_go q k = GFailed"
    using st by (auto simp: do_wait_err_def Let_def map_sum_Inr split: if_splits)
  have l: "lk_acquirer l = remove r (ctl s)" using unlock_all_frame [OF u] by simp
  have "req_shape ?q'"
    using struct_invD(2) [OF inv] fin by (intro req_shape_unlocked) (auto simp: req_ok_def)
  then have "req_ok (remove r (ctl s)) r ?q'"
    by (auto simp: req_ok_def req_queued_def adm.leave_line)
  then show ?thesis unfolding s' using l by (intro struct_inv_leave [OF inv]) auto
qed

lemma do_init_result_Inr:
  assumes "do_init_result so oo r q k ok s = Some (Inr s')"
  obtains cl l cl' where "rq_phase q = PHeld" and "rq_go q k = GLocked cl"
    and "SetInitResult so oo (sy_locker s) cl ok = Inr (l, cl')"
    and "s' = set_req r (set_go q k (GLocked cl')) l s"
  using assms by (auto simp: do_init_result_def map_sum_Inr split: if_splits goroutine.splits)

lemma struct_inv_init_result:
  assumes inv: "struct_inv s" "sy_reqs s r = Some q" and st: "do_init_result so oo r q k ok s = Some (Inr s')"
  shows "struct_inv s'"
proof -
  obtain cl l cl' where ph: "rq_phase q = PHeld" and cl: "rq_go q k = GLocked cl"
    and si: "SetInitResult so oo (sy_locker s) cl ok = Inr (l, cl')"
    and s': "s' = set_req r (set_go q k (GLocked cl')) l s"
    using st by (rule do_init_result_Inr)
  note f = SetInitResult_frame [OF si]
  have lk: "insert k (locked_keys q) = locked_keys q" using cl by (auto simp: locked_keys_def)
  note ok = struct_invD(2) [OF inv, unfolded req_ok_def]
  have kk: "k \<in> keys_of q" and nm: "cl_name cl' = k" using ok cl f(2) by (auto simp: req_shape_def)
  have "req_shape (set_go q k (GLocked cl'))" using ok ph lk nm kk by (auto simp: req_shape_def)
  moreover have "req_queued (ctl s) r (set_go q k (GLocked cl'))" using ok ph lk by (auto simp: req_queued_def)
  ultimately have "req_ok (ctl s) r (set_go q k (GLocked cl'))" by (simp add: req_ok_def)
  then show ?thesis unfolding s' using f lk by (intro struct_inv_set_req [OF inv]) auto
qed

lemma do_release_Inr:
  assumes "do_release so r q ns s = Some (Inr s')"
  obtains l where "rq_phase q = PHeld" and "unlock_all so (sy_locker s) (rq_go q) ns = Inr l"
    and "s' = set_req r (q\<lparr>rq_phase := PReleased, rq_go := unlocked_go (rq_go q)\<rparr>) l s"
  using assms by (auto simp: do_release_def map_sum_Inr split: if_splits)

lemma struct_inv_release:
  assumes inv: "struct_inv s" "sy_reqs s r = Some q" and st: "do_release so r q ns s = Some (Inr s')"
  shows "struct_inv s'"
proof -
  let ?q' = "q\<lparr>rq_phase := PReleased, rq_go := unlocked_go (rq_go q)\<rparr>"
  obtain l where ph: "rq_phase q = PHeld" and u: "unlock_all so (sy_locker s) (rq_go q) ns = Inr l"
    and s': "s' = set_req r ?q' l s"
    using st by (rule do_release_Inr)
  have l: "lk_acquirer l = ctl s" using unlock_all_frame [OF u] by simp
  note ok = struct_invD(2) [OF inv, unfolded req_ok_def]
  have "req_shape ?q'"
    using ok ph by (intro req_shape_unlocked) (auto simp: req_shape_def locked_keys_def)
  moreover have "req_queued (ctl s) r ?q'" using ok ph by (auto simp: req_queued_def req_shape_def)
  ultimately have "req_ok (ctl s) r ?q'" by (simp add: req_ok_def)
  then show ?thesis unfolding s' using l by (intro struct_inv_set_req [OF inv]) auto
qed

lemma struct_inv_step:
  assumes inv: "struct_inv s" and st: "step so oo a s = Some (Inr s')"
  shows "struct_inv s'"
  using st
  by (cases a)
    (auto simp: with_req_def split: option.splits
      dest: struct_inv_accept [OF inv] struct_inv_start [OF inv] struct_inv_cancel [OF inv]
        struct_inv_enter [OF inv] struct_inv_try [OF inv] struct_inv_wait_ok [OF inv]
        struct_inv_wait_err [OF inv] struct_inv_init_result [OF inv] struct_inv_release [OF inv])

lemma struct_inv_new: "struct_inv (NewSys oo)"
  by (simp add: struct_inv_def NewSys_def NewLocker_def ctl_inv_NewAcquirer order_ok_def)
    (simp add: NewAcquirer_def)

lemma sys_reach_struct_inv: "sys_reach so oo s \<Longrightarrow> struct_inv s"
  by (induction rule: sys_reach.induct) (auto simp: struct_inv_new dest: struct_inv_step)

section \<open>Every step keeps the locks\<close>

definition lock_ok :: "('s \<Rightarrow> int) \<Rightarrow> ('s \<Rightarrow> int) \<Rightarrow> ('s, 'o) sys \<Rightarrow> bool" where
  "lock_ok cur size_of s \<longleftrightarrow> kl_holds cur size_of (use_lock s) (shared_by (hold s)) (excl_by (hold s))"

lemma hold_set_req: "hold (set_req r q l s) = (hold s)(r := (\<lambda>k. mode (rq_go q k)))"
  by (auto simp: hold_def fun_eq_iff)

lemma hold_set_go:
  assumes "sy_reqs s r = Some q"
  shows "hold (set_req r (set_go q k g) l s) = (hold s)(r := (hold s r)(k := mode g))"
  using assms by (auto simp: hold_def fun_eq_iff)

lemma hold_same_go:
  assumes "sy_reqs s r = Some q" and "rq_go q' = rq_go q"
  shows "hold (set_req r q' l s) = hold s"
  using assms by (auto simp: hold_def fun_eq_iff)

lemma mode_simps [simp]:
  "mode GNew = None" "mode GInit = None" "mode GPlain = None" "mode GFailed = None" "mode GUnlocked = None"
  "mode (GLocked cl) = Some (cl_exclusive cl \<or> cl_downgraded cl = 0)"
  by (simp_all add: mode_def)

lemma mode_None: "mode g = None \<longleftrightarrow> \<not> is_locked g"
  by (cases g) auto

lemma mode_new_container_lock:
  "mode (GLocked (new_container_lock k p init)) = Some (init \<or> en_exclusive p)"
  by (auto simp: new_container_lock_def)

lemma lock_ok_same:
  assumes "lock_ok cur size_of s" and "hold s' = hold s" and "use_lock s' = use_lock s"
  shows "lock_ok cur size_of s'"
  using assms by (simp add: lock_ok_def)

context weighted_semaphore
begin

abbreviation held :: "'s keyed_lock \<Rightarrow> (nat \<Rightarrow> string \<Rightarrow> bool option) \<Rightarrow> bool" where
  "held k H \<equiv> kl_holds cur size_of k (shared_by H) (excl_by H)"

lemma Release_held:
  assumes "held (lk_containerUse l) H" and "H r (cl_name cl) = mode (GLocked cl)"
  shows "\<exists>l'. Release so l cl = Inr l' \<and> held (lk_containerUse l') (H(r := (H r)(cl_name cl := None)))"
proof (cases "cl_exclusive cl \<or> cl_downgraded cl = 0")
  case True
  then show ?thesis
    using kl.held_unlock [OF assms(1), of r "cl_name cl"] assms(2) by (auto simp: Release_def)
next
  case False
  then show ?thesis
    using kl.held_runlock [OF assms(1), of r "cl_name cl"] assms(2) by (auto simp: Release_def)
qed

lemma unlock_all_held:
  assumes "held (lk_containerUse l) H" and "distinct ns"
    and "\<And>n cl. go n = GLocked cl \<Longrightarrow> cl_name cl = n" and "\<And>n. n \<in> set ns \<Longrightarrow> H r n = mode (go n)"
  shows "\<exists>l'. unlock_all so l go ns = Inr l' \<and>
    held (lk_containerUse l') (H(r := (\<lambda>k. if k \<in> set ns then None else H r k)))"
  using assms(1,2,4)
proof (induction ns arbitrary: l H)
  case (Cons n ns)
  let ?H = "H(r := (H r)(n := None))"
  have eq: "H(r := (\<lambda>k. if k \<in> set (n # ns) then None else H r k)) =
      ?H(r := (\<lambda>k. if k \<in> set ns then None else ?H r k))"
    by (auto simp: fun_eq_iff)
  have "\<exists>l'. (case go n of GLocked cl \<Rightarrow> Release so l cl | _ \<Rightarrow> Inr l) = Inr l' \<and> held (lk_containerUse l') ?H"
  proof (cases "is_locked (go n)")
    case True
    then obtain cl where cl: "go n = GLocked cl" using is_lockedE by blast
    then show ?thesis
      using Release_held [OF Cons.prems(1), of r cl] assms(3) [OF cl] Cons.prems(3) [of n] by simp
  next
    case False
    then have "H r n = None" using Cons.prems(3) [of n] mode_None by simp
    then have "?H = H" by (auto simp: fun_eq_iff)
    then show ?thesis using False Cons.prems(1) by (cases "go n") auto
  qed
  then obtain l1 where l1: "(case go n of GLocked cl \<Rightarrow> Release so l cl | _ \<Rightarrow> Inr l) = Inr l1"
    and h1: "held (lk_containerUse l1) ?H" by blast
  have "unlock_all so l go (n # ns) = unlock_all so l1 go ns"
    using l1 by (auto split: goroutine.splits sum.splits)
  moreover have "\<exists>l'. unlock_all so l1 go ns = Inr l' \<and>
      held (lk_containerUse l') (?H(r := (\<lambda>k. if k \<in> set ns then None else ?H r k)))"
    using Cons.prems by (intro Cons.IH [OF h1]) auto
  ultimately show ?case by (simp only: eq)
qed simp

lemma lock_try_held:
  assumes h: "held (lk_containerUse l) H" and none: "H r k = None"
  shows "lock_try so oo d l k p init = Granted l' \<Longrightarrow>
      held (lk_containerUse l') (H(r := (H r)(k := Some (init \<or> en_exclusive p))))"
    and "lock_try so oo d l k p init = CtxErr l' \<Longrightarrow> held (lk_containerUse l') H"
proof -
  assume g: "lock_try so oo d l k p init = Granted l'"
  show "held (lk_containerUse l') (H(r := (H r)(k := Some (init \<or> en_exclusive p))))"
  proof (cases "init \<or> en_exclusive p")
    case True
    then have "Lock so d (lk_containerUse l) k = Granted (lk_containerUse l')"
      using g by (cases "Lock so d (lk_containerUse l) k") (auto simp: lock_try_def split: if_splits)
    then show ?thesis using kl.held_lock(2) [OF h _ none] True by simp
  next
    case False
    then have "RLock so d (lk_containerUse l) k = Granted (lk_containerUse l')"
      using g by (cases "RLock so d (lk_containerUse l) k") (auto simp: lock_try_def split: if_splits)
    then show ?thesis using kl.held_rlock [OF h _ none] False by simp
  qed
next
  assume g: "lock_try so oo d l k p init = CtxErr l'"
  then have "Lock so d (lk_containerUse l) k = CtxErr (lk_containerUse l') \<or>
      RLock so d (lk_containerUse l) k = CtxErr (lk_containerUse l')"
    by (cases "Lock so d (lk_containerUse l) k"; cases "RLock so d (lk_containerUse l) k")
      (auto simp: lock_try_def split: if_splits)
  then show "held (lk_containerUse l') H"
    using kl.lock_not_granted [OF h] kl.rlock_not_granted [OF h] by blast
qed

lemma SetInitResult_held:
  assumes h: "held (lk_containerUse l) H" and m: "H r (cl_name cl) = mode (GLocked cl)"
  shows "\<exists>l' cl'. SetInitResult so oo l cl ok = Inr (l', cl') \<and>
    held (lk_containerUse l') (H(r := (H r)(cl_name cl := mode (GLocked cl'))))"
proof (cases "cl_init cl \<and> ok \<and> \<not> cl_exclusive cl \<and> cl_downgraded cl = 0")
  case True
  then obtain k' where "Downgrade so (lk_containerUse l) (cl_name cl) = Inr k'"
    "held k' (H(r := (H r)(cl_name cl := Some False)))"
    using kl.held_downgrade [OF h, of r "cl_name cl"] m by auto
  then show ?thesis using True by (auto simp: SetInitResult_def)
next
  case False
  have "H(r := (H r)(cl_name cl := mode (GLocked cl))) = H" using m by (auto simp: fun_eq_iff)
  then show ?thesis using False h by (auto simp: SetInitResult_def)
qed

end

lemma hold_req: "sy_reqs s r = Some q \<Longrightarrow> hold s r k = mode (rq_go q k)"
  by (simp add: hold_def)

lemma hold_unlocked:
  assumes "req_ok c r q" and "sy_reqs s r = Some q" and "set ns = keys_of q"
  shows "hold (set_req r (q\<lparr>rq_phase := ph, rq_go := unlocked_go (rq_go q)\<rparr>) l s) =
    (hold s)(r := (\<lambda>k. if k \<in> set ns then None else hold s r k))"
proof -
  have "mode (unlocked_go (rq_go q) k) = None" for k by (simp add: mode_None unlocked_go_def)
  moreover have "hold s r k = None" if "k \<notin> set ns" for k
    using assms that by (simp add: req_ok_def req_shape_def hold_def)
  ultimately show ?thesis by (auto simp: hold_set_req fun_eq_iff)
qed

context weighted_semaphore
begin

abbreviation locks_ok :: "('s, 'o) sys \<Rightarrow> bool" where
  "locks_ok s \<equiv> lock_ok cur size_of s"

lemma lock_ok_accept:
  assumes "struct_inv s" and "locks_ok s" and "do_accept es s = Some s'"
  shows "locks_ok s'"
proof -
  have new: "sy_reqs s (ac_next (ctl s)) = None" using assms(1) by (auto simp: struct_inv_def)
  show ?thesis
    by (rule lock_ok_same [OF assms(2)])
      (use assms(3) new in \<open>auto simp: do_accept_def Let_def case_prod_beta adm.enter_ticket
          hold_set_req hold_def fun_eq_iff split: if_splits\<close>)
qed

lemma lock_ok_try:
  assumes inv: "struct_inv s" "sy_reqs s r = Some q" and h: "locks_ok s" and st: "do_try so oo r q k d s = Some s'"
  shows "locks_ok s'"
  using st
proof (cases rule: do_try_cases)
  case (granted p l)
  have none: "hold s r k = None" using granted(3) inv(2) by (auto simp: hold_def)
  have "held (lk_containerUse l) ((hold s)(r := (hold s r)(k := Some ((rq_go q k = GInit) \<or> en_exclusive p))))"
    by (rule lock_try_held(1) [OF h [unfolded lock_ok_def] none granted(4)])
  then show ?thesis
    unfolding granted(5) lock_ok_def hold_set_go [OF inv(2)] mode_new_container_lock by simp
next
  case (failed p l)
  have none: "hold s r k = None" using failed(3) inv(2) by (auto simp: hold_def)
  then have "(hold s)(r := (hold s r)(k := mode GFailed)) = hold s" by (auto simp: fun_eq_iff)
  then show ?thesis
    using lock_try_held(2) [OF h [unfolded lock_ok_def] none failed(4)]
    unfolding failed(5) lock_ok_def hold_set_go [OF inv(2)] by simp
qed

lemma lock_ok_enter:
  assumes inv: "sy_reqs s r = Some q" and h: "locks_ok s" and st: "do_enter oo r q k s = Some s'"
  shows "locks_ok s'"
proof -
  obtain p g l where p: "rq_go q k = GNew" and gl: "lock_enter oo (sy_locker s) k p = (g, l)"
    and s': "s' = set_req r (set_go q k g) l s"
    using st by (auto simp: do_enter_def split: option.splits if_splits prod.splits)
  note f = lock_enter_frame [OF gl]
  have "mode g = hold s r k" using f(3) p inv by (auto simp: hold_def)
  then have "(hold s)(r := (hold s r)(k := mode g)) = hold s" by (auto simp: fun_eq_iff)
  then show ?thesis
    unfolding s' using f(2) by (intro lock_ok_same [OF h]) (simp_all add: hold_set_go [OF inv])
qed

lemma unlock_request:
  assumes inv: "struct_inv s" "sy_reqs s r = Some q" and h: "locks_ok s"
    and l: "lk_containerUse l = use_lock s" and ns: "distinct ns" "set ns = keys_of q"
  shows "\<exists>l'. unlock_all so l (rq_go q) ns = Inr l' \<and>
    locks_ok (set_req r (q\<lparr>rq_phase := ph, rq_go := unlocked_go (rq_go q)\<rparr>) l' s)"
proof -
  note ok = struct_invD(2) [OF inv]
  have "\<exists>l'. unlock_all so l (rq_go q) ns = Inr l' \<and>
      held (lk_containerUse l') ((hold s)(r := (\<lambda>k. if k \<in> set ns then None else hold s r k)))"
    using h l ns ok
    by (intro unlock_all_held) (auto simp: lock_ok_def req_ok_def req_shape_def hold_req [OF inv(2)])
  then show ?thesis
    unfolding lock_ok_def using hold_unlocked [OF ok inv(2) ns(2)] by simp
qed

lemma lock_ok_init_result:
  assumes inv: "struct_inv s" "sy_reqs s r = Some q" and h: "locks_ok s"
    and st: "do_init_result so oo r q k ok s = Some x"
  shows "\<exists>s'. x = Inr s' \<and> locks_ok s'"
proof -
  obtain cl where cl: "rq_go q k = GLocked cl"
    and x: "x = map_sum id (\<lambda>(l, cl'). set_req r (set_go q k (GLocked cl')) l s)
      (SetInitResult so oo (sy_locker s) cl ok)"
    using st by (auto simp: do_init_result_def split: if_splits goroutine.splits)
  have nm: "cl_name cl = k" using struct_invD(2) [OF inv] cl by (simp add: req_ok_def req_shape_def)
  obtain l' cl' where "SetInitResult so oo (sy_locker s) cl ok = Inr (l', cl')"
    "held (lk_containerUse l') ((hold s)(r := (hold s r)(k := mode (GLocked cl'))))"
    using SetInitResult_held [of "sy_locker s" "hold s" r cl oo ok] h nm cl
    by (auto simp: lock_ok_def hold_req [OF inv(2)] simp del: mode_simps)
  then show ?thesis
    unfolding x by (simp add: lock_ok_def hold_set_go [OF inv(2)] del: mode_simps)
qed

text \<open>A step of a consistent system never panics and leaves a consistent system.\<close>

lemma lock_ok_step:
  assumes inv: "struct_inv s" and h: "locks_ok s" and st: "step so oo a s = Some x"
  shows "\<exists>s'. x = Inr s' \<and> locks_ok s'"
proof (cases a)
  case (WaitErr r ns)
  then obtain q where q: "sy_reqs s r = Some q" and d: "do_wait_err so r q ns s = Some x"
    using st by (auto simp: with_req_def split: option.splits)
  let ?l1 = "(sy_locker s)\<lparr>lk_acquirer := remove r (ctl s)\<rparr>"
  have ns: "distinct ns" "set ns = keys_of q" using d by (auto simp: do_wait_err_def split: if_splits)
  obtain l' where "unlock_all so ?l1 (rq_go q) ns = Inr l'"
    "locks_ok (set_req r (q\<lparr>rq_phase := PFailed, rq_go := unlocked_go (rq_go q)\<rparr>) l' s)"
    using unlock_request [OF inv q h _ ns, of ?l1 PFailed] by auto
  then show ?thesis using d by (auto simp: do_wait_err_def Let_def split: if_splits)
next
  case (ReleaseAll r ns)
  then obtain q where q: "sy_reqs s r = Some q" and d: "do_release so r q ns s = Some x"
    using st by (auto simp: with_req_def split: option.splits)
  have ns: "distinct ns" "set ns = keys_of q" using d by (auto simp: do_release_def split: if_splits)
  obtain l' where "unlock_all so (sy_locker s) (rq_go q) ns = Inr l'"
    "locks_ok (set_req r (q\<lparr>rq_phase := PReleased, rq_go := unlocked_go (rq_go q)\<rparr>) l' s)"
    using unlock_request [OF inv q h refl ns, of PReleased] by auto
  then show ?thesis using d by (auto simp: do_release_def split: if_splits)
next
  case (InitResult r k ok)
  then show ?thesis
    using st lock_ok_init_result [OF inv _ h] by (auto simp: with_req_def split: option.splits)
next
  case (Start r)
  then show ?thesis
    using st h by (auto simp: with_req_def do_start_def lock_ok_def hold_same_go split: option.splits if_splits)
next
  case (Cancel r)
  then show ?thesis
    using st h by (auto simp: with_req_def do_cancel_def lock_ok_def hold_same_go split: option.splits if_splits)
next
  case (WaitOk r)
  then show ?thesis
    using st h by (auto simp: with_req_def do_wait_ok_def lock_ok_def hold_same_go split: option.splits if_splits)
qed (use st lock_ok_accept [OF inv h] lock_ok_enter [OF _ h] lock_ok_try [OF inv _ h] in
    \<open>auto simp: with_req_def split: option.splits\<close>)

lemma locks_ok_new: "locks_ok (NewSys oo)"
proof -
  let ?s = "NewSys oo :: ('s, _) sys"
  have "shared_by (hold ?s) = (\<lambda>_. {})" "excl_by (hold ?s) = (\<lambda>_. {})"
    by (simp_all add: fun_eq_iff shared_by_def excl_by_def hold_def NewSys_def)
  then show ?thesis using kl.holds_init by (simp add: lock_ok_def NewSys_def NewLocker_def)
qed

lemma sys_reach_locks_ok: "sys_reach so oo s \<Longrightarrow> locks_ok s"
proof (induction rule: sys_reach.induct)
  case (step s a s')
  from lock_ok_step [OF sys_reach_struct_inv [OF step(1)] step(3) step(2)] show ?case by simp
qed (rule locks_ok_new)

end

end
