(* ===== verification/Locker_Properties.thy ===== *)
theory Locker_Properties
  imports Locker_Invariant
begin

text \<open>
  What concurrent users of one Locker can rely on: exclusion between holders, all-or-nothing
  acquisition, absence of panics and of deadlock; what a cancelled request does to the queue; and
  how often the initialisation of a container is handed out.
\<close>

section \<open>The once factory\<close>

text \<open>
  The documented behaviour of oncewait: \<open>fresh o name\<close> says that the next \<open>Get(name).Do(f)\<close> runs its
  function; a \<open>Do\<close> uses the name up and a \<open>Refresh\<close> makes it fresh again.
\<close>

locale once_factory =
  fixes oo :: "'o once_ops" and fresh :: "'o \<Rightarrow> string \<Rightarrow> bool"
  assumes fresh_new: "fresh (OnceNew oo) n"
    and do_runs: "fst (OnceDo oo x n) = fresh x n"
    and do_uses_up: "fresh (snd (OnceDo oo x n)) m \<longleftrightarrow> fresh x m \<and> m \<noteq> n"
    and refresh_fresh: "fresh (OnceRefresh oo x n) m \<longleftrightarrow> fresh x m \<or> m = n"

text \<open>A concrete factory: the list of the names that have been used up.\<close>

definition list_once :: "string list once_ops" where
  "list_once =
     \<lparr>OnceNew = [],
      OnceDo = (\<lambda>x n. if n \<in> set x then (False, x) else (True, n # x)),
      OnceRefresh = (\<lambda>x n. filter (\<lambda>m. m \<noteq> n) x)\<rparr>"

interpretation lonce: once_factory list_once "\<lambda>x n. n \<notin> set x"
  by unfold_locales (auto simp: list_once_def)

section \<open>Progress\<close>

text \<open>
  The steps that move an acquisition forward without help from outside: no new request, no
  cancellation, no release by a caller.
\<close>

fun forward :: "label \<Rightarrow> bool" where
  "forward (Start r) = True"
| "forward (Enter r k) = True"
| "forward (Try r k d) = (\<not> d)"
| "forward (WaitOk r) = True"
| "forward (WaitErr r ns) = True"
| "forward _ = False"

definition resolved :: "req \<Rightarrow> bool" where
  "resolved q \<longleftrightarrow> (\<forall>k \<in> keys_of q. is_locked (rq_go q k) \<or> rq_go q k = GFailed)"

lemma rq_entry_total: "k \<in> keys_of q \<Longrightarrow> \<exists>p. rq_entry q k = Some p"
  by (metis keys_of_def map_of_eq_None_iff option.exhaust list.set_map)

lemma entered_forward:
  assumes "sy_reqs s r = Some q" and "rq_phase q = PLock" and "k \<in> keys_of q" and "rq_go q k = GNew"
  shows "\<exists>s'. step so oo (Enter r k) s = Some (Inr s')"
  using rq_entry_total [OF assms(3)] assms
  by (auto simp: with_req_def do_enter_def split: prod.splits)

lemma started_forward:
  assumes "sy_reqs s r = Some q" and "rq_phase q = PWait" and "started (ctl s) r"
  shows "\<exists>s'. step so oo (Start r) s = Some (Inr s')"
  using assms by (auto simp: with_req_def do_start_def)

text \<open>A request that is neither resolved nor about to enter a goroutine has one that waits for a lock.\<close>

lemma waiting_goroutine:
  assumes "req_shape q" and "rq_phase q = PLock" and "\<not> resolved q"
    and "\<And>k. k \<in> keys_of q \<Longrightarrow> rq_go q k \<noteq> GNew"
  obtains k where "k \<in> keys_of q" and "rq_go q k = GInit \<or> rq_go q k = GPlain"
proof -
  obtain k where k: "k \<in> keys_of q" "\<not> is_locked (rq_go q k)" "rq_go q k \<noteq> GFailed"
    using assms(3) by (auto simp: resolved_def)
  moreover have "rq_go q k \<noteq> GUnlocked" using assms(1,2) by (simp add: req_shape_def)
  ultimately show thesis using that [of k] assms(4) [of k] by (cases "rq_go q k") auto
qed

context weighted_semaphore
begin

lemma resolved_forward:
  assumes inv: "struct_inv s" "sy_reqs s r = Some q" and h: "locks_ok s"
    and ph: "rq_phase q = PLock" and res: "resolved q"
  shows "\<exists>a s'. forward a \<and> step so oo a s = Some (Inr s')"
proof (cases "\<forall>k \<in> keys_of q. is_locked (rq_go q k)")
  case True
  then have "step so oo (WaitOk r) s = Some (Inr (set_req r (q\<lparr>rq_phase := PHeld\<rparr>) (sy_locker s) s))"
    using inv(2) ph by (simp add: with_req_def do_wait_ok_def)
  then show ?thesis by (meson forward.simps(4))
next
  case False
  let ?ns = "map fst (rq_entries q)"
  have "distinct ?ns" "set ?ns = keys_of q"
    using struct_invD(2) [OF inv] by (auto simp: req_ok_def req_shape_def keys_of_def)
  moreover have "\<exists>k \<in> keys_of q. rq_go q k = GFailed" using False res by (auto simp: resolved_def)
  ultimately have "\<exists>x. step so oo (WaitErr r ?ns) s = Some x"
    using inv(2) ph res by (simp add: with_req_def do_wait_err_def resolved_def Let_def)
  then obtain x where x: "step so oo (WaitErr r ?ns) s = Some x" by blast
  then obtain s' where "x = Inr s'" using lock_ok_step [OF inv(1) h x] by blast
  then show ?thesis using x by (meson forward.simps(5))
qed

text \<open>A goroutine whose container nobody holds gets its lock.\<close>

lemma free_forward:
  assumes inv: "struct_inv s" "sy_reqs s r = Some q" and h: "locks_ok s"
    and ph: "rq_phase q = PLock" and k: "k \<in> keys_of q" "rq_go q k = GInit \<or> rq_go q k = GPlain"
    and free: "\<And>x. hold s x k = None"
  shows "\<exists>s'. step so oo (Try r k False) s = Some (Inr s')"
proof -
  obtain p where p: "rq_entry q k = Some p" using rq_entry_total [OF k(1)] by blast
  have e: "shared_by (hold s) k = {}" "excl_by (hold s) k = {}"
    using free by (auto simp: shared_by_def excl_by_def)
  obtain k1 k2 where "Lock so False (use_lock s) k = Granted k1" "RLock so False (use_lock s) k = Granted k2"
    using kl.lock_free [OF h [unfolded lock_ok_def] e] kl.rlock_free [OF h [unfolded lock_ok_def] e] by blast
  then have "\<exists>l. lock_try so oo False (sy_locker s) k p (rq_go q k = GInit) = Granted l"
    by (simp add: lock_try_def)
  then obtain l where "lock_try so oo False (sy_locker s) k p (rq_go q k = GInit) = Granted l" by blast
  then show ?thesis using p ph k inv(2) by (auto simp: with_req_def do_try_def Let_def)
qed

end

text \<open>
  The first request in the queue that still wants something: it has been let through, and the only
  requests that can hold what it wants are those that have completed.
\<close>

lemma first_wanting_free:
  assumes inv: "struct_inv s" and q: "ac_queue (ctl s) = xs @ e # ys" "sy_reqs s e = Some qe"
    and ahead: "\<And>x. x \<in> set xs \<Longrightarrow> wants (ctl s) x = {}"
    and k: "k \<in> wants (ctl s) e"
    and lock: "\<And>x qx. sy_reqs s x = Some qx \<Longrightarrow> rq_phase qx = PLock \<Longrightarrow> \<not> keys_of qx \<subseteq> locked_keys qx"
    and idle: "\<And>x qx. sy_reqs s x = Some qx \<Longrightarrow> rq_phase qx \<noteq> PHeld"
  shows "hold s x k = None"
proof (rule ccontr)
  assume "hold s x k \<noteq> None"
  then obtain qx where qx: "sy_reqs s x = Some qx" and lk: "k \<in> locked_keys qx"
    by (auto simp: hold_def locked_keys_def mode_def is_locked_def split: option.splits goroutine.splits)
  note ok = struct_invD(2) [OF inv qx, unfolded req_ok_def]
  have "rq_phase qx = PLock"
    using ok idle [OF qx] lk by (cases "rq_phase qx") (auto simp: req_shape_def locked_keys_def)
  then have "x \<in> set (ac_queue (ctl s))" and w: "wants (ctl s) x \<noteq> {}" "k \<notin> wants (ctl s) x"
    using ok lock [OF qx] lk by (auto simp: req_queued_def)
  then have "x \<notin> set xs" "x \<noteq> e" "x \<in> set ys" using ahead k q(1) by auto
  obtain us vs where "ys = us @ x # vs" using \<open>x \<in> set ys\<close> by (auto dest: split_list)
  then have qq: "ac_queue (ctl s) = (xs @ e # us) @ x # vs" using q(1) by simp
  have "distinct (ac_queue (ctl s))" using inv adm.line_distinct by (auto simp: struct_inv_def)
  then have "x \<notin> set (xs @ e # us)" using qq by auto
  then have "ahead (ac_queue (ctl s)) x = set (xs @ e # us)" unfolding qq by (rule ahead_split)
  then have "e \<in> ahead (ac_queue (ctl s)) x" by simp
  then have "wants (ctl s) e \<inter> locked_keys qx = {}"
    using struct_invD(4) [OF inv qx] \<open>x \<in> set (ac_queue (ctl s))\<close> qx by (auto simp: order_ok_def)
  then show False using k lk by blast
qed

lemma unfinished_wants:
  assumes inv: "struct_inv s" and r: "sy_reqs s r = Some q" "rq_phase q = PWait \<or> rq_phase q = PLock"
    and waits: "rq_phase q = PWait \<Longrightarrow> \<not> started (ctl s) r"
    and lock: "rq_phase q = PLock \<Longrightarrow> \<not> keys_of q \<subseteq> locked_keys q"
  shows "r \<in> set (ac_queue (ctl s)) \<and> wants (ctl s) r \<noteq> {}"
proof -
  note ok = struct_invD(2) [OF inv r(1), unfolded req_ok_def]
  have rin: "r \<in> set (ac_queue (ctl s))" using r lock ok by (auto simp: req_queued_def)
  moreover have "wants (ctl s) r \<noteq> {}"
    using r(2) waits lock ok adm.admitted_iff_ahead [OF struct_invD(1) [OF inv r(1)] rin] rin
    by (auto simp: req_queued_def)
  ultimately show ?thesis by simp
qed

lemma waiting_goroutine_wants:
  assumes "req_queued c e q" and "e \<in> set (ac_queue c)" and "k \<in> keys_of q"
    and "rq_go q k = GInit \<or> rq_go q k = GPlain"
  shows "k \<in> wants c e"
proof -
  have "wants c e = keys_of q - locked_keys q" using assms(1,2) by (simp add: req_queued_def)
  moreover have "k \<notin> locked_keys q" using assms(4) by (auto simp: locked_keys_def)
  ultimately show ?thesis using assms(3) by simp
qed

context weighted_semaphore
begin

lemma deadlock_free:
  assumes inv: "struct_inv s" and h: "locks_ok s"
    and r: "sy_reqs s r = Some q" "rq_phase q = PWait \<or> rq_phase q = PLock"
    and idle: "\<And>x qx. sy_reqs s x = Some qx \<Longrightarrow> rq_phase qx \<noteq> PHeld"
    and live: "\<And>x qx. x \<in> set (ac_queue (ctl s)) \<Longrightarrow> sy_reqs s x = Some qx \<Longrightarrow> rq_phase qx \<noteq> PFailed"
  shows "\<exists>a s'. forward a \<and> step so oo a s = Some (Inr s')"
proof (rule ccontr)
  assume "\<not> ?thesis"
  then have stuck: "\<And>a s'. forward a \<Longrightarrow> step so oo a s \<noteq> Some (Inr s')" by blast
  have unres: "\<not> resolved qx" if "sy_reqs s x = Some qx" "rq_phase qx = PLock" for x qx
    using resolved_forward [OF inv that(1) h that(2)] stuck by blast
  have entered: "rq_go qx k \<noteq> GNew" if "sy_reqs s x = Some qx" "rq_phase qx = PLock" "k \<in> keys_of qx" for x qx k
    using entered_forward [OF that] stuck by (meson forward.simps(2))
  have waits: "\<not> started (ctl s) x" if "sy_reqs s x = Some qx" "rq_phase qx = PWait" for x qx
    using started_forward [OF that] stuck by (meson forward.simps(1))
  have lock: "\<not> keys_of qx \<subseteq> locked_keys qx" if "sy_reqs s x = Some qx" "rq_phase qx = PLock" for x qx
    using unres [OF that] by (auto simp: resolved_def locked_keys_def)
  note ci = struct_invD(1) [OF inv r(1)]
  have "r \<in> set (ac_queue (ctl s))" "wants (ctl s) r \<noteq> {}"
    using unfinished_wants [OF inv r] waits [OF r(1)] lock [OF r(1)] by blast+
  then obtain xs e ys where e: "ac_queue (ctl s) = xs @ e # ys" "wants (ctl s) e \<noteq> {}"
    "\<And>x. x \<in> set xs \<Longrightarrow> wants (ctl s) x = {}"
    using split_list_first_prop [of "ac_queue (ctl s)" "\<lambda>x. wants (ctl s) x \<noteq> {}"] by blast
  have "e < ac_next (ctl s)" using adm.line_ticket [OF ci] e(1) by simp
  then have "sy_reqs s e \<noteq> None" using inv unfolding struct_inv_def by blast
  then obtain qe where qe: "sy_reqs s e = Some qe" by blast
  note ok = struct_invD(2) [OF inv qe, unfolded req_ok_def]
  have "started (ctl s) e" using adm.first_wanting_admitted [OF ci e(1,3)] by simp
  then have ph: "rq_phase qe = PLock"
    using waits [OF qe] idle [OF qe] live [OF _ qe] ok e(1,2)
    by (cases "rq_phase qe") (auto simp: req_queued_def)
  obtain k where k: "k \<in> keys_of qe" "rq_go qe k = GInit \<or> rq_go qe k = GPlain"
    by (rule waiting_goroutine [OF ok [THEN conjunct1] ph unres [OF qe ph] entered [OF qe ph]])
  have kw: "k \<in> wants (ctl s) e" using ok k e(1) by (intro waiting_goroutine_wants) simp_all
  have "hold s x k = None" for x
    by (rule first_wanting_free [OF inv e(1) qe e(3) kw lock idle])
  then obtain s' where "step so oo (Try e k False) s = Some (Inr s')"
    using free_forward [OF inv qe h ph k] by blast
  then show False using stuck [of "Try e k False" s'] by simp
qed

end

section \<open>Requests that are cancelled while they wait\<close>

text \<open>
  A call of \<open>Acquire\<close> whose context ends while it waits returns without taking its entry out of the
  queue. Such an entry stays where it is, and every request behind it that shares a key with it is
  kept out.
\<close>

definition abandoned :: "('s, 'o) sys \<Rightarrow> nat \<Rightarrow> string \<Rightarrow> bool" where
  "abandoned s r k \<longleftrightarrow> r \<in> set (ac_queue (ctl s)) \<and>
     (\<exists>q. sy_reqs s r = Some q \<and> rq_phase q = PFailed \<and> k \<in> keys_of q)"

definition kept_out :: "('s, 'o) sys \<Rightarrow> nat \<Rightarrow> string \<Rightarrow> nat \<Rightarrow> bool" where
  "kept_out s r k n \<longleftrightarrow>
     (\<forall>x q. n \<le> x \<longrightarrow> sy_reqs s x = Some q \<longrightarrow> k \<in> keys_of q \<longrightarrow>
        (rq_phase q = PWait \<or> rq_phase q = PFailed) \<and>
        (x \<in> set (ac_queue (ctl s)) \<longrightarrow> r \<in> ahead (ac_queue (ctl s)) x))"

lemma abandoned_wants:
  assumes "struct_inv s" and "abandoned s r k"
  shows "k \<in> wants (ctl s) r"
  using assms struct_invD(2) [OF assms(1)]
  by (fastforce simp: abandoned_def req_ok_def req_queued_def req_shape_def)

text \<open>A request that is kept out has not been let through.\<close>

lemma kept_out_not_started:
  assumes inv: "struct_inv s" and a: "abandoned s r k" and o: "kept_out s r k n"
    and x: "n \<le> x" "sy_reqs s x = Some q" "k \<in> keys_of q" "rq_phase q = PWait"
  shows "\<not> started (ctl s) x"
proof -
  note ok = struct_invD(2) [OF inv x(2), unfolded req_ok_def]
  have xq: "x \<in> set (ac_queue (ctl s))" using ok x(4) by (simp add: req_queued_def)
  have "locked_keys q = {}" using ok x(4) by (auto simp: req_shape_def locked_keys_def)
  then have "k \<in> wants (ctl s) x" using ok xq x(3) by (auto simp: req_queued_def)
  moreover have "r \<in> ahead (ac_queue (ctl s)) x" using o x xq unfolding kept_out_def by blast
  ultimately show ?thesis
    using adm.admitted_iff_ahead [OF struct_invD(1) [OF inv x(2)] xq] abandoned_wants [OF inv a] by blast
qed

text \<open>How a step changes the queue and the requests, as far as the two predicates are concerned.\<close>

lemma step_queue:
  assumes "step so oo a s = Some (Inr s')"
  obtains (new) es q0 where "a = Accept es" "ctl s' = snd (accept (set (map fst es)) (ctl s))"
      "sy_reqs s' = (sy_reqs s)(ac_next (ctl s) \<mapsto> q0)" "rq_phase q0 = PWait"
  | (old) r q q' where "sy_reqs s' = (sy_reqs s)(r \<mapsto> q')" "sy_reqs s r = Some q" "rq_phase q \<noteq> PFailed"
      "keys_of q' = keys_of q"
      "rq_phase q = PWait \<longrightarrow> rq_phase q' = PFailed \<or> started (ctl s) r"
      "ac_queue (ctl s') = ac_queue (ctl s) \<or> ac_queue (ctl s') = list_remove r (ac_queue (ctl s))"
proof (cases a)
  case (Accept es)
  then show thesis
    using assms by (intro new [of es])
      (auto simp: do_accept_def Let_def case_prod_beta adm.enter_ticket split: if_splits)
next
  case (Start r)
  then show thesis using assms
    by (auto simp: with_req_def do_start_def split: option.splits if_splits intro!: old [where r = r])
next
  case (Cancel r)
  then show thesis using assms
    by (auto simp: with_req_def do_cancel_def split: option.splits if_splits intro!: old [where r = r])
next
  case (Enter r k)
  then show thesis using assms lock_enter_frame [of oo "sy_locker s" k]
    by (auto simp: with_req_def do_enter_def split: option.splits if_splits prod.splits intro!: old [where r = r])
next
  case (Try r k d)
  then obtain q where q: "sy_reqs s r = Some q" and t: "do_try so oo r q k d s = Some s'"
    using assms by (auto simp: with_req_def split: option.splits)
  show thesis
    using t
  proof (cases rule: do_try_cases)
    case (granted p l)
    have l: "lk_acquirer l = ctl s"
      using lock_try_frame [of so oo d "sy_locker s" k p "rq_go q k = GInit"] granted by simp
    have "ac_queue (removeLockedKey r k (ctl s)) = ac_queue (ctl s) \<or>
        ac_queue (removeLockedKey r k (ctl s)) = list_remove r (ac_queue (ctl s))"
      by (simp add: removeLockedKey_def Let_def)
    then show thesis
      using q granted l
      by (intro old [where r = r and q = q and q' = "set_go q k (GLocked (new_container_lock k p (rq_go q k = GInit)))"])
        auto
  next
    case (failed p l)
    then show thesis
      using q lock_try_frame [of so oo d "sy_locker s" k p "rq_go q k = GInit"]
      by (intro old [where r = r and q = q and q' = "set_go q k GFailed"]) auto
  qed
next
  case (WaitOk r)
  then show thesis using assms
    by (auto simp: with_req_def do_wait_ok_def split: option.splits if_splits intro!: old [where r = r])
next
  case (WaitErr r ns)
  then show thesis using assms
    by (auto simp: with_req_def do_wait_err_def Let_def map_sum_Inr adm.leave_line split: option.splits if_splits
        dest!: unlock_all_frame intro!: old [where r = r])
next
  case (InitResult r k ok)
  then obtain q where q: "sy_reqs s r = Some q" and t: "do_init_result so oo r q k ok s = Some (Inr s')"
    using assms by (auto simp: with_req_def split: option.splits)
  obtain cl l cl' where "rq_phase q = PHeld" and "rq_go q k = GLocked cl"
    and si: "SetInitResult so oo (sy_locker s) cl ok = Inr (l, cl')"
    and "s' = set_req r (set_go q k (GLocked cl')) l s"
    using t by (rule do_init_result_Inr)
  then show thesis
    using q SetInitResult_frame [OF si]
    by (intro old [where r = r and q = q and q' = "set_go q k (GLocked cl')"]) auto
next
  case (ReleaseAll r ns)
  then obtain q where q: "sy_reqs s r = Some q" and t: "do_release so r q ns s = Some (Inr s')"
    using assms by (auto simp: with_req_def split: option.splits)
  let ?q' = "q\<lparr>rq_phase := PReleased, rq_go := unlocked_go (rq_go q)\<rparr>"
  obtain l where "rq_phase q = PHeld" and u: "unlock_all so (sy_locker s) (rq_go q) ns = Inr l"
    and "s' = set_req r ?q' l s"
    using t by (rule do_release_Inr)
  then show thesis
    using q unlock_all_frame [OF u] by (intro old [where r = r and q = q and q' = ?q']) auto
qed

lemma blocked_step:
  assumes inv: "struct_inv s" and a: "abandoned s r k" and o: "kept_out s r k n"
    and st: "step so oo lab s = Some (Inr s')"
  shows "abandoned s' r k \<and> kept_out s' r k n"
  using st
proof (cases rule: step_queue)
  case (new es q0)
  have "r \<noteq> ac_next (ctl s)" using a inv by (auto simp: abandoned_def struct_inv_def)
  moreover have rq: "r \<in> set (ac_queue (ctl s))" using a by (simp add: abandoned_def)
  ultimately have "abandoned s' r k" using a new by (auto simp: abandoned_def adm.enter_line)
  moreover have "kept_out s' r k n"
    unfolding kept_out_def
  proof (intro allI impI)
    fix x q
    assume x: "n \<le> x" "sy_reqs s' x = Some q" "k \<in> keys_of q"
    have fresh: "ac_next (ctl s) \<notin> set (ac_queue (ctl s))"
      using inv adm.line_ticket by (fastforce simp: struct_inv_def)
    show "(rq_phase q = PWait \<or> rq_phase q = PFailed) \<and>
        (x \<in> set (ac_queue (ctl s')) \<longrightarrow> r \<in> ahead (ac_queue (ctl s')) x)"
    proof (cases "x = ac_next (ctl s)")
      case True
      then show ?thesis using x new rq ahead_split [OF fresh, of "[]"] by (auto simp: adm.enter_line)
    next
      case False
      then show ?thesis
        using x new o ahead_snoc [of x "ac_queue (ctl s)"] by (auto simp: kept_out_def adm.enter_line)
    qed
  qed
  ultimately show ?thesis by simp
next
  case (old r' q q')
  have ne: "r' \<noteq> r" using old a by (auto simp: abandoned_def)
  have "abandoned s' r k" using a old ne by (auto simp: abandoned_def)
  moreover have "kept_out s' r k n"
    unfolding kept_out_def
  proof (intro allI impI conjI)
    fix x qx
    assume x: "n \<le> x" "sy_reqs s' x = Some qx" "k \<in> keys_of qx"
    obtain q0 where q0: "sy_reqs s x = Some q0" "k \<in> keys_of q0"
      using x old by (cases "x = r'") auto
    then have ph: "rq_phase q0 = PWait \<or> rq_phase q0 = PFailed" using o x(1) by (auto simp: kept_out_def)
    show "rq_phase qx = PWait \<or> rq_phase qx = PFailed"
      using old ph q0 x kept_out_not_started [OF inv a o x(1) q0] by (cases "x = r'") auto
    show "r \<in> ahead (ac_queue (ctl s')) x" if xin: "x \<in> set (ac_queue (ctl s'))"
      using old(6)
    proof
      assume "ac_queue (ctl s') = ac_queue (ctl s)"
      then show ?thesis using o x(1) q0 xin by (auto simp: kept_out_def)
    next
      assume rm: "ac_queue (ctl s') = list_remove r' (ac_queue (ctl s))"
      then have "x \<noteq> r'" "x \<in> set (ac_queue (ctl s))" using xin by auto
      then show ?thesis
        using o x(1) q0 ne rm by (auto simp: kept_out_def list_remove_def ahead_filter)
    qed
  qed
  ultimately show ?thesis by simp
qed

lemma run_invariant:
  assumes "run so oo as s = Some s'" and "P s"
    and "\<And>s a t. P s \<Longrightarrow> step so oo a s = Some (Inr t) \<Longrightarrow> P t"
  shows "P s'"
  using assms(1,2)
proof (induction as arbitrary: s)
  case (Cons a as)
  then obtain t where t: "step so oo a s = Some (Inr t)" "run so oo as t = Some s'"
    by (auto split: option.splits sum.splits)
  from assms(3) [OF Cons.prems(2) t(1)] Cons.IH [OF t(2)] show ?case by blast
qed simp

section \<open>How often the initialisation is handed out\<close>

text \<open>Nobody has the initialisation of a container in hand.\<close>

definition no_duty :: "('s, 'o) sys \<Rightarrow> string \<Rightarrow> bool" where
  "no_duty s k \<longleftrightarrow>
     (\<forall>x q. sy_reqs s x = Some q \<longrightarrow>
        rq_go q k \<noteq> GInit \<and> (\<forall>cl. rq_go q k = GLocked cl \<longrightarrow> \<not> cl_init cl))"

definition duty_free :: "goroutine \<Rightarrow> bool" where
  "duty_free g \<longleftrightarrow> g \<noteq> GInit \<and> (\<forall>cl. g = GLocked cl \<longrightarrow> \<not> cl_init cl)"

lemma no_duty_alt: "no_duty s k \<longleftrightarrow> (\<forall>x q. sy_reqs s x = Some q \<longrightarrow> duty_free (rq_go q k))"
  by (auto simp: no_duty_def duty_free_def)

lemma no_duty_set_req: "no_duty s k \<Longrightarrow> duty_free (rq_go q k) \<Longrightarrow> no_duty (set_req r q l s) k"
  by (simp add: no_duty_alt)

lemma unlock_all_once: "unlock_all so l go ns = Inr l' \<Longrightarrow> lk_once l' = lk_once l"
proof (induction so l go ns rule: unlock_all.induct)
  case (2 so l go name names)
  have "Release so l cl = Inr l1 \<Longrightarrow> lk_once l1 = lk_once l" for cl l1
    by (auto simp: Release_def map_sum_Inr)
  with 2 show ?case by (auto split: goroutine.splits sum.splits)
qed simp

lemma duty_free_unlocked: "duty_free (go k) \<Longrightarrow> duty_free (unlocked_go go k)"
  by (simp add: duty_free_def unlocked_go_def)

context once_factory
begin

definition settled_init :: "('s, 'o) sys \<Rightarrow> string \<Rightarrow> bool" where
  "settled_init s k \<longleftrightarrow> struct_inv s \<and> no_duty s k \<and> \<not> fresh (lk_once (sy_locker s)) k"

lemma settled_enter:
  assumes q: "sy_reqs s r = Some q" and st: "do_enter oo r q n s = Some s'"
    and d: "no_duty s k" "\<not> fresh (lk_once (sy_locker s)) k"
  shows "no_duty s' k \<and> \<not> fresh (lk_once (sy_locker s')) k"
proof -
  obtain p g l where gl: "lock_enter oo (sy_locker s) n p = (g, l)" and s': "s' = set_req r (set_go q n g) l s"
    using st by (auto simp: do_enter_def split: option.splits if_splits prod.splits)
  have "(n = k \<longrightarrow> g = GPlain) \<and> \<not> fresh (lk_once l) k"
    using gl d(2) do_runs [of "lk_once (sy_locker s)" n] do_uses_up [of "lk_once (sy_locker s)" n k]
    by (auto simp: lock_enter_def case_prod_beta split: if_splits)
  moreover have "duty_free (rq_go q k)" using d(1) q by (simp add: no_duty_alt)
  ultimately show ?thesis
    using s' no_duty_set_req [OF d(1), of "set_go q n g" r l] by (auto simp: duty_free_def)
qed

lemma settled_try:
  assumes q: "sy_reqs s r = Some q" and st: "do_try so oo r q n b s = Some s'"
    and d: "no_duty s k" "\<not> fresh (lk_once (sy_locker s)) k"
  shows "no_duty s' k \<and> \<not> fresh (lk_once (sy_locker s')) k"
  using st
proof (cases rule: do_try_cases)
  case (granted p l)
  have ni: "n = k \<Longrightarrow> rq_go q n \<noteq> GInit" using d(1) q by (auto simp: no_duty_def)
  have "lk_once l = lk_once (sy_locker s)"
    using granted(4) by (cases "Lock so b (use_lock s) n"; cases "RLock so b (use_lock s) n")
      (auto simp: lock_try_def split: if_splits)
  moreover have "duty_free (rq_go (set_go q n (GLocked (new_container_lock n p (rq_go q n = GInit)))) k)"
    using ni d(1) q by (auto simp: no_duty_alt duty_free_def new_container_lock_def)
  ultimately show ?thesis using granted(5) d by (auto intro: no_duty_set_req)
next
  case (failed p l)
  have ni: "n = k \<Longrightarrow> rq_go q n \<noteq> GInit" using d(1) q by (auto simp: no_duty_def)
  have "\<not> fresh (lk_once l) k"
    using failed(4) ni d(2) by (cases "Lock so b (use_lock s) n"; cases "RLock so b (use_lock s) n")
      (auto simp: lock_try_def refresh_fresh split: if_splits)
  moreover have "duty_free (rq_go (set_go q n GFailed) k)"
    using d(1) q by (auto simp: no_duty_alt duty_free_def)
  ultimately show ?thesis using failed(5) d by (auto intro: no_duty_set_req)
qed

lemma settled_init_result:
  assumes inv: "struct_inv s" and q: "sy_reqs s r = Some q"
    and st: "do_init_result so oo r q n ok s = Some (Inr s')"
    and d: "no_duty s k" "\<not> fresh (lk_once (sy_locker s)) k"
  shows "no_duty s' k \<and> \<not> fresh (lk_once (sy_locker s')) k"
proof -
  obtain cl l cl' where cl: "rq_go q n = GLocked cl"
    and si: "SetInitResult so oo (sy_locker s) cl ok = Inr (l, cl')"
    and s': "s' = set_req r (set_go q n (GLocked cl')) l s"
    using st by (elim do_init_result_Inr)
  have nm: "cl_name cl = n" using struct_invD(2) [OF inv q] cl by (simp add: req_ok_def req_shape_def)
  have df: "duty_free (rq_go q k)" using d(1) q by (simp add: no_duty_alt)
  then have "n = k \<longrightarrow> \<not> cl_init cl" using cl by (auto simp: duty_free_def)
  then have "\<not> fresh (lk_once l) k" and "n = k \<longrightarrow> \<not> cl_init cl'"
    using si d(2) nm by (auto simp: SetInitResult_def refresh_fresh split: if_splits sum.splits)
  then have "duty_free (rq_go (set_go q n (GLocked cl')) k)" using df by (auto simp: duty_free_def)
  then show ?thesis using s' \<open>\<not> fresh (lk_once l) k\<close> d(1) by (auto intro: no_duty_set_req)
qed

lemma settled_step:
  assumes d: "settled_init s k" and st: "step so oo a s = Some (Inr s')"
  shows "settled_init s' k"
proof -
  have inv: "struct_inv s" and nd: "no_duty s k" and nf: "\<not> fresh (lk_once (sy_locker s)) k"
    using d by (auto simp: settled_init_def)
  have df: "duty_free (rq_go q k)" if "sy_reqs s r = Some q" for r q using nd that by (simp add: no_duty_alt)
  have "no_duty s' k \<and> \<not> fresh (lk_once (sy_locker s')) k"
  proof (cases a)
    case (Accept es)
    then show ?thesis
      using st nd nf by (auto simp: do_accept_def Let_def case_prod_beta no_duty_alt duty_free_def split: if_splits)
  next
    case (WaitErr r ns)
    then show ?thesis
      using st nd nf df
      by (auto simp: with_req_def do_wait_err_def Let_def map_sum_Inr unlock_all_once duty_free_unlocked
          split: option.splits if_splits dest!: unlock_all_once intro!: no_duty_set_req)
  next
    case (ReleaseAll r ns)
    then show ?thesis
      using st nd nf df
      by (auto simp: with_req_def do_release_def map_sum_Inr unlock_all_once duty_free_unlocked
          split: option.splits if_splits dest!: unlock_all_once intro!: no_duty_set_req)
  qed (use st nd nf df settled_enter [OF _ _ nd nf] settled_try [OF _ _ nd nf] settled_init_result [OF inv _ _ nd nf] in
      \<open>auto simp: with_req_def do_start_def do_cancel_def do_wait_ok_def
         split: option.splits if_splits intro!: no_duty_set_req\<close>)
  then show ?thesis using struct_inv_step [OF inv st] by (simp add: settled_init_def)
qed

lemma init_final:
  assumes "settled_init s k" and "run so oo as s = Some s'"
  shows "settled_init s' k"
  by (rule run_invariant [where P = "\<lambda>s. settled_init s k", OF assms(2,1)]) (rule settled_step)

end

section \<open>Main properties\<close>

context weighted_semaphore
begin

lemma reach_exclusion:
  assumes "sys_reach so oo s" and "hold s i k = Some True" and "hold s j k \<noteq> None"
  shows "j = i"
  using assms(2,3) by (rule kl.held_exclusive [OF sys_reach_locks_ok [OF assms(1), unfolded lock_ok_def]])

end

lemma run_reach: "sys_reach so oo s \<Longrightarrow> run so oo as s = Some s' \<Longrightarrow> sys_reach so oo s'"
  using run_invariant [where P = "sys_reach so oo"] sys_reach.step by metis

text \<open>Example states are reached by running labels from the initial state of the concrete instance.\<close>

definition example :: "label list \<Rightarrow> (int \<times> int, string list) sys" where
  "example as = the (run counting_sem list_once as (NewSys list_once))"

lemma example_reach:
  "\<not> Option.is_none (run counting_sem list_once as (NewSys list_once)) \<Longrightarrow>
     sys_reach counting_sem list_once (example as)"
  by (auto simp: example_def Option.is_none_def intro: run_reach sys_reach.start)

text \<open>Two clients of one container: the first holds it exclusively, the second waits for it.\<close>

abbreviation excl_entry :: acquire_entry where
  "excl_entry \<equiv> \<lparr>en_exclusive = True, en_init = False\<rparr>"

abbreviation init_entry :: acquire_entry where
  "init_entry \<equiv> \<lparr>en_exclusive = True, en_init = True\<rparr>"

text \<open>The phases of the requests of an example, in the order of their queue entries.\<close>

definition phases :: "('s, 'o) sys \<Rightarrow> phase option list" where
  "phases s = map (\<lambda>r. map_option rq_phase (sy_reqs s r)) [0..<ac_next (ctl s)]"

lemma phases_nth:
  assumes "sys_reach so oo s" and "sy_reqs s r = Some q"
  shows "r < length (phases s) \<and> phases s ! r = Some (rq_phase q)"
  using struct_invD(3) [OF sys_reach_struct_inv [OF assms(1)] assms(2)] assms(2)
  by (simp add: phases_def)

lemma phases_in:
  assumes "sys_reach so oo s" and "sy_reqs s r = Some q"
  shows "Some (rq_phase q) \<in> set (phases s)"
  using phases_nth [OF assms] by (metis nth_mem)

definition take_both :: "label list" where
  "take_both =
     [Accept [(''db'', excl_entry), (''kv'', excl_entry)], Accept [(''kv'', excl_entry), (''db'', excl_entry)],
      Start 0, Enter 0 ''db'', Enter 0 ''kv'', Try 0 ''db'' False]"

text \<open>
  C1: Mutual exclusion of container locks. In every state that concurrent acquisitions on one
  Locker can reach, a request that holds a container exclusively (an exclusive lock, or the
  initialisation lock before its downgrade) is the only holder of that container. The semaphore is
  any one that meets its documentation.
\<close>

theorem container_lock_exclusion:
  assumes "weighted_semaphore so cur size_of" and "sys_reach so oo s"
    and "hold s i k = Some True" and "hold s j k \<noteq> None"
  shows "j = i"
  using assms by (rule weighted_semaphore.reach_exclusion)

theorem container_lock_exclusion_witness:
  "hold (example take_both) 0 ''db'' = Some True \<and> (\<forall>j. hold (example take_both) j ''db'' \<noteq> None \<longleftrightarrow> j = 0)"
proof -
  have r: "sys_reach counting_sem list_once (example take_both)"
    by (rule example_reach) code_simp
  have h: "hold (example take_both) 0 ''db'' = Some True" by code_simp
  from container_lock_exclusion [OF csem.weighted_semaphore_axioms r h] h show ?thesis by auto
qed

text \<open>
  C6: Deadlock freedom of multi-container acquisition. Whenever some request is still waiting or
  locking, no completed acquisition still holds locks and no cancelled entry is left in the queue,
  some request can take a step forward by itself: be let through, enter a goroutine, obtain a lock
  without help of its context, or finish.
\<close>

theorem acquisition_deadlock_free:
  assumes "weighted_semaphore so cur size_of" and "sys_reach so oo s"
    and "sy_reqs s r = Some q" and "rq_phase q = PWait \<or> rq_phase q = PLock"
    and "\<And>x qx. sy_reqs s x = Some qx \<Longrightarrow> rq_phase qx \<noteq> PHeld"
    and "\<And>x qx. x \<in> set (ac_queue (ctl s)) \<Longrightarrow> sy_reqs s x = Some qx \<Longrightarrow> rq_phase qx \<noteq> PFailed"
  shows "\<exists>a s'. forward a \<and> step so oo a s = Some (Inr s')"
  using weighted_semaphore.deadlock_free [OF assms(1) sys_reach_struct_inv [OF assms(2)]
      weighted_semaphore.sys_reach_locks_ok [OF assms(1,2)] assms(3-6)] .

theorem acquisition_deadlock_free_witness:
  "phases (example take_both) = [Some PLock, Some PWait] \<and>
   (\<exists>a s'. forward a \<and> step counting_sem list_once a (example take_both) = Some (Inr s'))"
proof -
  have r: "sys_reach counting_sem list_once (example take_both)"
    by (rule example_reach) code_simp
  have ph: "phases (example take_both) = [Some PLock, Some PWait]" by code_simp
  have lim: "rq_phase q \<noteq> PHeld" "rq_phase q \<noteq> PFailed" if "sy_reqs (example take_both) x = Some q" for x q
    using phases_in [OF r that] by (auto simp: ph)
  have "map_option rq_phase (sy_reqs (example take_both) 0) = Some PLock" by code_simp
  then obtain q where q: "sy_reqs (example take_both) 0 = Some q" "rq_phase q = PWait \<or> rq_phase q = PLock"
    by auto
  from acquisition_deadlock_free [OF csem.weighted_semaphore_axioms r q] lim ph show ?thesis by blast
qed

text \<open>
  C7: No panic. In every reachable state, no step of an acquisition (releasing, reporting the result
  of an initialisation, undoing a failed acquisition) unlocks a mutex that is not locked or
  releases more than is held.
\<close>

theorem acquisition_never_panics:
  assumes "weighted_semaphore so cur size_of" and "sys_reach so oo s"
  shows "step so oo a s \<noteq> Some (Inl p)"
proof
  assume "step so oo a s = Some (Inl p)"
  from weighted_semaphore.lock_ok_step [OF assms(1) sys_reach_struct_inv [OF assms(2)]
      weighted_semaphore.sys_reach_locks_ok [OF assms] this]
  show False by simp
qed

theorem acquisition_never_panics_witness:
  "step counting_sem list_once (ReleaseAll 0 [''db'']) (example take_both) \<noteq> Some (Inl SemaphorePanic)"
proof -
  have r: "sys_reach counting_sem list_once (example take_both)"
    by (rule example_reach) code_simp
  show ?thesis by (rule acquisition_never_panics [OF csem.weighted_semaphore_axioms r])
qed


definition fail_both :: "label list" where
  "fail_both = take_both @ [Try 0 ''kv'' False, WaitOk 0, Start 1, Enter 1 ''db'', Enter 1 ''kv'',
     Try 1 ''db'' True, ReleaseAll 0 [''kv'', ''db''], Try 1 ''kv'' True, WaitErr 1 [''db'', ''kv'']]"


text \<open>
  C39: A request that is cancelled while it waits in the queue is never taken out of it: no request
  made later for one of its containers is ever let through, whatever the other callers do.
\<close>

theorem cancelled_request_blocks_container:
  assumes "sys_reach so oo s" and "abandoned s r k" and "run so oo as s = Some s'"
    and "ac_next (ctl s) \<le> x" and "sy_reqs s' x = Some q" and "k \<in> keys_of q"
  shows "rq_phase q = PWait \<or> rq_phase q = PFailed"
proof -
  let ?P = "\<lambda>t. struct_inv t \<and> abandoned t r k \<and> kept_out t r k (ac_next (ctl s))"
  have inv: "struct_inv s" using assms(1) by (rule sys_reach_struct_inv)
  have "kept_out s r k (ac_next (ctl s))"
    unfolding kept_out_def using struct_invD(3) [OF inv] by (auto simp: not_less [symmetric])
  then have "?P s'"
    using inv assms(2) blocked_step struct_inv_step
    by (intro run_invariant [where P = ?P, OF assms(3)]) blast+
  then show ?thesis using assms(4-6) unfolding kept_out_def by blast
qed

definition cancel_second :: "label list" where
  "cancel_second =
     [Accept [(''db'', excl_entry)], Accept [(''db'', excl_entry)], Cancel 1, Start 0, Enter 0 ''db'',
      Try 0 ''db'' False, WaitOk 0, ReleaseAll 0 [''db'']]"

theorem cancelled_request_blocks_container_witness:
  "\<exists>s' q. run counting_sem list_once [Accept [(''db'', excl_entry)]] (example cancel_second) = Some s' \<and>
     (\<forall>x. hold s' x ''db'' = None) \<and> sy_reqs s' 2 = Some q \<and> (rq_phase q = PWait \<or> rq_phase q = PFailed)"
proof -
  let ?s = "example cancel_second" and ?as = "[Accept [(''db'', excl_entry)]]"
  have r: "sys_reach counting_sem list_once ?s" by (rule example_reach) code_simp
  have "map_option (\<lambda>q. (rq_phase q, ''db'' \<in> keys_of q)) (sy_reqs ?s 1) = Some (PFailed, True)" by code_simp
  moreover have "1 \<in> set (ac_queue (ctl ?s))" by code_simp
  ultimately have a: "abandoned ?s 1 ''db''" by (auto simp: abandoned_def)
  have "map_option (\<lambda>s'. (phases s', map_option (\<lambda>q. ''db'' \<in> keys_of q) (sy_reqs s' 2)))
      (run counting_sem list_once ?as ?s) = Some ([Some PReleased, Some PFailed, Some PWait], Some True)"
    by code_simp
  then obtain s' q where s': "run counting_sem list_once ?as ?s = Some s'" and q: "sy_reqs s' 2 = Some q" "''db'' \<in> keys_of q"
    and ph: "phases s' = [Some PReleased, Some PFailed, Some PWait]" by auto
  have r': "sys_reach counting_sem list_once s'" by (rule run_reach [OF r s'])
  have "hold s' x ''db'' = None" for x
  proof (cases "sy_reqs s' x")
    case (Some qx)
    have "req_shape qx"
      using struct_invD(2) [OF sys_reach_struct_inv [OF r'] Some] by (simp add: req_ok_def)
    then show ?thesis
      using phases_in [OF r' Some] by (auto simp: ph req_shape_def hold_req [OF Some] locked_keys_def mode_None)
  qed (simp add: hold_def)
  moreover have "ac_next (ctl ?s) \<le> 2" by code_simp
  ultimately show ?thesis
    using cancelled_request_blocks_container [OF r a s' _ q] s' q(1) by blast
qed

text \<open>
  The initialisation of a container is handed out at most once. Once \<open>Do\<close> has used the container's
  name up and nobody has the initialisation in hand, no request ever gets it again, however the
  other callers behave.
\<close>

theorem init_not_handed_out_again:
  assumes "once_factory oo fresh" and "sys_reach so oo s"
    and "\<not> fresh (lk_once (sy_locker s)) k" and "no_duty s k" and "run so oo as s = Some s'"
  shows "no_duty s' k \<and> \<not> fresh (lk_once (sy_locker s')) k"
  using once_factory.init_final [OF assms(1) _ assms(5), of k] sys_reach_struct_inv [OF assms(2)] assms(3,4)
  by (simp add: once_factory.settled_init_def [OF assms(1)])

definition init_ok :: "label list" where
  "init_ok =
     [Accept [(''db'', init_entry)], Start 0, Enter 0 ''db'', Try 0 ''db'' False, WaitOk 0,
      InitResult 0 ''db'' True, ReleaseAll 0 [''db'']]"

definition init_second :: "label list" where
  "init_second = [Accept [(''db'', init_entry)], Start 1, Enter 1 ''db'', Try 1 ''db'' False, WaitOk 1]"

theorem init_not_handed_out_again_witness:
  "\<exists>s'. run counting_sem list_once init_second (example init_ok) = Some s' \<and>
     hold s' 1 ''db'' = Some True \<and> no_duty s' ''db'' \<and> ''db'' \<in> set (lk_once (sy_locker s'))"
proof -
  let ?s = "example init_ok"
  have r: "sys_reach counting_sem list_once ?s" by (rule example_reach) code_simp
  have f: "\<not> ''db'' \<notin> set (lk_once (sy_locker ?s))" by code_simp
  have n: "ac_next (ctl ?s) = 1" by code_simp
  have g: "map_option (\<lambda>q. rq_go q ''db'') (sy_reqs ?s 0) = Some GUnlocked" by code_simp
  have d: "no_duty ?s ''db''"
    unfolding no_duty_def
  proof (intro allI impI)
    fix x q
    assume x: "sy_reqs ?s x = Some q"
    then have "x = 0" using struct_invD(3) [OF sys_reach_struct_inv [OF r] x] n by simp
    then have "rq_go q ''db'' = GUnlocked" using g x by simp
    then show "rq_go q ''db'' \<noteq> GInit \<and> (\<forall>cl. rq_go q ''db'' = GLocked cl \<longrightarrow> \<not> cl_init cl)" by simp
  qed
  have "map_option (\<lambda>s'. hold s' 1 ''db'') (run counting_sem list_once init_second ?s) = Some (Some True)"
    by code_simp
  then obtain s' where s': "run counting_sem list_once init_second ?s = Some s'" "hold s' 1 ''db'' = Some True"
    by auto
  from init_not_handed_out_again [OF lonce.once_factory_axioms r f d s'(1)] s' show ?thesis by auto
qed

text \<open>
  Calls of \<open>once.Get(name).Do\<close> never overlap. While the goroutine of one request is inside \<open>Do\<close> or
  waits for the lock of a container, no goroutine of another request on the same container has
  even started; only one step of one goroutine decides who initialises the container.
\<close>

theorem once_calls_serialised:
  assumes "sys_reach so oo s" and "sy_reqs s i = Some qi" and "sy_reqs s j = Some qj" and "i \<noteq> j"
    and "rq_phase qi = PLock" and "rq_phase qj = PLock" and "k \<in> keys_of qi" and "k \<in> keys_of qj"
  shows "is_locked (rq_go qi k) \<or> is_locked (rq_go qj k)"
proof (rule ccontr)
  assume n: "\<not> ?thesis"
  note inv = sys_reach_struct_inv [OF assms(1)]
  note oki = struct_invD(2) [OF inv assms(2), unfolded req_ok_def req_queued_def]
  note okj = struct_invD(2) [OF inv assms(3), unfolded req_ok_def req_queued_def]
  have i: "i \<in> set (ac_queue (ctl s))" "started (ctl s) i" "k \<in> wants (ctl s) i"
    using oki assms(5,7) n by (auto simp: locked_keys_def)
  have j: "j \<in> set (ac_queue (ctl s))" "started (ctl s) j" "k \<in> wants (ctl s) j"
    using okj assms(6,8) n by (auto simp: locked_keys_def)
  show False
    using adm.admitted_disjoint [OF struct_invD(1) [OF inv assms(2)] i(1) j(1) assms(4) i(2) j(2)] i(3) j(3)
    by blast
qed

definition second_starts :: "label list" where
  "second_starts =
     [Accept [(''db'', init_entry), (''kv'', excl_entry)], Accept [(''db'', init_entry)],
      Start 0, Enter 0 ''db'', Try 0 ''db'' False, Start 1]"

theorem once_calls_serialised_witness:
  "\<exists>qi qj. sy_reqs (example second_starts) 0 = Some qi \<and> sy_reqs (example second_starts) 1 = Some qj \<and>
     rq_phase qi = PLock \<and> rq_phase qj = PLock \<and> is_locked (rq_go qi ''db'')"
proof -
  let ?s = "example second_starts"
  have r: "sys_reach counting_sem list_once ?s" by (rule example_reach) code_simp
  have "map_option (\<lambda>q. (rq_phase q, ''db'' \<in> keys_of q)) (sy_reqs ?s 0) = Some (PLock, True)"
    "map_option (\<lambda>q. (rq_phase q, ''db'' \<in> keys_of q, rq_go q ''db'')) (sy_reqs ?s 1) = Some (PLock, True, GNew)"
    by code_simp+
  then obtain qi qj where q: "sy_reqs ?s 0 = Some qi" "rq_phase qi = PLock" "''db'' \<in> keys_of qi"
    "sy_reqs ?s 1 = Some qj" "rq_phase qj = PLock" "''db'' \<in> keys_of qj" "rq_go qj ''db'' = GNew"
    by auto
  from once_calls_serialised [OF r q(1,4) _ q(2,5,3,6)] q show ?thesis by auto
qed

text \<open>
  The error path of \<open>Acquire\<close> calls only the \<open>Unlock\<close> closures. In the following run the first request
  gets the initialisation of one container and is cancelled while it waits for another; the second
  request then locks the container after the first one has given it back.
\<close>

definition give_up_init :: "label list" where
  "give_up_init =
     [Accept [(''kv'', excl_entry)], Start 0, Enter 0 ''kv'', Try 0 ''kv'' False, WaitOk 0,
      Accept [(''db'', init_entry), (''kv'', excl_entry)], Start 1, Enter 1 ''db'', Try 1 ''db'' False,
      Enter 1 ''kv'', Try 1 ''kv'' True, WaitErr 1 [''db'', ''kv''],
      Accept [(''db'', init_entry)], Start 2, Enter 2 ''db'', Try 2 ''db'' False, WaitOk 2]"

text \<open>
  A failed acquisition can lose an initialisation. There is a run in which a request is granted
  the initialisation of a container and fails on another container, never reporting a result;
  afterwards a request that asks for the initialisation holds the container without it, although
  nobody has initialised the container, and no later request can get it.
\<close>

theorem failed_acquisition_loses_init:
  "phases (example give_up_init) = [Some PHeld, Some PFailed, Some PHeld] \<and>
   (\<exists>q cl. sy_reqs (example give_up_init) 2 = Some q \<and> rq_entry q ''db'' = Some init_entry \<and>
      rq_go q ''db'' = GLocked cl \<and> \<not> InitAcquired cl) \<and>
   fst (OnceDo list_once (lk_once (sy_locker (example give_up_init))) ''db'') = False"
proof -
  have "map_option (\<lambda>q. (rq_entry q ''db'', rq_go q ''db'')) (sy_reqs (example give_up_init) 2) =
    Some (Some init_entry, GLocked \<lparr>cl_name = ''db'', cl_init = False, cl_exclusive = True, cl_downgraded = 0\<rparr>)"
    by code_simp
  then have "\<exists>q cl. sy_reqs (example give_up_init) 2 = Some q \<and> rq_entry q ''db'' = Some init_entry \<and>
      rq_go q ''db'' = GLocked cl \<and> \<not> InitAcquired cl"
    by (auto simp: InitAcquired_def)
  moreover have "phases (example give_up_init) = [Some PHeld, Some PFailed, Some PHeld]" by code_simp
  moreover have "fst (OnceDo list_once (lk_once (sy_locker (example give_up_init))) ''db'') = False" by code_simp
  ultimately show ?thesis by blast
qed

text \<open>
  A request that enters \<open>Do\<close> while another one runs the initialisation is past the once; when that
  initialisation then fails, the request goes on to lock a container that nobody has initialised.
\<close>

definition fail_init :: "label list" where
  "fail_init =
     [Accept [(''db'', init_entry)], Start 0, Enter 0 ''db'', Try 0 ''db'' False, WaitOk 0,
      Accept [(''db'', init_entry)], Start 1, Enter 1 ''db'',
      InitResult 0 ''db'' False, ReleaseAll 0 [''db''], Try 1 ''db'' False, WaitOk 1]"

text \<open>
  A request that waits behind a failing initialisation uses the container uninitialised. There is
  a run in which the only initialisation ever attempted is reported as failed and a waiting request
  that asked for the initialisation afterwards holds the container without it, while the factory
  still owes it to the next caller.
\<close>

theorem waiting_request_skips_failed_init:
  "phases (example fail_init) = [Some PReleased, Some PHeld] \<and>
   (\<exists>q cl. sy_reqs (example fail_init) 1 = Some q \<and> rq_entry q ''db'' = Some init_entry \<and>
      rq_go q ''db'' = GLocked cl \<and> \<not> InitAcquired cl) \<and>
   fst (OnceDo list_once (lk_once (sy_locker (example fail_init))) ''db'') = True"
proof -
  have "map_option (\<lambda>q. (rq_entry q ''db'', rq_go q ''db'')) (sy_reqs (example fail_init) 1) =
    Some (Some init_entry, GLocked \<lparr>cl_name = ''db'', cl_init = False, cl_exclusive = True, cl_downgraded = 0\<rparr>)"
    by code_simp
  then have "\<exists>q cl. sy_reqs (example fail_init) 1 = Some q \<and> rq_entry q ''db'' = Some init_entry \<and>
      rq_go q ''db'' = GLocked cl \<and> \<not> InitAcquired cl"
    by (auto simp: InitAcquired_def)
  moreover have "phases (example fail_init) = [Some PReleased, Some PHeld]" by code_simp
  moreover have "fst (OnceDo list_once (lk_once (sy_locker (example fail_init))) ''db'') = True" by code_simp
  ultimately show ?thesis by blast
qed

end
