(* ===== verification/Exclusion_Control.thy ===== *)
theory Exclusion_Control
  imports Locker_Properties
begin

text \<open>
  The in-process \<open>control\<close> of internal/exclusion/control.go: \<open>LockForContainerUse\<close> acquires the locks of
  several containers, runs the initialisations it was handed, reports their results and gives
  everything back when one of them fails. A call is an \<open>Accept\<close> step of the Locker's transition
  system, the steps of the acquisition, and then \<open>use_finish\<close> below.
\<close>

section \<open>Operations\<close>

text \<open>What a user's \<open>Init\<close> function does when it is called: return nil, return an error, or panic.\<close>

datatype init_outcome = InitOk | InitErr go_error | InitPanic string

record use_param =
  up_exclusive :: bool
  up_init :: "init_outcome option"

text \<open>\<open>initSafe\<close> turns a panic into an error; calling a nil function panics too.\<close>

definition initSafe :: "init_outcome option \<Rightarrow> go_error option" where
  "initSafe init =
     (case init of
        None \<Rightarrow> Some (ErrorString ''runtime error: invalid memory address or nil pointer dereference'')
      | Some InitOk \<Rightarrow> None
      | Some (InitErr e) \<Rightarrow> Some e
      | Some (InitPanic v) \<Rightarrow> Some (ErrorString v))"

definition use_entries :: "(string, use_param) go_map \<Rightarrow> (string \<times> acquire_entry) list" where
  "use_entries params =
     map (\<lambda>(name, param). (name, \<lparr>en_exclusive = up_exclusive param, en_init = (up_init param \<noteq> None)\<rparr>)) params"

definition use_begin ::
  "'s sem_ops \<Rightarrow> 'o once_ops \<Rightarrow> (string, use_param) go_map \<Rightarrow> ('s, 'o) sys \<Rightarrow> (go_panic + ('s, 'o) sys) option" where
  "use_begin so oo params s = step so oo (Accept (use_entries params)) s"

text \<open>\<open>entry.ContainerLock()\<close> of a request: the lock of one of its containers, or nil.\<close>

definition lock_of :: "('s, 'o) sys \<Rightarrow> nat \<Rightarrow> string \<Rightarrow> container_lock option" where
  "lock_of s r name =
     (case sy_reqs s r of
        None \<Rightarrow> None
      | Some q \<Rightarrow> (case rq_go q name of GLocked cl \<Rightarrow> Some cl | _ \<Rightarrow> None))"

text \<open>
  The loop over the entries, in the iteration order of the map: the state after it, the error of the
  first initialisation that failed, and the initialisations that were called.
\<close>

fun use_init_loop ::
  "'s sem_ops \<Rightarrow> 'o once_ops \<Rightarrow> nat \<Rightarrow> (string, use_param) go_map \<Rightarrow> string list \<Rightarrow> ('s, 'o) sys \<Rightarrow>
     go_error option \<Rightarrow> string list \<Rightarrow> go_panic + (('s, 'o) sys \<times> go_error option \<times> string list)" where
  "use_init_loop so oo r params [] s initErr called = Inr (s, initErr, called)"
| "use_init_loop so oo r params (name # names) s initErr called =
     (case lock_of s r name of
        None \<Rightarrow> Inl NilDereference
      | Some lock \<Rightarrow>
          if InitAcquired lock then
            (let (initErr', called') =
                   (if initErr = None
                    then (initSafe (Option.bind (map_of params name) up_init), called @ [name])
                    else (initErr, called))
             in case step so oo (InitResult r name (initErr' = None)) s of
                  Some (Inr s') \<Rightarrow> use_init_loop so oo r params names s' initErr' called'
                | Some (Inl p) \<Rightarrow> Inl p
                | None \<Rightarrow> Inl NilDereference)
          else use_init_loop so oo r params names s initErr called)"

text \<open>
  What \<open>LockForContainerUse\<close> does once \<open>AcquireContainerLock\<close> has returned: \<open>order\<close> is the iteration order
  of the loop and \<open>order'\<close> that of the release. The result is the error, if any; without one the
  caller holds the locks.
\<close>

definition use_finish ::
  "'s sem_ops \<Rightarrow> 'o once_ops \<Rightarrow> nat \<Rightarrow> (string, use_param) go_map \<Rightarrow> string list \<Rightarrow> string list \<Rightarrow>
     ('s, 'o) sys \<Rightarrow> go_panic + (('s, 'o) sys \<times> go_error option \<times> string list)" where
  "use_finish so oo r params order order' s =
     (case use_init_loop so oo r params order s None [] of
        Inl p \<Rightarrow> Inl p
      | Inr (s', initErr, called) \<Rightarrow>
          if initErr \<noteq> None then
            (case step so oo (ReleaseAll r order') s' of
               Some (Inr s'') \<Rightarrow> Inr (s'', initErr, called)
             | Some (Inl p) \<Rightarrow> Inl p
             | None \<Rightarrow> Inl NilDereference)
          else Inr (s', None, called))"

section \<open>Locks fit the entries they were taken for\<close>

text \<open>
  The lock of a container is named after it and has the mode of its entry; it comes with the initialisation only if
  the entry asked for that; and its atomic is 0 or 1: 0 when the lock is exclusive, 1 when it was taken as a shared one.
\<close>

definition lock_fits :: "string \<Rightarrow> acquire_entry \<Rightarrow> container_lock \<Rightarrow> bool" where
  "lock_fits k p cl \<longleftrightarrow>
     cl_name cl = k \<and> cl_exclusive cl = en_exclusive p \<and> (cl_init cl \<longrightarrow> en_init p) \<and> cl_downgraded cl \<in> {0, 1} \<and>
     (en_exclusive p \<longrightarrow> cl_downgraded cl = 0) \<and> (\<not> cl_init cl \<and> \<not> en_exclusive p \<longrightarrow> cl_downgraded cl = 1)"

definition lock_shape :: "req \<Rightarrow> bool" where
  "lock_shape q \<longleftrightarrow>
     (\<forall>k cl. rq_go q k = GLocked cl \<longrightarrow> (\<exists>p. rq_entry q k = Some p \<and> lock_fits k p cl))"

lemma lock_shape_set_go:
  assumes "lock_shape q" and "\<And>cl. g = GLocked cl \<Longrightarrow> \<exists>p. rq_entry q k = Some p \<and> lock_fits k p cl"
  shows "lock_shape (set_go q k g)"
  using assms by (auto simp: lock_shape_def)

lemma new_lock_fits: "(i \<longrightarrow> en_init p) \<Longrightarrow> lock_fits k p (new_container_lock k p i)"
  by (simp add: lock_fits_def new_container_lock_def)

text \<open>A goroutine is inside \<open>Do\<close> only for an entry that asked for the initialisation.\<close>

definition init_asked :: "req \<Rightarrow> bool" where
  "init_asked q \<longleftrightarrow> (\<forall>k. rq_go q k = GInit \<longrightarrow> (\<exists>p. rq_entry q k = Some p \<and> en_init p))"

definition locks_fit :: "('s, 'o) sys \<Rightarrow> bool" where
  "locks_fit s \<longleftrightarrow> (\<forall>r q. sy_reqs s r = Some q \<longrightarrow> lock_shape q \<and> init_asked q)"

lemma locks_fit_set_req:
  "locks_fit s \<Longrightarrow> lock_shape q \<Longrightarrow> init_asked q \<Longrightarrow> locks_fit (set_req r q l s)"
  by (simp add: locks_fit_def)

lemma locks_fit_unlocked:
  "lock_shape (q\<lparr>rq_phase := ph, rq_go := unlocked_go go\<rparr>)"
  by (auto simp: lock_shape_def unlocked_go_def split: if_splits)

lemma init_asked_unlocked: "init_asked q \<Longrightarrow> init_asked (q\<lparr>rq_phase := ph, rq_go := unlocked_go (rq_go q)\<rparr>)"
  by (auto simp: init_asked_def unlocked_go_def split: if_splits)

lemma phase_fit [simp]: "lock_shape (q\<lparr>rq_phase := ph\<rparr>) = lock_shape q" "init_asked (q\<lparr>rq_phase := ph\<rparr>) = init_asked q"
  by (simp_all add: lock_shape_def init_asked_def)

lemma SetInitResult_lock:
  assumes "SetInitResult so oo l cl ok = Inr (l', cl')"
  shows "cl_name cl' = cl_name cl \<and> cl_init cl' = cl_init cl \<and> cl_exclusive cl' = cl_exclusive cl \<and>
    (cl_downgraded cl' = cl_downgraded cl \<or> \<not> cl_exclusive cl \<and> cl_init cl \<and> cl_downgraded cl = 0 \<and> cl_downgraded cl' = 1) \<and>
    (cl_init cl \<and> ok \<and> \<not> cl_exclusive cl \<longrightarrow> cl_downgraded cl' \<noteq> 0)"
  using assms by (auto simp: SetInitResult_def split: if_splits sum.splits)

lemma locks_fit_init_result:
  assumes f: "locks_fit s" and q: "sy_reqs s r = Some q" and st: "do_init_result so oo r q k ok s = Some (Inr s')"
  shows "locks_fit s'"
proof -
  obtain cl l cl' where cl: "rq_go q k = GLocked cl" and si: "SetInitResult so oo (sy_locker s) cl ok = Inr (l, cl')"
    and s': "s' = set_req r (set_go q k (GLocked cl')) l s"
    using st by (elim do_init_result_Inr)
  have sh: "lock_shape q" "init_asked q" using f q by (auto simp: locks_fit_def)
  obtain p where p: "rq_entry q k = Some p" "lock_fits k p cl"
    using sh(1) cl unfolding lock_shape_def by blast
  then have "lock_fits k p cl'" using SetInitResult_lock [OF si] by (auto simp: lock_fits_def)
  then have "lock_shape (set_go q k (GLocked cl'))" using p by (intro lock_shape_set_go [OF sh(1)]) simp
  then show ?thesis unfolding s' using f sh by (intro locks_fit_set_req) (auto simp: init_asked_def)
qed

lemma locks_fit_try:
  assumes f: "locks_fit s" and q: "sy_reqs s r = Some q" and st: "do_try so oo r q k d s = Some s'"
  shows "locks_fit s'"
  using st
proof (cases rule: do_try_cases)
  case (granted p l)
  have sh: "lock_shape q" "init_asked q" using f q by (auto simp: locks_fit_def)
  then have "rq_go q k = GInit \<Longrightarrow> en_init p" using granted(1) by (auto simp: init_asked_def)
  then have "lock_shape (set_go q k (GLocked (new_container_lock k p (rq_go q k = GInit))))"
    using sh(1) granted(1) by (intro lock_shape_set_go) (auto simp: new_lock_fits)
  then show ?thesis unfolding granted(5) using f sh by (intro locks_fit_set_req) (auto simp: init_asked_def)
next
  case (failed p l)
  have sh: "lock_shape q" "init_asked q" using f q by (auto simp: locks_fit_def)
  then show ?thesis unfolding failed(5) using f
    by (intro locks_fit_set_req lock_shape_set_go) (auto simp: init_asked_def)
qed

lemma locks_fit_enter:
  assumes f: "locks_fit s" and q: "sy_reqs s r = Some q" and st: "do_enter oo r q k s = Some s'"
  shows "locks_fit s'"
proof -
  have sh: "lock_shape q" "init_asked q" using f q by (auto simp: locks_fit_def)
  obtain p g l where p: "rq_entry q k = Some p" and gl: "lock_enter oo (sy_locker s) k p = (g, l)"
    and s': "s' = set_req r (set_go q k g) l s"
    using st by (auto simp: do_enter_def split: option.splits if_splits prod.splits)
  have "g = GPlain \<or> g = GInit \<and> en_init p"
    using gl by (auto simp: lock_enter_def case_prod_beta split: if_splits)
  then show ?thesis unfolding s' using f sh p
    by (intro locks_fit_set_req lock_shape_set_go) (auto simp: init_asked_def)
qed

lemma locks_fit_step:
  assumes f: "locks_fit s" and st: "step so oo a s = Some (Inr s')"
  shows "locks_fit s'"
proof (cases a)
  case (Accept es)
  then show ?thesis
    using st f by (auto simp: do_accept_def Let_def case_prod_beta lock_shape_def init_asked_def
        split: if_splits intro!: locks_fit_set_req)
qed (use st f locks_fit_enter [OF f] locks_fit_try [OF f] locks_fit_init_result [OF f] in
    \<open>auto simp: with_req_def do_start_def do_cancel_def do_wait_ok_def do_wait_err_def do_release_def Let_def
       locks_fit_def map_sum_Inr locks_fit_unlocked init_asked_unlocked split: option.splits if_splits\<close>)

lemma sys_reach_locks_fit: "sys_reach so oo s \<Longrightarrow> locks_fit s"
proof (induction rule: sys_reach.induct)
  case start
  show ?case by (simp add: locks_fit_def NewSys_def)
qed (rule locks_fit_step)

section \<open>One call of LockForContainerUse\<close>

text \<open>A request that has been granted all its locks for the given parameters.\<close>

definition held_use :: "'s sem_ops \<Rightarrow> 'o once_ops \<Rightarrow> ('s, 'o) sys \<Rightarrow> nat \<Rightarrow> (string, use_param) go_map \<Rightarrow> bool" where
  "held_use so oo s r params \<longleftrightarrow>
     sys_reach so oo s \<and>
     (\<exists>q. sy_reqs s r = Some q \<and> rq_phase q = PHeld \<and> rq_entries q = use_entries params)"

definition acquired :: "('s, 'o) sys \<Rightarrow> nat \<Rightarrow> string \<Rightarrow> bool" where
  "acquired s r k \<longleftrightarrow> (\<exists>cl. lock_of s r k = Some cl \<and> InitAcquired cl)"

text \<open>Does the initialisation of a container succeed when it is called?\<close>

definition init_succeeds :: "(string, use_param) go_map \<Rightarrow> string \<Rightarrow> bool" where
  "init_succeeds params name \<longleftrightarrow> initSafe (Option.bind (map_of params name) up_init) = None"

lemma use_entries_keys [simp]: "map fst (use_entries params) = map fst params"
  by (induction params) (auto simp: use_entries_def)

lemma map_of_use_entries:
  "map_of (use_entries params) k =
     map_option (\<lambda>p. \<lparr>en_exclusive = up_exclusive p, en_init = (up_init p \<noteq> None)\<rparr>) (map_of params k)"
  by (induction params) (auto simp: use_entries_def)

lemma held_use_lock:
  assumes "held_use so oo s r params" and "k \<in> set (map fst params)"
  obtains q cl where "sy_reqs s r = Some q" "rq_phase q = PHeld" "rq_go q k = GLocked cl" "lock_of s r k = Some cl"
proof -
  obtain q where q: "sy_reqs s r = Some q" "rq_phase q = PHeld" "rq_entries q = use_entries params"
    using assms(1) by (auto simp: held_use_def)
  have "req_shape q"
    using assms(1) struct_invD(2) [OF sys_reach_struct_inv q(1)] by (auto simp: held_use_def req_ok_def)
  then have "is_locked (rq_go q k)"
    using q assms(2) by (auto simp: req_shape_def keys_of_def locked_keys_def subset_iff)
  then show thesis using q that by (auto simp: lock_of_def dest!: is_lockedE)
qed

text \<open>How reporting the result of one initialisation changes the state.\<close>

definition reported :: "'s sem_ops \<Rightarrow> 'o once_ops \<Rightarrow> nat \<Rightarrow> string \<Rightarrow> bool \<Rightarrow> ('s, 'o) sys \<Rightarrow> ('s, 'o) sys \<Rightarrow> bool" where
  "reported so oo r k ok s s' \<longleftrightarrow>
     (\<exists>cl cl'. lock_of s r k = Some cl \<and> lock_of s' r k = Some cl' \<and> cl_name cl = k \<and>
        SetInitResult so oo (sy_locker s) cl ok = Inr (sy_locker s', cl')) \<and>
     (\<forall>n. n \<noteq> k \<longrightarrow> lock_of s' r n = lock_of s r n)"

context weighted_semaphore
begin

lemma init_result_step:
  assumes h: "held_use so oo s r params" and k: "k \<in> set (map fst params)"
  shows "\<exists>s'. step so oo (InitResult r k ok) s = Some (Inr s') \<and> held_use so oo s' r params \<and>
    reported so oo r k ok s s'"
proof -
  obtain q cl where q: "sy_reqs s r = Some q" "rq_phase q = PHeld" "rq_go q k = GLocked cl" "lock_of s r k = Some cl"
    using h k by (rule held_use_lock)
  have re: "sys_reach so oo s" and es: "rq_entries q = use_entries params"
    using h q by (auto simp: held_use_def)
  have "req_shape q" using struct_invD(2) [OF sys_reach_struct_inv [OF re] q(1)] by (simp add: req_ok_def)
  then have nm: "cl_name cl = k" using q by (simp add: req_shape_def)
  have "\<exists>x. step so oo (InitResult r k ok) s = Some x" using q by (simp add: with_req_def do_init_result_def)
  then obtain s' where st: "step so oo (InitResult r k ok) s = Some (Inr s')"
    using lock_ok_step [OF sys_reach_struct_inv [OF re] sys_reach_locks_ok [OF re]] by blast
  then have "do_init_result so oo r q k ok s = Some (Inr s')" using q by (simp add: with_req_def)
  then obtain l cl' where si: "SetInitResult so oo (sy_locker s) cl ok = Inr (l, cl')"
    and s': "s' = set_req r (set_go q k (GLocked cl')) l s"
    by (rule do_init_result_Inr) (use q in auto)
  have "held_use so oo s' r params"
    using sys_reach.step [OF re st] q es unfolding held_use_def by (auto simp: s')
  moreover have "reported so oo r k ok s s'"
    using q si nm by (auto simp: reported_def s' lock_of_def)
  ultimately show ?thesis using st by blast
qed

end

lemma SetInitResult_once:
  assumes "SetInitResult so oo l cl ok = Inr (l', cl')"
  shows "lk_once l' = (if cl_init cl \<and> \<not> ok then OnceRefresh oo (lk_once l) (cl_name cl) else lk_once l)"
  using assms by (auto simp: SetInitResult_def split: if_splits sum.splits)

lemma reportedE:
  assumes "reported so oo r k ok s s'"
  obtains cl cl' where "lock_of s r k = Some cl" "lock_of s' r k = Some cl'" "cl_init cl' = cl_init cl"
    "cl_exclusive cl' = cl_exclusive cl" "cl_downgraded cl \<noteq> 0 \<longrightarrow> cl_downgraded cl' \<noteq> 0"
    "cl_init cl \<and> ok \<and> \<not> cl_exclusive cl \<longrightarrow> cl_downgraded cl' \<noteq> 0"
    "lk_once (sy_locker s') =
       (if cl_init cl \<and> \<not> ok then OnceRefresh oo (lk_once (sy_locker s)) k else lk_once (sy_locker s))"
proof -
  obtain cl cl' where c: "lock_of s r k = Some cl" "lock_of s' r k = Some cl'" "cl_name cl = k"
    and si: "SetInitResult so oo (sy_locker s) cl ok = Inr (sy_locker s', cl')"
    using assms unfolding reported_def by blast
  show thesis using that [OF c(1,2)] SetInitResult_lock [OF si] SetInitResult_once [OF si] c(3) by fastforce
qed

lemma reported_other: "reported so oo r k ok s s' \<Longrightarrow> n \<noteq> k \<Longrightarrow> lock_of s' r n = lock_of s r n"
  by (simp add: reported_def)

lemma reported_flags:
  assumes "reported so oo r k ok s s'"
  shows "acquired s' r n \<longleftrightarrow> acquired s r n"
  using assms reported_other [OF assms, of n]
  by (cases "n = k") (auto simp: acquired_def InitAcquired_def elim!: reportedE)

text \<open>A lock is shared when it is neither exclusive nor still in the exclusive mode of the initialisation.\<close>

definition is_shared :: "('s, 'o) sys \<Rightarrow> nat \<Rightarrow> string \<Rightarrow> bool" where
  "is_shared s r k \<longleftrightarrow> (\<exists>cl. lock_of s r k = Some cl \<and> \<not> cl_exclusive cl \<and> cl_downgraded cl \<noteq> 0)"

definition is_excl :: "('s, 'o) sys \<Rightarrow> nat \<Rightarrow> string \<Rightarrow> bool" where
  "is_excl s r k \<longleftrightarrow> (\<exists>cl. lock_of s r k = Some cl \<and> cl_exclusive cl)"

lemma reported_modes:
  assumes "reported so oo r k ok s s'"
  shows "is_excl s' r n \<longleftrightarrow> is_excl s r n" and "is_shared s r n \<Longrightarrow> is_shared s' r n"
    and "ok \<Longrightarrow> acquired s r k \<Longrightarrow> \<not> is_excl s r k \<Longrightarrow> is_shared s' r k"
  using assms reported_other [OF assms, of n]
  by (cases "n = k"; auto simp: is_excl_def is_shared_def acquired_def InitAcquired_def elim!: reportedE)+

context once_factory
begin

lemma reported_fresh:
  assumes "reported so oo r k ok s s'"
  shows "fresh (lk_once (sy_locker s)) n \<Longrightarrow> fresh (lk_once (sy_locker s')) n"
    and "\<not> ok \<Longrightarrow> acquired s r k \<Longrightarrow> fresh (lk_once (sy_locker s')) k"
  using assms
  by (auto simp: acquired_def InitAcquired_def refresh_fresh elim!: reportedE split: if_splits)

end

section \<open>The loop over the initialisations\<close>

text \<open>The initialisations that are called: up to and including the first one that fails.\<close>

fun attempted :: "('a \<Rightarrow> bool) \<Rightarrow> 'a list \<Rightarrow> 'a list" where
  "attempted P [] = []"
| "attempted P (n # ns) = n # (if P n then attempted P ns else [])"

lemma attempted_all: "list_all P ns \<Longrightarrow> attempted P ns = ns"
  by (induction ns) auto

text \<open>What the loop leaves behind, for the names \<open>A\<close> of the containers whose initialisation was acquired.\<close>

definition loop_post ::
  "(string, use_param) go_map \<Rightarrow> nat \<Rightarrow> string list \<Rightarrow> ('s, 'o) sys \<Rightarrow> go_error option \<Rightarrow> string list \<Rightarrow>
     ('s, 'o) sys \<Rightarrow> go_error option \<Rightarrow> string list \<Rightarrow> bool" where
  "loop_post params r A s e c s' e' c' \<longleftrightarrow>
     (\<forall>n. acquired s' r n = acquired s r n \<and> is_excl s' r n = is_excl s r n \<and> (is_shared s r n \<longrightarrow> is_shared s' r n)) \<and>
     (e \<noteq> None \<longrightarrow> e' = e \<and> c' = c) \<and>
     (e = None \<longrightarrow> c' = c @ attempted (init_succeeds params) A \<and> (e' = None \<longleftrightarrow> list_all (init_succeeds params) A)) \<and>
     (e' = None \<longrightarrow> (\<forall>n \<in> set A. \<not> is_excl s r n \<longrightarrow> is_shared s' r n))"

context weighted_semaphore
begin

lemma use_loop_cases:
  assumes h: "held_use so oo s r params" and name: "name \<in> set (map fst params)"
  obtains (skip) "\<not> acquired s r name"
      "use_init_loop so oo r params (name # names) s e c = use_init_loop so oo r params names s e c"
  | (run) s1 e1 c1 where "acquired s r name" "held_use so oo s1 r params"
      "reported so oo r name (e1 = None) s s1"
      "(e1, c1) = (if e = None then (initSafe (Option.bind (map_of params name) up_init), c @ [name]) else (e, c))"
      "use_init_loop so oo r params (name # names) s e c = use_init_loop so oo r params names s1 e1 c1"
proof -
  obtain cl where cl: "lock_of s r name = Some cl" using held_use_lock [OF h name] by metis
  show thesis
  proof (cases "InitAcquired cl")
    case False
    then show thesis using skip cl by (simp add: acquired_def)
  next
    case True
    obtain e1 c1 where e1: "(e1, c1) =
        (if e = None then (initSafe (Option.bind (map_of params name) up_init), c @ [name]) else (e, c))"
      by (metis surj_pair)
    obtain s1 where s1: "step so oo (InitResult r name (e1 = None)) s = Some (Inr s1)"
      "held_use so oo s1 r params" "reported so oo r name (e1 = None) s s1"
      using init_result_step [OF h name] by blast
    have "use_init_loop so oo r params (name # names) s e c = use_init_loop so oo r params names s1 e1 c1"
      unfolding use_init_loop.simps e1 [symmetric] using cl True s1(1) by simp
    moreover have "acquired s r name" using cl True by (simp add: acquired_def)
    ultimately show thesis using run s1(2,3) e1 by blast
  qed
qed

lemma use_loop_spec:
  assumes "held_use so oo s r params" and "set names \<subseteq> set (map fst params)"
  shows "\<exists>s' e' c'. use_init_loop so oo r params names s e c = Inr (s', e', c') \<and> held_use so oo s' r params \<and>
    loop_post params r (filter (acquired s r) names) s e c s' e' c'"
  using assms
proof (induction names arbitrary: s e c)
  case Nil
  then show ?case by (simp add: loop_post_def)
next
  case (Cons name names)
  have name: "name \<in> set (map fst params)" and rest: "set names \<subseteq> set (map fst params)" using Cons.prems by auto
  from Cons.prems(1) name show ?case
  proof (cases rule: use_loop_cases [where names = names and e = e and c = c])
    case skip
    then show ?thesis using Cons.IH [OF Cons.prems(1) rest, of e c] by simp
  next
    case (run s1 e1 c1)
    obtain s' e' c' where IH: "use_init_loop so oo r params names s1 e1 c1 = Inr (s', e', c')"
      "held_use so oo s' r params" "loop_post params r (filter (acquired s1 r) names) s1 e1 c1 s' e' c'"
      using Cons.IH [OF run(2) rest, of e1 c1] by blast
    have acq: "acquired s1 r = acquired s r" using reported_flags [OF run(3)] by blast
    have "loop_post params r (name # filter (acquired s r) names) s e c s' e' c'"
      using IH(3) run(4) reported_modes [OF run(3)] run(1)
      unfolding loop_post_def acq by (auto simp: init_succeeds_def split: if_splits)
    then show ?thesis using IH(1,2) run(1,5) by auto
  qed
qed

end

context weighted_semaphore
begin

lemma use_loop_fresh:
  assumes oc: "once_factory oo fresh" and "held_use so oo s r params" and "set names \<subseteq> set (map fst params)"
    and "use_init_loop so oo r params names s e c = Inr (s', e', c')"
  shows "(fresh (lk_once (sy_locker s)) n \<longrightarrow> fresh (lk_once (sy_locker s')) n) \<and>
    (e' \<noteq> None \<and> n \<in> set names \<and> acquired s r n \<and>
       (e = None \<longrightarrow> n \<notin> set (takeWhile (init_succeeds params) (filter (acquired s r) names))) \<longrightarrow>
     fresh (lk_once (sy_locker s')) n)"
  using assms(2-4)
proof (induction names arbitrary: s e c)
  case (Cons name names)
  have name: "name \<in> set (map fst params)" and rest: "set names \<subseteq> set (map fst params)" using Cons.prems by auto
  from Cons.prems(1) name show ?case
  proof (cases rule: use_loop_cases [where names = names and e = e and c = c])
    case skip
    then show ?thesis using Cons.IH [OF Cons.prems(1) rest, of e c] Cons.prems(3) by auto
  next
    case (run s1 e1 c1)
    have acq: "acquired s1 r = acquired s r" using reported_flags [OF run(3)] by blast
    note IH = Cons.IH [OF run(2) rest, of e1 c1, unfolded acq]
    have eq: "use_init_loop so oo r params names s1 e1 c1 = Inr (s', e', c')" using run(5) Cons.prems(3) by simp
    have ok: "e = None \<Longrightarrow> e1 = None \<longleftrightarrow> init_succeeds params name" "e \<noteq> None \<Longrightarrow> e1 \<noteq> None"
      using run(4) by (auto simp: init_succeeds_def split: if_splits)
    show ?thesis
      using IH [OF eq] once_factory.reported_fresh [OF oc run(3)] run(1) ok
      by (cases "init_succeeds params name") auto
  qed
qed simp

lemma release_step:
  assumes h: "held_use so oo s r params" and o: "distinct order" "set order = set (map fst params)"
  shows "\<exists>s'. step so oo (ReleaseAll r order) s = Some (Inr s') \<and> sys_reach so oo s' \<and>
    (\<forall>k. hold s' r k = None) \<and> lk_once (sy_locker s') = lk_once (sy_locker s)"
proof -
  obtain q where q: "sy_reqs s r = Some q" "rq_phase q = PHeld" "rq_entries q = use_entries params"
    and re: "sys_reach so oo s" using h by (auto simp: held_use_def)
  have "\<exists>x. step so oo (ReleaseAll r order) s = Some x"
    using q o by (simp add: with_req_def do_release_def keys_of_def flip: set_map)
  then obtain s' where st: "step so oo (ReleaseAll r order) s = Some (Inr s')"
    using lock_ok_step [OF sys_reach_struct_inv [OF re] sys_reach_locks_ok [OF re]] by blast
  then have "do_release so r q order s = Some (Inr s')" using q by (simp add: with_req_def)
  then obtain l where l: "unlock_all so (sy_locker s) (rq_go q) order = Inr l"
    "s' = set_req r (q\<lparr>rq_phase := PReleased, rq_go := unlocked_go (rq_go q)\<rparr>) l s"
    by (rule do_release_Inr)
  have "hold s' r k = None" for k
    by (simp add: l(2) hold_def mode_None unlocked_go_def)
  then show ?thesis using st sys_reach.step [OF re st] unlock_all_once [OF l(1)] l(2) by auto
qed

end

lemma held_modes:
  assumes h: "held_use so oo s r params" and k: "map_of params k = Some p"
  shows "is_excl s r k \<longleftrightarrow> up_exclusive p"
    and "hold s r k = Some (up_exclusive p) \<longleftrightarrow> (up_exclusive p \<or> is_shared s r k)"
    and "\<not> acquired s r k \<Longrightarrow> \<not> up_exclusive p \<Longrightarrow> is_shared s r k"
proof -
  have "k \<in> set (map fst params)" using k by (force dest: map_of_SomeD)
  with h obtain q cl where q: "sy_reqs s r = Some q" "rq_go q k = GLocked cl" "lock_of s r k = Some cl"
    by (rule held_use_lock)
  have re: "sys_reach so oo s" and es: "rq_entries q = use_entries params"
    using h q(1) by (auto simp: held_use_def)
  have sh: "lock_shape q" using sys_reach_locks_fit [OF re] q(1) by (simp add: locks_fit_def)
  have c: "cl_exclusive cl = up_exclusive p" "cl_init cl \<or> up_exclusive p \<or> cl_downgraded cl \<noteq> 0"
    using sh [unfolded lock_shape_def, rule_format, OF q(2)] k by (auto simp: es map_of_use_entries lock_fits_def)
  show "is_excl s r k \<longleftrightarrow> up_exclusive p" "\<not> acquired s r k \<Longrightarrow> \<not> up_exclusive p \<Longrightarrow> is_shared s r k"
    using c q(3) by (auto simp: is_excl_def is_shared_def acquired_def InitAcquired_def)
  show "hold s r k = Some (up_exclusive p) \<longleftrightarrow> (up_exclusive p \<or> is_shared s r k)"
    using c q by (auto simp: hold_def mode_def is_shared_def)
qed

context weighted_semaphore
begin

lemma use_finish_ok:
  assumes h: "held_use so oo s r params" and o: "set order = set (map fst params)"
    and ok: "list_all (init_succeeds params) (filter (acquired s r) order)"
  shows "\<exists>s'. use_finish so oo r params order order' s = Inr (s', None, filter (acquired s r) order) \<and>
    held_use so oo s' r params \<and> (\<forall>k p. map_of params k = Some p \<longrightarrow> hold s' r k = Some (up_exclusive p))"
proof -
  let ?A = "filter (acquired s r) order"
  obtain s' e' c' where l: "use_init_loop so oo r params order s None [] = Inr (s', e', c')"
    "held_use so oo s' r params" "loop_post params r ?A s None [] s' e' c'"
    using use_loop_spec [OF h] o by blast
  have e: "e' = None" "c' = ?A" using l(3) ok by (auto simp: loop_post_def attempted_all)
  have "hold s' r k = Some (up_exclusive p)" if k: "map_of params k = Some p" for k p
  proof -
    have "k \<in> set order" using k o by (force dest: map_of_SomeD)
    then have "up_exclusive p \<or> is_shared s' r k"
      using l(3) e(1) held_modes(1,3) [OF h k] by (auto simp: loop_post_def)
    then show ?thesis using held_modes(2) [OF l(2) k] by simp
  qed
  then show ?thesis using l(1,2) e by (auto simp: use_finish_def)
qed

lemma use_finish_err:
  assumes h: "held_use so oo s r params" and o: "set order = set (map fst params)"
    and o': "distinct order'" "set order' = set (map fst params)"
    and fails: "\<not> list_all (init_succeeds params) (filter (acquired s r) order)"
  shows "\<exists>s1 s' err. use_init_loop so oo r params order s None [] =
      Inr (s1, Some err, attempted (init_succeeds params) (filter (acquired s r) order)) \<and>
    use_finish so oo r params order order' s =
      Inr (s', Some err, attempted (init_succeeds params) (filter (acquired s r) order)) \<and>
    sys_reach so oo s' \<and> (\<forall>k. hold s' r k = None) \<and> lk_once (sy_locker s') = lk_once (sy_locker s1)"
proof -
  let ?A = "filter (acquired s r) order"
  obtain s1 e' c' where l: "use_init_loop so oo r params order s None [] = Inr (s1, e', c')"
    "held_use so oo s1 r params" "loop_post params r ?A s None [] s1 e' c'"
    using use_loop_spec [OF h] o by blast
  obtain err where e: "e' = Some err" "c' = attempted (init_succeeds params) ?A"
    using l(3) fails by (auto simp: loop_post_def)
  obtain s' where s': "step so oo (ReleaseAll r order') s1 = Some (Inr s')" "sys_reach so oo s'"
    "\<forall>k. hold s' r k = None" "lk_once (sy_locker s') = lk_once (sy_locker s1)"
    using release_step [OF l(2) o'] by blast
  have "use_finish so oo r params order order' s = Inr (s', Some err, c')"
    using l(1) e s'(1) by (simp add: use_finish_def)
  then show ?thesis using l(1) s' e by blast
qed

end

section \<open>Main properties\<close>

text \<open>
  An example call: two containers, a shared one with an initialisation and an exclusive one with an
  initialisation whose outcome is a parameter.
\<close>

definition use_example :: "init_outcome \<Rightarrow> (string, use_param) go_map" where
  "use_example out =
     [(''db'', \<lparr>up_exclusive = False, up_init = Some InitOk\<rparr>), (''kv'', \<lparr>up_exclusive = True, up_init = Some out\<rparr>)]"

definition use_granted :: "label list" where
  "use_granted =
     [Accept (use_entries (use_example InitOk)), Start 0, Enter 0 ''db'', Enter 0 ''kv'', Try 0 ''kv'' False,
      Try 0 ''db'' False, WaitOk 0]"

lemma use_granted_held: "held_use counting_sem list_once (example use_granted) 0 (use_example out)"
proof -
  have r: "sys_reach counting_sem list_once (example use_granted)" by (rule example_reach) code_simp
  have "map_option (\<lambda>q. (rq_phase q, rq_entries q)) (sy_reqs (example use_granted) 0) =
    Some (PHeld, use_entries (use_example InitOk))" by code_simp
  then show ?thesis using r by (auto simp: held_use_def use_entries_def use_example_def)
qed

lemma use_granted_acquired:
  "acquired (example use_granted) 0 ''kv''" "acquired (example use_granted) 0 ''db''"
proof -
  have "map_option InitAcquired (lock_of (example use_granted) 0 ''kv'') = Some True"
    "map_option InitAcquired (lock_of (example use_granted) 0 ''db'') = Some True" by code_simp+
  then show "acquired (example use_granted) 0 ''kv''" "acquired (example use_granted) 0 ''db''"
    by (auto simp: acquired_def)
qed



text \<open>
  C21: The weights stay in range. In every reachable state the semaphore of a container has the capacity it was made
  with, and the weight in use, an int64, is between 0 and that capacity: it is the number of shared holders, or the
  whole capacity for an exclusive one. So no addition of the code overflows and no release goes below 0.
\<close>

theorem container_weights_bounded:
  assumes "weighted_semaphore so cur size_of" and "sys_reach so oo s" and "klm (use_lock s) k = Some w"
  shows "size_of w = max_weight \<and> 0 \<le> cur w \<and> cur w \<le> max_weight \<and> max_weight < 2 ^ 63 \<and>
    (if \<exists>r. hold s r k = Some True then cur w = max_weight else cur w = int (card {r. hold s r k = Some False}))"
proof -
  have h: "holds_key cur size_of (Some w) (shared_by (hold s) k) (excl_by (hold s) k)"
    using weighted_semaphore.sys_reach_locks_ok [OF assms(1,2)] assms(3) by (simp add: lock_ok_def kl_holds_def) metis
  then have w: "size_of w = max_weight" "cur w = weight_of (shared_by (hold s) k) (excl_by (hold s) k)" "cur w \<le> max_weight"
    by (simp_all add: holds_key_def)
  have "cur w = max_weight" if "hold s r k = Some True" for r
    using holds_key_writer [OF h, of r] that w(2) by (simp add: excl_by_def weight_of_def)
  moreover have "cur w = int (card {r. hold s r k = Some False})" if "\<nexists>r. hold s r k = Some True"
    using w(2) that by (simp add: weight_of_def excl_by_def shared_by_def)
  moreover have "0 \<le> cur w" using max_weight_big by (simp add: w(2) weight_of_def)
  ultimately show ?thesis using w by (auto simp: max_weight_def)
qed

theorem container_weights_bounded_witness:
  "\<exists>w. klm (use_lock (example use_granted)) ''db'' = Some w \<and> fst w = max_weight \<and>
     0 \<le> fst w \<and> snd w = max_weight"
proof -
  have r: "sys_reach counting_sem list_once (example use_granted)" by (rule example_reach) code_simp
  have "map_option fst (klm (use_lock (example use_granted)) ''db'') = Some max_weight" by code_simp
  then obtain w where w: "klm (use_lock (example use_granted)) ''db'' = Some w" "fst w = max_weight" by auto
  from container_weights_bounded [OF csem.weighted_semaphore_axioms r w(1)] w show ?thesis by auto
qed

text \<open>
  C8: A successful \<open>LockForContainerUse\<close>. If every initialisation that was handed to the call succeeds,
  then the call returns without error, has called exactly these initialisations, each once, and
  still holds every container in the mode its parameter asks for: shared locks taken for an
  initialisation have been downgraded.
\<close>

theorem container_use_success:
  assumes "weighted_semaphore so cur size_of" and "held_use so oo s r params"
    and "set order = set (map fst params)"
    and "list_all (init_succeeds params) (filter (acquired s r) order)"
  shows "\<exists>s'. use_finish so oo r params order order' s = Inr (s', None, filter (acquired s r) order) \<and>
    sys_reach so oo s' \<and> (\<forall>k p. map_of params k = Some p \<longrightarrow> hold s' r k = Some (up_exclusive p))"
  using weighted_semaphore.use_finish_ok [OF assms, of order'] unfolding held_use_def by blast

theorem container_use_success_witness:
  "\<exists>s'. use_finish counting_sem list_once 0 (use_example InitOk) [''kv'', ''db''] [] (example use_granted) =
      Inr (s', None, [''kv'', ''db'']) \<and> hold s' 0 ''db'' = Some False \<and> hold s' 0 ''kv'' = Some True"
proof -
  let ?p = "use_example InitOk"
  have o: "set [''kv'', ''db''] = set (map fst ?p)" by (auto simp: use_example_def)
  have ok: "list_all (init_succeeds ?p) (filter (acquired (example use_granted) 0) [''kv'', ''db''])"
    by (simp add: use_granted_acquired init_succeeds_def use_example_def initSafe_def)
  show ?thesis
    using container_use_success [OF csem.weighted_semaphore_axioms use_granted_held o ok, of "[]"]
    by (auto simp: use_granted_acquired use_example_def)
qed

text \<open>
  C9: A failing \<open>LockForContainerUse\<close>. If an initialisation handed to the call fails or panics, then the
  call returns an error, no initialisation after the first failing one has been called, the call
  holds no container any more, and every container whose initialisation did not succeed is offered
  for initialisation again.
\<close>

theorem container_use_failure:
  assumes "weighted_semaphore so cur size_of" and "once_factory oo fresh" and "held_use so oo s r params"
    and "set order = set (map fst params)" and "distinct order'" and "set order' = set (map fst params)"
    and "\<not> list_all (init_succeeds params) (filter (acquired s r) order)"
  shows "\<exists>s' err. use_finish so oo r params order order' s =
      Inr (s', Some err, attempted (init_succeeds params) (filter (acquired s r) order)) \<and>
    sys_reach so oo s' \<and> (\<forall>k. hold s' r k = None) \<and>
    (\<forall>k \<in> set order. acquired s r k \<and> k \<notin> set (takeWhile (init_succeeds params) (filter (acquired s r) order)) \<longrightarrow>
       fresh (lk_once (sy_locker s')) k)"
proof -
  have sub: "set order \<subseteq> set (map fst params)" using assms(4) by simp
  obtain s1 s' err where f: "use_init_loop so oo r params order s None [] =
      Inr (s1, Some err, attempted (init_succeeds params) (filter (acquired s r) order))"
    "use_finish so oo r params order order' s =
      Inr (s', Some err, attempted (init_succeeds params) (filter (acquired s r) order))"
    "sys_reach so oo s'" "\<forall>k. hold s' r k = None" "lk_once (sy_locker s') = lk_once (sy_locker s1)"
    using weighted_semaphore.use_finish_err [OF assms(1,3-7)] by blast
  have "fresh (lk_once (sy_locker s')) k"
    if "k \<in> set order" "acquired s r k" "k \<notin> set (takeWhile (init_succeeds params) (filter (acquired s r) order))" for k
    using weighted_semaphore.use_loop_fresh [OF assms(1-3) sub f(1), of k] that f(5) by simp
  then show ?thesis using f(2-4) by blast
qed

theorem container_use_failure_witness:
  "\<exists>s' err. use_finish counting_sem list_once 0 (use_example (InitPanic ''boom'')) [''kv'', ''db''] [''db'', ''kv'']
      (example use_granted) = Inr (s', Some err, [''kv'']) \<and>
    (\<forall>k. hold s' 0 k = None) \<and> ''db'' \<notin> set (lk_once (sy_locker s')) \<and> ''kv'' \<notin> set (lk_once (sy_locker s'))"
proof -
  let ?p = "use_example (InitPanic ''boom'')"
  have o: "set [''kv'', ''db''] = set (map fst ?p)" "set [''db'', ''kv''] = set (map fst ?p)"
    by (auto simp: use_example_def)
  have i: "init_succeeds ?p ''kv'' = False" by (simp add: init_succeeds_def use_example_def initSafe_def)
  then have f: "\<not> list_all (init_succeeds ?p) (filter (acquired (example use_granted) 0) [''kv'', ''db''])"
    by (simp add: use_granted_acquired)
  show ?thesis
    using container_use_failure [OF csem.weighted_semaphore_axioms lonce.once_factory_axioms use_granted_held o(1) _ o(2) f] i
    by (simp add: use_granted_acquired) blast
qed

end
