(* ===== verification/Beacon_Server.thy ===== *)
theory Beacon_Server
  imports Exclusion_Control
begin

text \<open>
  The beacon server (internal/beacon/server/beacon.go, health.go, server.go) and its client, the
  \<open>beaconControl\<close> of internal/exclusion/control.go. Every RPC is a stream; a handler is a state machine
  whose steps are the messages of its stream. gRPC itself is a parameter: what \<open>Recv\<close> returns and
  whether \<open>Send\<close> fails is part of each event. The keyed lock streams (build, container setup) are
  proved over the contract \<open>mutex_map\<close>; the container lock stream drives the transition system of
  concurrent acquisitions.
\<close>

section \<open>Messages\<close>

datatype lock_op = OpLock | OpUnlock | OpUnknown int

datatype acquire_op =
    AcquireLock
  | AcquireInitLock
  | AcquireSharedLock
  | AcquireInitSharedLock
  | AcquireUnlock
  | AcquireSetInitDone
  | AcquireSetInitFailed
  | AcquireUnknown int

datatype lock_state = StateLocked | StateSharedLocked | StateUnlocked

text \<open>The oneof of \<open>AcquireLockRequest\<close>; \<open>NoParam\<close> is a request without a parameter.\<close>

datatype acquire_request =
    AcquireParam "(string, acquire_op) go_map"
  | InitParam string bool
  | ReleaseParam
  | NoParam

datatype 'm recv = EOF | RecvErr string | Msg 'm

datatype serve_error = InvalidArgument string | StreamErr string | CtxError

section \<open>Streams of keyed locks\<close>

text \<open>The variables of a handler: \<open>key\<close>, and \<open>unlock\<close> with the key its closure unlocks.\<close>

record keyed_stream =
  ks_key :: string
  ks_unlock :: "string option"

definition new_stream :: keyed_stream where
  "new_stream = \<lparr>ks_key = '''', ks_unlock = None\<rparr>"

datatype 'l handled =
    Next 'l keyed_stream "lock_state option"
  | Returned 'l "serve_error option"
  | Blocked 'l
  | Panicked go_panic

text \<open>Returning runs the deferred function, which unlocks what is still locked.\<close>

definition return_stream ::
  "('l \<Rightarrow> string \<Rightarrow> go_panic + 'l) \<Rightarrow> 'l \<Rightarrow> keyed_stream \<Rightarrow> serve_error option \<Rightarrow> 'l handled" where
  "return_stream unlockf l st err =
     (case ks_unlock st of
        None \<Rightarrow> Returned l err
      | Some k \<Rightarrow> (case unlockf l k of Inl p \<Rightarrow> Panicked p | Inr l' \<Rightarrow> Returned l' err))"

definition send_reply ::
  "('l \<Rightarrow> string \<Rightarrow> go_panic + 'l) \<Rightarrow> string option \<Rightarrow> lock_state \<Rightarrow> 'l \<Rightarrow> keyed_stream \<Rightarrow> 'l handled" where
  "send_reply unlockf send_err state l st =
     (case send_err of
        None \<Rightarrow> Next l st (Some state)
      | Some e \<Rightarrow> return_stream unlockf l st (Some (StreamErr e)))"

text \<open>
  One iteration of the loop of \<open>LockForBuild\<close> and \<open>LockForContainerSetup\<close>, which differ only in the lock
  they call. \<open>d\<close>: the stream's context is done; \<open>send_err\<close>: what \<open>Send\<close> returns. A lock that waits takes
  no step.
\<close>

definition keyed_step ::
  "(bool \<Rightarrow> 'l \<Rightarrow> string \<Rightarrow> 'l outcome) \<Rightarrow> ('l \<Rightarrow> string \<Rightarrow> go_panic + 'l) \<Rightarrow> bool \<Rightarrow> string option \<Rightarrow>
     (string \<times> lock_op) recv \<Rightarrow> 'l \<Rightarrow> keyed_stream \<Rightarrow> 'l handled" where
  "keyed_step lockf unlockf d send_err ev l st =
     (case ev of
        EOF \<Rightarrow> return_stream unlockf l st None
      | RecvErr e \<Rightarrow> return_stream unlockf l st (Some (StreamErr e))
      | Msg (k, op) \<Rightarrow>
          if k = '''' then return_stream unlockf l st (Some (InvalidArgument ''empty key''))
          else
            (case op of
               OpLock \<Rightarrow>
                 if ks_unlock st \<noteq> None
                 then return_stream unlockf l st (Some (InvalidArgument ''trying second lock''))
                 else
                   (case lockf d l k of
                      Granted l' \<Rightarrow> send_reply unlockf send_err StateLocked l' \<lparr>ks_key = k, ks_unlock = Some k\<rparr>
                    | CtxErr l' \<Rightarrow> return_stream unlockf l' \<lparr>ks_key = k, ks_unlock = None\<rparr> (Some CtxError)
                    | Waits l' \<Rightarrow> Blocked l')
             | OpUnlock \<Rightarrow>
                 (case ks_unlock st of
                    None \<Rightarrow> return_stream unlockf l st (Some (InvalidArgument ''unlock on unlocked key''))
                  | Some uk \<Rightarrow>
                      if k \<noteq> ks_key st
                      then return_stream unlockf l st (Some (InvalidArgument ''unlock on unlocked key''))
                      else
                        (case unlockf l uk of
                           Inl p \<Rightarrow> Panicked p
                         | Inr l' \<Rightarrow> send_reply unlockf send_err StateUnlocked l' \<lparr>ks_key = '''', ks_unlock = None\<rparr>))
             | OpUnknown _ \<Rightarrow> Next l st None))"

definition BuildStream ::
  "'s sem_ops \<Rightarrow> bool \<Rightarrow> string option \<Rightarrow> (string \<times> lock_op) recv \<Rightarrow> ('s, 'o) locker \<Rightarrow> keyed_stream \<Rightarrow>
     ('s, 'o) locker handled" where
  "BuildStream so = keyed_step (LockForBuild so) (UnlockBuild so)"

definition ContainerSetupStream ::
  "'s sem_ops \<Rightarrow> bool \<Rightarrow> string option \<Rightarrow> (string \<times> lock_op) recv \<Rightarrow> ('s, 'o) locker \<Rightarrow> keyed_stream \<Rightarrow>
     ('s, 'o) locker handled" where
  "ContainerSetupStream so = keyed_step (LockForContainerSetup so) (UnlockContainerSetup so)"

text \<open>The namespace stream has no key and its lock does not look at the context.\<close>

definition NamespaceStream ::
  "string option \<Rightarrow> lock_op recv \<Rightarrow> ('s, 'o) locker \<Rightarrow> keyed_stream \<Rightarrow> ('s, 'o) locker handled" where
  "NamespaceStream send_err ev l st =
     (let unlockf = (\<lambda>l (_ :: string). UnlockNamespace l) in
      case ev of
        EOF \<Rightarrow> return_stream unlockf l st None
      | RecvErr e \<Rightarrow> return_stream unlockf l st (Some (StreamErr e))
      | Msg OpLock \<Rightarrow>
          if ks_unlock st \<noteq> None
          then return_stream unlockf l st (Some (InvalidArgument ''trying second lock''))
          else
            (case LockForNamespace l of
               Granted l' \<Rightarrow> send_reply unlockf send_err StateLocked l' \<lparr>ks_key = '''', ks_unlock = Some ''''\<rparr>
             | CtxErr l' \<Rightarrow> Blocked l'
             | Waits l' \<Rightarrow> Blocked l')
      | Msg OpUnlock \<Rightarrow>
          (case ks_unlock st of
             None \<Rightarrow> return_stream unlockf l st (Some (InvalidArgument ''unlock on unlocked''))
           | Some uk \<Rightarrow>
               (case UnlockNamespace l of
                  Inl p \<Rightarrow> Panicked p
                | Inr l' \<Rightarrow> send_reply unlockf send_err StateUnlocked l' \<lparr>ks_key = '''', ks_unlock = None\<rparr>))
      | Msg (OpUnknown _) \<Rightarrow> Next l st None)"

text \<open>Any number of streams on one Locker.\<close>

record 'l kserver =
  kv_locker :: 'l
  kv_streams :: "nat \<Rightarrow> keyed_stream option"

datatype kevent = KOpen nat | KEvent nat bool "string option" "(string \<times> lock_op) recv"

fun kserver_step ::
  "(bool \<Rightarrow> 'l \<Rightarrow> string \<Rightarrow> 'l outcome) \<Rightarrow> ('l \<Rightarrow> string \<Rightarrow> go_panic + 'l) \<Rightarrow> kevent \<Rightarrow> 'l kserver \<Rightarrow>
     (go_panic + 'l kserver) option" where
  "kserver_step lockf unlockf (KOpen i) v =
     (case kv_streams v i of
        None \<Rightarrow> Some (Inr (v\<lparr>kv_streams := (kv_streams v)(i \<mapsto> new_stream)\<rparr>))
      | Some _ \<Rightarrow> None)"
| "kserver_step lockf unlockf (KEvent i d send_err ev) v =
     (case kv_streams v i of
        None \<Rightarrow> None
      | Some st \<Rightarrow>
          (case keyed_step lockf unlockf d send_err ev (kv_locker v) st of
             Next l st' _ \<Rightarrow> Some (Inr \<lparr>kv_locker = l, kv_streams = (kv_streams v)(i \<mapsto> st')\<rparr>)
           | Returned l _ \<Rightarrow> Some (Inr \<lparr>kv_locker = l, kv_streams = (kv_streams v)(i := None)\<rparr>)
           | Blocked _ \<Rightarrow> None
           | Panicked p \<Rightarrow> Some (Inl p)))"

inductive kserver_reach ::
  "(bool \<Rightarrow> 'l \<Rightarrow> string \<Rightarrow> 'l outcome) \<Rightarrow> ('l \<Rightarrow> string \<Rightarrow> go_panic + 'l) \<Rightarrow> 'l \<Rightarrow> 'l kserver \<Rightarrow> bool"
  for lockf unlockf l0 where
  start: "kserver_reach lockf unlockf l0 \<lparr>kv_locker = l0, kv_streams = Map.empty\<rparr>"
| step: "kserver_reach lockf unlockf l0 v \<Longrightarrow> kserver_step lockf unlockf a v = Some (Inr v') \<Longrightarrow>
    kserver_reach lockf unlockf l0 v'"

text \<open>What a stream holds.\<close>

definition stream_holds :: "'l kserver \<Rightarrow> nat \<Rightarrow> string \<Rightarrow> bool" where
  "stream_holds v i k \<longleftrightarrow> (\<exists>st. kv_streams v i = Some st \<and> ks_unlock st = Some k)"

section \<open>The client of the keyed locks\<close>

text \<open>
  \<open>beaconControl.LockForBuild\<close> and \<open>LockForContainerSetup\<close>: open the stream, send the lock request, wait
  for the answer. The result is an error, or the events that the returned unlock function sends.
\<close>

definition client_keyed_lock ::
  "go_error option \<Rightarrow> go_error option \<Rightarrow> go_error option \<Rightarrow> string \<Rightarrow> go_error + (string \<times> lock_op) recv list" where
  "client_keyed_lock open_err send_err recv_err key =
     (case open_err of
        Some e \<Rightarrow> Inl e
      | None \<Rightarrow>
          (case send_err of
             Some e \<Rightarrow> Inl e
           | None \<Rightarrow>
               (case recv_err of
                  Some e \<Rightarrow> Inl e
                | None \<Rightarrow> Inr [Msg (key, OpUnlock), EOF])))"

definition client_namespace_lock ::
  "go_error option \<Rightarrow> go_error option \<Rightarrow> go_error option \<Rightarrow> go_error + lock_op recv list" where
  "client_namespace_lock open_err send_err recv_err =
     (case open_err of
        Some e \<Rightarrow> Inl e
      | None \<Rightarrow>
          (case send_err of
             Some e \<Rightarrow> Inl e
           | None \<Rightarrow>
               (case recv_err of
                  Some e \<Rightarrow> Inl e
                | None \<Rightarrow> Inr [Msg OpUnlock, EOF])))"

section \<open>The contract of a map of mutexes\<close>

locale mutex_map =
  fixes lockf :: "bool \<Rightarrow> 'l \<Rightarrow> string \<Rightarrow> 'l outcome"
    and unlockf :: "'l \<Rightarrow> string \<Rightarrow> go_panic + 'l"
    and l0 :: 'l
    and owns :: "'l \<Rightarrow> (string \<Rightarrow> nat set) \<Rightarrow> bool"
  assumes owns_init: "owns l0 (\<lambda>_. {})"
    and owns_one: "owns l wr \<Longrightarrow> i \<in> wr k \<Longrightarrow> wr k = {i}"
    and mutex_granted: "owns l wr \<Longrightarrow> lockf d l k = Granted l' \<Longrightarrow> wr k = {} \<and> owns l' (wr(k := {i}))"
    and mutex_refused: "owns l wr \<Longrightarrow> lockf d l k = CtxErr l' \<Longrightarrow> owns l' wr"
    and mutex_free: "owns l wr \<Longrightarrow> wr k = {} \<Longrightarrow> \<exists>l'. lockf d l k = Granted l'"
    and mutex_unlock: "owns l wr \<Longrightarrow> i \<in> wr k \<Longrightarrow> \<exists>l'. unlockf l k = Inr l' \<and> owns l' (wr(k := {}))"

text \<open>Both the build locks and the container setup locks of the Locker are such maps.\<close>

lemma map_outcome_cases:
  "map_outcome f x = Granted y \<longleftrightarrow> (\<exists>z. x = Granted z \<and> y = f z)"
  "map_outcome f x = CtxErr y \<longleftrightarrow> (\<exists>z. x = CtxErr z \<and> y = f z)"
  by (cases x; auto)+

sublocale weighted_semaphore \<subseteq> bld: mutex_map "LockForBuild so" "UnlockBuild so" "NewLocker oo"
    "\<lambda>l wr. kl_holds cur size_of (lk_build l) (\<lambda>_. {}) wr" for oo
proof unfold_locales
  fix l :: "('s, 'b) locker" and wr k i
  assume h: "kl_holds cur size_of (lk_build l) (\<lambda>_. {}) wr"
  show "i \<in> wr k \<Longrightarrow> wr k = {i}" using kl.holds_exclusive [OF h] by blast
  show "wr k = {} \<Longrightarrow> \<exists>l'. LockForBuild so d l k = Granted l'" for d
    using kl.lock_free [OF h] by (auto simp: LockForBuild_def map_outcome_cases)
  show "i \<in> wr k \<Longrightarrow> \<exists>l'. UnlockBuild so l k = Inr l' \<and> kl_holds cur size_of (lk_build l') (\<lambda>_. {}) (wr(k := {}))"
    using kl.unlock_held [OF h] by (fastforce simp: UnlockBuild_def map_sum_Inr)
  fix d l'
  show "LockForBuild so d l k = Granted l' \<Longrightarrow>
      wr k = {} \<and> kl_holds cur size_of (lk_build l') (\<lambda>_. {}) (wr(k := {i}))"
    using kl.lock_granted [OF h] by (auto simp: LockForBuild_def map_outcome_cases)
  show "LockForBuild so d l k = CtxErr l' \<Longrightarrow> kl_holds cur size_of (lk_build l') (\<lambda>_. {}) wr"
    using kl.lock_not_granted [OF h, of d k] by (auto simp: LockForBuild_def map_outcome_cases)
qed (simp add: NewLocker_def kl.holds_init)

sublocale weighted_semaphore \<subseteq> cset: mutex_map "LockForContainerSetup so" "UnlockContainerSetup so" "NewLocker oo"
    "\<lambda>l wr. kl_holds cur size_of (lk_containerSetup l) (\<lambda>_. {}) wr" for oo
proof unfold_locales
  fix l :: "('s, 'b) locker" and wr k i
  assume h: "kl_holds cur size_of (lk_containerSetup l) (\<lambda>_. {}) wr"
  show "i \<in> wr k \<Longrightarrow> wr k = {i}" using kl.holds_exclusive [OF h] by blast
  show "wr k = {} \<Longrightarrow> \<exists>l'. LockForContainerSetup so d l k = Granted l'" for d
    using kl.lock_free [OF h] by (auto simp: LockForContainerSetup_def map_outcome_cases)
  show "i \<in> wr k \<Longrightarrow>
      \<exists>l'. UnlockContainerSetup so l k = Inr l' \<and> kl_holds cur size_of (lk_containerSetup l') (\<lambda>_. {}) (wr(k := {}))"
    using kl.unlock_held [OF h] by (fastforce simp: UnlockContainerSetup_def map_sum_Inr)
  fix d l'
  show "LockForContainerSetup so d l k = Granted l' \<Longrightarrow>
      wr k = {} \<and> kl_holds cur size_of (lk_containerSetup l') (\<lambda>_. {}) (wr(k := {i}))"
    using kl.lock_granted [OF h] by (auto simp: LockForContainerSetup_def map_outcome_cases)
  show "LockForContainerSetup so d l k = CtxErr l' \<Longrightarrow> kl_holds cur size_of (lk_containerSetup l') (\<lambda>_. {}) wr"
    using kl.lock_not_granted [OF h, of d k] by (auto simp: LockForContainerSetup_def map_outcome_cases)
qed (simp add: NewLocker_def kl.holds_init)

section \<open>Keyed streams keep their locks apart\<close>

definition holders :: "(nat \<Rightarrow> keyed_stream option) \<Rightarrow> string \<Rightarrow> nat set" where
  "holders S k = {i. \<exists>st. S i = Some st \<and> ks_unlock st = Some k}"

text \<open>The key variable of a stream that holds a lock is the key its closure unlocks.\<close>

definition key_kept :: "keyed_stream \<Rightarrow> bool" where
  "key_kept st \<longleftrightarrow> (\<forall>k. ks_unlock st = Some k \<longrightarrow> ks_key st = k)"

lemma holders_same: "S i = Some st \<Longrightarrow> ks_unlock st' = ks_unlock st \<Longrightarrow> holders (S(i \<mapsto> st')) = holders S"
  by (auto simp: holders_def fun_eq_iff)

lemma holders_lock:
  "holders S k = {} \<Longrightarrow> S i = Some st \<Longrightarrow> ks_unlock st = None \<Longrightarrow> ks_unlock st' = Some k \<Longrightarrow>
     holders (S(i \<mapsto> st')) = (holders S)(k := {i})"
  by (auto simp: holders_def fun_eq_iff)

lemma holders_unlock:
  "holders S k = {i} \<Longrightarrow> S i = Some st \<Longrightarrow> ks_unlock st = Some k \<Longrightarrow> x = None \<or> ks_unlock (the x) = None \<Longrightarrow>
     holders (S(i := x)) = (holders S)(k := {})"
  by (cases x) (auto simp: holders_def fun_eq_iff)

lemma holders_drop: "S i = Some st \<Longrightarrow> ks_unlock st = None \<Longrightarrow> holders (S(i := None)) = holders S"
  by (auto simp: holders_def fun_eq_iff)

context mutex_map
begin

definition streams_ok :: "'l kserver \<Rightarrow> bool" where
  "streams_ok v \<longleftrightarrow>
     owns (kv_locker v) (holders (kv_streams v)) \<and> (\<forall>i st. kv_streams v i = Some st \<longrightarrow> key_kept st)"

lemma streams_one: "streams_ok v \<Longrightarrow> stream_holds v i k \<Longrightarrow> stream_holds v j k \<Longrightarrow> i = j"
  using owns_one [of "kv_locker v" "holders (kv_streams v)" i k]
  by (auto simp: streams_ok_def holders_def stream_holds_def)

lemma streams_free:
  assumes "streams_ok v" and "\<And>j. \<not> stream_holds v j k" and "kv_streams v i = Some st" and "ks_unlock st = None"
    and "k \<noteq> ''''"
  shows "\<exists>v'. kserver_step lockf unlockf (KEvent i d None (Msg (k, OpLock))) v = Some (Inr v') \<and> stream_holds v' i k"
proof -
  have "holders (kv_streams v) k = {}" using assms(2) by (auto simp: holders_def stream_holds_def)
  then obtain l' where "lockf d (kv_locker v) k = Granted l'"
    using assms(1) mutex_free [of "kv_locker v" "holders (kv_streams v)" k d] by (auto simp: streams_ok_def)
  then show ?thesis using assms(3-5) by (auto simp: keyed_step_def send_reply_def stream_holds_def)
qed

text \<open>What a handler may do to the locks: it never panics, and it leaves the holders as its result says.\<close>

definition handled_ok :: "(nat \<Rightarrow> keyed_stream option) \<Rightarrow> nat \<Rightarrow> 'l handled \<Rightarrow> bool" where
  "handled_ok S i r \<longleftrightarrow>
     (case r of
        Next l st _ \<Rightarrow> owns l (holders (S(i \<mapsto> st))) \<and> key_kept st
      | Returned l _ \<Rightarrow> owns l (holders (S(i := None)))
      | Blocked _ \<Rightarrow> True
      | Panicked _ \<Rightarrow> False)"

lemma return_ok:
  assumes "owns l (holders S)" and "S i = Some st"
  shows "handled_ok S i (return_stream unlockf l st err)"
proof (cases "ks_unlock st")
  case None
  then show ?thesis using assms holders_drop [of S i st] by (simp add: return_stream_def handled_ok_def)
next
  case (Some k)
  then have i: "i \<in> holders S k" using assms(2) by (simp add: holders_def)
  obtain l' where "unlockf l k = Inr l'" "owns l' ((holders S)(k := {}))"
    using mutex_unlock [OF assms(1) i] by blast
  then show ?thesis
    using Some assms(2) owns_one [OF assms(1) i] holders_unlock [of S k i st None]
    by (simp add: return_stream_def handled_ok_def)
qed

lemma handled_ok_upd: "handled_ok (S(i := x)) i r = handled_ok S i r"
  by (cases r) (simp_all add: handled_ok_def)

lemma reply_ok:
  assumes "owns l (holders (S(i \<mapsto> st)))" and "key_kept st"
  shows "handled_ok S i (send_reply unlockf send_err state l st)"
proof (cases send_err)
  case None
  then show ?thesis using assms by (simp add: send_reply_def handled_ok_def)
next
  case (Some e)
  then show ?thesis
    using return_ok [OF assms(1), of i st "Some (StreamErr e)"] by (simp add: send_reply_def handled_ok_upd)
qed

lemma step_ok:
  assumes o: "owns l (holders S)" and i: "S i = Some st" and kk: "key_kept st"
  shows "handled_ok S i (keyed_step lockf unlockf d send_err ev l st)"
proof -
  have lock: "handled_ok S i (case lockf d l k of
       Granted l' \<Rightarrow> send_reply unlockf send_err StateLocked l' \<lparr>ks_key = k, ks_unlock = Some k\<rparr>
     | CtxErr l' \<Rightarrow> return_stream unlockf l' \<lparr>ks_key = k, ks_unlock = None\<rparr> (Some CtxError)
     | Waits l' \<Rightarrow> Blocked l')" if n: "ks_unlock st = None" for k
  proof (cases "lockf d l k")
    case (Granted l')
    then have g: "holders S k = {}" "owns l' ((holders S)(k := {i}))" using mutex_granted [OF o] by blast+
    show ?thesis
      using g i n holders_lock [of S k i st "\<lparr>ks_key = k, ks_unlock = Some k\<rparr>"] Granted
      by (auto intro!: reply_ok simp: key_kept_def)
  next
    case (CtxErr l')
    then show ?thesis
      using mutex_refused [OF o] holders_drop [of S i st] i n by (simp add: return_stream_def handled_ok_def)
  qed (simp add: handled_ok_def)
  have unlock: "handled_ok S i (case unlockf l k of
       Inl p \<Rightarrow> Panicked p
     | Inr l' \<Rightarrow> send_reply unlockf send_err StateUnlocked l' \<lparr>ks_key = '''', ks_unlock = None\<rparr>)"
    if n: "ks_unlock st = Some k" for k
  proof -
    have hi: "i \<in> holders S k" using i n by (simp add: holders_def)
    obtain l' where u: "unlockf l k = Inr l'" "owns l' ((holders S)(k := {}))" using mutex_unlock [OF o hi] by blast
    show ?thesis
      using u i n owns_one [OF o hi] holders_unlock [of S k i st "Some \<lparr>ks_key = '''', ks_unlock = None\<rparr>"]
      by (auto intro!: reply_ok simp: key_kept_def)
  qed
  have stay: "handled_ok S i (Next l st x)" for x
    using o i kk by (simp add: handled_ok_def fun_upd_idem)
  show ?thesis
    using lock unlock stay return_ok [OF o i]
    by (auto simp: keyed_step_def split: recv.splits lock_op.splits option.splits)
qed

lemma streams_ok_step:
  assumes v: "streams_ok v" and st: "kserver_step lockf unlockf a v = Some x"
  shows "\<exists>v'. x = Inr v' \<and> streams_ok v'"
proof (cases a)
  case (KOpen i)
  then have x: "x = Inr (v\<lparr>kv_streams := (kv_streams v)(i \<mapsto> new_stream)\<rparr>)" and n: "kv_streams v i = None"
    using st by (auto split: option.splits)
  have "holders ((kv_streams v)(i \<mapsto> new_stream)) = holders (kv_streams v)"
    using n by (auto simp: holders_def new_stream_def fun_eq_iff)
  then show ?thesis using v x by (simp add: streams_ok_def key_kept_def new_stream_def)
next
  case (KEvent i d send_err ev)
  then obtain s where s: "kv_streams v i = Some s" using st by (auto split: option.splits)
  have "handled_ok (kv_streams v) i (keyed_step lockf unlockf d send_err ev (kv_locker v) s)"
    using v s by (intro step_ok) (auto simp: streams_ok_def)
  then show ?thesis
    using st KEvent s v by (auto simp: handled_ok_def streams_ok_def split: handled.splits)
qed

lemma streams_ok_reach: "kserver_reach lockf unlockf l0 v \<Longrightarrow> streams_ok v"
proof (induction rule: kserver_reach.induct)
  case start
  have "holders Map.empty = (\<lambda>_. {})" by (simp add: holders_def fun_eq_iff)
  then show ?case using owns_init by (simp add: streams_ok_def)
next
  case (step v a v')
  then show ?case using streams_ok_step by blast
qed

end

text \<open>Runs of the server, for concrete states.\<close>

fun kserver_run ::
  "(bool \<Rightarrow> 'l \<Rightarrow> string \<Rightarrow> 'l outcome) \<Rightarrow> ('l \<Rightarrow> string \<Rightarrow> go_panic + 'l) \<Rightarrow> kevent list \<Rightarrow> 'l kserver \<Rightarrow>
     'l kserver option" where
  "kserver_run lockf unlockf [] v = Some v"
| "kserver_run lockf unlockf (a # as) v =
     (case kserver_step lockf unlockf a v of
        Some (Inr v') \<Rightarrow> kserver_run lockf unlockf as v'
      | _ \<Rightarrow> None)"

lemma kserver_run_reach:
  "kserver_reach lockf unlockf l0 v \<Longrightarrow> kserver_run lockf unlockf as v = Some v' \<Longrightarrow> kserver_reach lockf unlockf l0 v'"
proof (induction as arbitrary: v)
  case (Cons a as)
  then show ?case by (auto split: option.splits sum.splits intro: kserver_reach.step)
qed simp

abbreviation build_run :: "kevent list \<Rightarrow> (int \<times> int, string list) locker kserver option" where
  "build_run as \<equiv> kserver_run (LockForBuild counting_sem) (UnlockBuild counting_sem) as
     \<lparr>kv_locker = NewLocker list_once, kv_streams = Map.empty\<rparr>"

lemma build_run_reach:
  "build_run as = Some v \<Longrightarrow>
     kserver_reach (LockForBuild counting_sem) (UnlockBuild counting_sem) (NewLocker list_once) v"
  by (rule kserver_run_reach [OF kserver_reach.start])

definition lock_twice :: "kevent list" where
  "lock_twice =
     [KOpen 0, KOpen 1, KEvent 0 False None (Msg (''img'', OpLock)), KEvent 0 False None (Msg (''img'', OpUnlock)),
      KEvent 1 False None (Msg (''img'', OpLock)), KEvent 0 False None EOF]"

definition lock_then_fail :: "kevent list" where
  "lock_then_fail =
     [KOpen 0, KOpen 1, KEvent 0 False None (Msg (''img'', OpLock)), KEvent 0 False None (Msg (''img'', OpLock))]"

context weighted_semaphore
begin

lemma build_safe:
  assumes "kserver_reach (LockForBuild so) (UnlockBuild so) (NewLocker oo) v"
  shows "(stream_holds v i k \<and> stream_holds v j k \<longrightarrow> i = j) \<and>
    kserver_step (LockForBuild so) (UnlockBuild so) a v \<noteq> Some (Inl p)"
  using bld.streams_one [OF bld.streams_ok_reach [OF assms]] bld.streams_ok_step [OF bld.streams_ok_reach [OF assms]]
  by blast

lemma setup_safe:
  assumes "kserver_reach (LockForContainerSetup so) (UnlockContainerSetup so) (NewLocker oo) v"
  shows "(stream_holds v i k \<and> stream_holds v j k \<longrightarrow> i = j) \<and>
    kserver_step (LockForContainerSetup so) (UnlockContainerSetup so) a v \<noteq> Some (Inl p)"
  using cset.streams_one [OF cset.streams_ok_reach [OF assms]] cset.streams_ok_step [OF cset.streams_ok_reach [OF assms]]
  by blast

lemmas build_available = bld.streams_free [OF bld.streams_ok_reach]

end

text \<open>What a namespace stream leaves of the lock: exactly what the other holders and the stream itself have.\<close>

definition ns_ok :: "('s, 'o) locker \<Rightarrow> keyed_stream \<Rightarrow> ('s, 'o) locker handled \<Rightarrow> bool" where
  "ns_ok l st r \<longleftrightarrow>
     (let others = lk_namespace l \<and> ks_unlock st = None in
      case r of
        Next l' st' _ \<Rightarrow> lk_namespace l' \<longleftrightarrow> others \<or> ks_unlock st' \<noteq> None
      | Returned l' _ \<Rightarrow> lk_namespace l' \<longleftrightarrow> others
      | Blocked l' \<Rightarrow> others
      | Panicked _ \<Rightarrow> False)"

section \<open>Main properties\<close>

text \<open>
  C31: Build locks of the beacon server exclude each other. In every state that any number of build
  streams can reach, whatever their clients send and however the streams break, at most one stream
  holds the lock of an image, and no handler ever panics.
\<close>

theorem build_streams_safe:
  assumes "weighted_semaphore so cur size_of"
    and "kserver_reach (LockForBuild so) (UnlockBuild so) (NewLocker oo) v"
  shows "(stream_holds v i k \<and> stream_holds v j k \<longrightarrow> i = j) \<and>
    kserver_step (LockForBuild so) (UnlockBuild so) a v \<noteq> Some (Inl p)"
  using assms by (rule weighted_semaphore.build_safe)

theorem build_streams_safe_witness:
  "\<exists>v. build_run lock_twice = Some v \<and> stream_holds v 1 ''img'' \<and> (\<forall>j. stream_holds v j ''img'' \<longrightarrow> j = 1)"
proof -
  have "map_option (\<lambda>v. map_option ks_unlock (kv_streams v 1)) (build_run lock_twice) = Some (Some (Some ''img''))"
    by code_simp
  then obtain v where v: "build_run lock_twice = Some v" "stream_holds v 1 ''img''"
    by (auto simp: stream_holds_def)
  with build_streams_safe [OF csem.weighted_semaphore_axioms build_run_reach [OF v(1)]] show ?thesis by blast
qed

text \<open>
  No build lock is lost. Whenever no open stream holds the lock of an image, because its holder
  unlocked it, ended, broke off or violated the protocol, an open stream that asks for it gets it
  at once.
\<close>

theorem build_lock_available:
  assumes "weighted_semaphore so cur size_of"
    and "kserver_reach (LockForBuild so) (UnlockBuild so) (NewLocker oo) v"
    and "\<And>j. \<not> stream_holds v j k" and "kv_streams v i = Some st" and "ks_unlock st = None" and "k \<noteq> ''''"
  shows "\<exists>v'. kserver_step (LockForBuild so) (UnlockBuild so) (KEvent i d None (Msg (k, OpLock))) v = Some (Inr v') \<and>
    stream_holds v' i k"
  using weighted_semaphore.build_available [OF assms(1,2)] assms(3-6) .

theorem build_lock_available_witness:
  "\<exists>v v'. build_run lock_then_fail = Some v \<and> kv_streams v 0 = None \<and>
     kserver_step (LockForBuild counting_sem) (UnlockBuild counting_sem) (KEvent 1 False None (Msg (''img'', OpLock))) v =
       Some (Inr v') \<and> stream_holds v' 1 ''img''"
proof -
  have "map_option (\<lambda>v. (kv_streams v 0, kv_streams v 1)) (build_run lock_then_fail) = Some (None, Some new_stream)"
    by code_simp
  then obtain v where v: "build_run lock_then_fail = Some v" "kv_streams v 0 = None" "kv_streams v 1 = Some new_stream"
    by auto
  have "kv_streams v j = None" if "1 < j" for j
    using v(1) that by (auto simp: lock_then_fail_def keyed_step_def return_stream_def send_reply_def new_stream_def
        split: outcome.splits sum.splits)
  then have n: "\<not> stream_holds v j ''img''" for j
    using v(2,3) by (cases "j = 0"; cases "j = 1") (auto simp: stream_holds_def new_stream_def)
  show ?thesis
    using build_lock_available [OF csem.weighted_semaphore_axioms build_run_reach [OF v(1)] n v(3)] v(1,2)
    by (auto simp: new_stream_def)
qed

text \<open>
  The namespace stream never panics and accounts for its lock: after each of its steps the
  namespace is locked exactly when somebody else has locked it or the stream still has its unlock
  function; after it has returned, on any path, the stream's own lock is gone.
\<close>

theorem namespace_stream_accounts:
  assumes "ks_unlock st \<noteq> None \<longrightarrow> lk_namespace l"
  shows "ns_ok l st (NamespaceStream send_err ev l st)"
  using assms
  by (auto simp: NamespaceStream_def ns_ok_def Let_def return_stream_def send_reply_def LockForNamespace_def UnlockNamespace_def
      split: recv.splits lock_op.splits option.splits if_splits)

theorem namespace_stream_accounts_witness:
  "ns_ok (NewLocker list_once :: (int \<times> int, string list) locker) new_stream
     (NamespaceStream (Some ''broken'') (Msg OpLock) (NewLocker list_once) new_stream)"
  by (rule namespace_stream_accounts) (simp add: new_stream_def)

end
