(* ===== verification/Beacon_Acquire.thy ===== *)
theory Beacon_Acquire
  imports Beacon_Server
begin

text \<open>
  The stream \<open>AcquireContainerLock\<close> of the beacon server and its client
  \<open>beaconControl.LockForContainerUse\<close>. Streams drive the transition system of concurrent acquisitions
  of the Locker: a handler makes the \<open>Accept\<close>, \<open>InitResult\<close> and \<open>ReleaseAll\<close> steps of its requests, the
  goroutines of the acquisitions make the others in between. So everything that holds of reachable
  states of the Locker holds of the server.
\<close>

section \<open>The handler\<close>

text \<open>
  Where a handler is: waiting for an acquire message; inside \<open>AcquireContainerLock\<close> of the Locker;
  in \<open>InitLoop\<close>, waiting for a message, with the targets whose initialisation has not been reported and
  the loop counter; waiting for the release message; or returned.
\<close>

datatype acq_state =
    AwaitAcquire
  | Acquiring nat
  | Initialising nat "string list" nat
  | AwaitRelease nat
  | Ended "serve_error option"

text \<open>The entries of an acquire message, in the iteration order of its map.\<close>

fun acquire_entries :: "(string, acquire_op) go_map \<Rightarrow> serve_error + (string \<times> acquire_entry) list" where
  "acquire_entries [] = Inr []"
| "acquire_entries ((key, op) # targets) =
     (if key = '''' then Inl (InvalidArgument ''empty key'')
      else
        (let entry = (case op of
                        AcquireLock \<Rightarrow> Some \<lparr>en_exclusive = True, en_init = False\<rparr>
                      | AcquireInitLock \<Rightarrow> Some \<lparr>en_exclusive = True, en_init = True\<rparr>
                      | AcquireSharedLock \<Rightarrow> Some \<lparr>en_exclusive = False, en_init = False\<rparr>
                      | AcquireInitSharedLock \<Rightarrow> Some \<lparr>en_exclusive = False, en_init = True\<rparr>
                      | _ \<Rightarrow> None)
         in case entry of
              None \<Rightarrow> Inl (InvalidArgument ''invalid operation'')
            | Some e \<Rightarrow> map_sum id (Cons (key, e)) (acquire_entries targets)))"

text \<open>The results that are sent to the client: the state of each lock and whether it comes with the initialisation.\<close>

definition acquire_results ::
  "('s, 'o) sys \<Rightarrow> nat \<Rightarrow> (string \<times> acquire_entry) list \<Rightarrow> (string, lock_state \<times> bool) go_map" where
  "acquire_results s r entries =
     map (\<lambda>(key, entry).
            (let initAcquired = (case lock_of s r key of Some cl \<Rightarrow> InitAcquired cl | None \<Rightarrow> False) in
             (key, (if en_exclusive entry then StateLocked
                    else if initAcquired then StateLocked else StateSharedLocked, initAcquired)))) entries"

definition init_targets :: "(string, lock_state \<times> bool) go_map \<Rightarrow> string list" where
  "init_targets results = map fst (filter (\<lambda>(key, state, initAcquired). initAcquired) results)"

text \<open>
  Sequencing of steps that may panic or may not be enabled: \<open>None\<close> when the given iteration order is not
  one of the map in question.
\<close>

definition and_then :: "(go_panic + 'a) option \<Rightarrow> ('a \<Rightarrow> (go_panic + 'b) option) \<Rightarrow> (go_panic + 'b) option" where
  "and_then x f = (case x of None \<Rightarrow> None | Some (Inl p) \<Rightarrow> Some (Inl p) | Some (Inr a) \<Rightarrow> f a)"

text \<open>\<open>entries[key].ContainerLock().SetInitResult(ok)\<close>: a key that is not in the map gives a nil entry.\<close>

definition set_init_result ::
  "'s sem_ops \<Rightarrow> 'o once_ops \<Rightarrow> nat \<Rightarrow> string \<Rightarrow> bool \<Rightarrow> ('s, 'o) sys \<Rightarrow> (go_panic + ('s, 'o) sys) option" where
  "set_init_result so oo r key ok s =
     (case lock_of s r key of
        None \<Rightarrow> Some (Inl NilDereference)
      | Some _ \<Rightarrow> step so oo (InitResult r key ok) s)"

definition release_then ::
  "'s sem_ops \<Rightarrow> 'o once_ops \<Rightarrow> nat \<Rightarrow> string list \<Rightarrow> acq_state \<Rightarrow> ('s, 'o) sys \<Rightarrow>
     (go_panic + (acq_state \<times> ('s, 'o) sys)) option" where
  "release_then so oo r order st s = and_then (step so oo (ReleaseAll r order) s) (\<lambda>s'. Some (Inr (st, s')))"

fun report_failed ::
  "'s sem_ops \<Rightarrow> 'o once_ops \<Rightarrow> nat \<Rightarrow> string list \<Rightarrow> ('s, 'o) sys \<Rightarrow> (go_panic + ('s, 'o) sys) option" where
  "report_failed so oo r [] s = Some (Inr s)"
| "report_failed so oo r (key # keys) s =
     and_then (set_init_result so oo r key False s) (report_failed so oo r keys)"

text \<open>
  After \<open>InitLoop\<close>: every remaining target is reported as failed; an error returns, a failed target
  starts over, and otherwise the handler waits for the release.
\<close>

definition after_init ::
  "'s sem_ops \<Rightarrow> 'o once_ops \<Rightarrow> nat \<Rightarrow> string list \<Rightarrow> serve_error option \<Rightarrow> string list \<Rightarrow> ('s, 'o) sys \<Rightarrow>
     (go_panic + (acq_state \<times> ('s, 'o) sys)) option" where
  "after_init so oo r targets e order s =
     and_then (report_failed so oo r targets s)
       (\<lambda>s'. case e of
          Some err \<Rightarrow> release_then so oo r order (Ended (Some err)) s'
        | None \<Rightarrow>
            if targets \<noteq> [] then release_then so oo r order AwaitAcquire s'
            else Some (Inr (AwaitRelease r, s')))"

text \<open>The loop condition \<open>i < len(initTargets)\<close>.\<close>

definition init_loop ::
  "'s sem_ops \<Rightarrow> 'o once_ops \<Rightarrow> nat \<Rightarrow> string list \<Rightarrow> nat \<Rightarrow> string list \<Rightarrow> ('s, 'o) sys \<Rightarrow>
     (go_panic + (acq_state \<times> ('s, 'o) sys)) option" where
  "init_loop so oo r targets i order s =
     (if i < length targets then Some (Inr (Initialising r targets i, s))
      else after_init so oo r targets None order s)"

text \<open>
  What the handler does with the next result of \<open>Recv\<close>. \<open>order\<close> is the order in which a release goes
  through the locks. While it acquires, a handler receives nothing. Only the first \<open>Recv\<close> of a round
  treats the end of the stream as a regular end.
\<close>

fun acq_recv ::
  "'s sem_ops \<Rightarrow> 'o once_ops \<Rightarrow> string list \<Rightarrow> acquire_request recv \<Rightarrow> acq_state \<Rightarrow> ('s, 'o) sys \<Rightarrow>
     (go_panic + (acq_state \<times> ('s, 'o) sys)) option" where
  "acq_recv so oo order ev AwaitAcquire s =
     (case ev of
        EOF \<Rightarrow> Some (Inr (Ended None, s))
      | RecvErr e \<Rightarrow> Some (Inr (Ended (Some (StreamErr e)), s))
      | Msg (AcquireParam targets) \<Rightarrow>
          (case acquire_entries targets of
             Inl err \<Rightarrow> Some (Inr (Ended (Some err), s))
           | Inr entries \<Rightarrow>
               and_then (step so oo (Accept entries) s) (\<lambda>s'. Some (Inr (Acquiring (ac_next (ctl s)), s'))))
      | Msg _ \<Rightarrow> Some (Inr (Ended (Some (InvalidArgument ''invalid operation'')), s)))"
| "acq_recv so oo order ev (Initialising r targets i) s =
     (case ev of
        EOF \<Rightarrow> release_then so oo r order (Ended (Some (StreamErr ''EOF''))) s
      | RecvErr e \<Rightarrow> release_then so oo r order (Ended (Some (StreamErr e))) s
      | Msg (InitParam key succeeded) \<Rightarrow>
          and_then (set_init_result so oo r key succeeded s)
            (\<lambda>s'. let targets' = removeAll key targets in
               if succeeded then init_loop so oo r targets' (i + 1) order s'
               else after_init so oo r targets' None order s')
      | Msg ReleaseParam \<Rightarrow> after_init so oo r targets None order s
      | Msg _ \<Rightarrow> after_init so oo r targets (Some (InvalidArgument ''invalid operation'')) order s)"
| "acq_recv so oo order ev (AwaitRelease r) s =
     (case ev of
        EOF \<Rightarrow> release_then so oo r order (Ended (Some (StreamErr ''EOF''))) s
      | RecvErr e \<Rightarrow> release_then so oo r order (Ended (Some (StreamErr e))) s
      | Msg ReleaseParam \<Rightarrow> release_then so oo r order AwaitAcquire s
      | Msg _ \<Rightarrow> Some (Inr (Ended (Some (InvalidArgument ''invalid operation'')), s)))"
| "acq_recv so oo order ev _ s = None"

text \<open>
  When the acquisition has returned: an error ends the stream, otherwise the results are sent and
  the loop over the initialisations starts.
\<close>

definition acq_return ::
  "'s sem_ops \<Rightarrow> 'o once_ops \<Rightarrow> string option \<Rightarrow> string list \<Rightarrow> acq_state \<Rightarrow> ('s, 'o) sys \<Rightarrow>
     (go_panic + (acq_state \<times> ('s, 'o) sys)) option" where
  "acq_return so oo send_err order st s =
     (case st of
        Acquiring r \<Rightarrow>
          (case sy_reqs s r of
             None \<Rightarrow> None
           | Some q \<Rightarrow>
               (case rq_phase q of
                  PFailed \<Rightarrow> Some (Inr (Ended (Some CtxError), s))
                | PHeld \<Rightarrow>
                    (case send_err of
                       Some e \<Rightarrow> release_then so oo r order (Ended (Some (StreamErr e))) s
                     | None \<Rightarrow>
                         init_loop so oo r (init_targets (acquire_results s r (rq_entries q))) 0 order s)
                | _ \<Rightarrow> None))
      | _ \<Rightarrow> None)"

section \<open>The server\<close>

record ('s, 'o) server =
  sv_sys :: "('s, 'o) sys"
  sv_streams :: "nat \<Rightarrow> acq_state option"

definition NewServer :: "'o once_ops \<Rightarrow> ('s, 'o) server" where
  "NewServer oo = \<lparr>sv_sys = NewSys oo, sv_streams = Map.empty\<rparr>"

text \<open>The steps that the goroutines of an acquisition make by themselves.\<close>

fun internal :: "label \<Rightarrow> bool" where
  "internal (Start r) = True"
| "internal (Cancel r) = True"
| "internal (Enter r k) = True"
| "internal (Try r k d) = True"
| "internal (WaitOk r) = True"
| "internal (WaitErr r ns) = True"
| "internal _ = False"

datatype server_event =
    SOpen nat
  | SInternal label
  | SReturn nat "string option" "string list"
  | SRecv nat "string list" "acquire_request recv"

definition with_stream ::
  "nat \<Rightarrow> ('s, 'o) server \<Rightarrow> (acq_state \<Rightarrow> (go_panic + (acq_state \<times> ('s, 'o) sys)) option) \<Rightarrow>
     (go_panic + ('s, 'o) server) option" where
  "with_stream i v f =
     (case sv_streams v i of
        None \<Rightarrow> None
      | Some st \<Rightarrow>
          map_option (map_sum id (\<lambda>(st', s'). \<lparr>sv_sys = s', sv_streams = (sv_streams v)(i \<mapsto> st')\<rparr>)) (f st))"

fun server_step ::
  "'s sem_ops \<Rightarrow> 'o once_ops \<Rightarrow> server_event \<Rightarrow> ('s, 'o) server \<Rightarrow> (go_panic + ('s, 'o) server) option" where
  "server_step so oo (SOpen i) v =
     (if sv_streams v i = None then Some (Inr (v\<lparr>sv_streams := (sv_streams v)(i \<mapsto> AwaitAcquire)\<rparr>)) else None)"
| "server_step so oo (SInternal a) v =
     (if internal a then map_option (map_sum id (\<lambda>s. v\<lparr>sv_sys := s\<rparr>)) (step so oo a (sv_sys v)) else None)"
| "server_step so oo (SReturn i send_err order) v =
     with_stream i v (\<lambda>st. acq_return so oo send_err order st (sv_sys v))"
| "server_step so oo (SRecv i order ev) v =
     with_stream i v (\<lambda>st. acq_recv so oo order ev st (sv_sys v))"

fun server_run ::
  "'s sem_ops \<Rightarrow> 'o once_ops \<Rightarrow> server_event list \<Rightarrow> ('s, 'o) server \<Rightarrow> (go_panic + ('s, 'o) server) option" where
  "server_run so oo [] v = Some (Inr v)"
| "server_run so oo (a # as) v =
     (case server_step so oo a v of
        Some (Inr v') \<Rightarrow> server_run so oo as v'
      | x \<Rightarrow> x)"

inductive server_reach :: "'s sem_ops \<Rightarrow> 'o once_ops \<Rightarrow> ('s, 'o) server \<Rightarrow> bool" for so oo where
  start: "server_reach so oo (NewServer oo)"
| step: "server_reach so oo v \<Longrightarrow> server_step so oo a v = Some (Inr v') \<Longrightarrow> server_reach so oo v'"

section \<open>Unary calls\<close>

text \<open>\<open>Interrupt\<close> hands on what the callback returns; \<open>Check\<close> maps the health checker's result to a status.\<close>

definition Interrupt :: "('w \<Rightarrow> go_error option \<times> 'w) \<Rightarrow> 'w \<Rightarrow> go_error option \<times> 'w" where
  "Interrupt callback w = callback w"

definition Check :: "go_error option \<Rightarrow> serving_status" where
  "Check healthCheck = (case healthCheck of Some _ \<Rightarrow> HealthUnknown | None \<Rightarrow> HealthServing)"

section \<open>The client\<close>

definition acquire_op_of :: "use_param \<Rightarrow> acquire_op" where
  "acquire_op_of param =
     (if up_exclusive param then (if up_init param = None then AcquireLock else AcquireInitLock)
      else (if up_init param = None then AcquireSharedLock else AcquireInitSharedLock))"

definition client_targets :: "(string, use_param) go_map \<Rightarrow> (string, acquire_op) go_map" where
  "client_targets params = map (\<lambda>(name, param). (name, acquire_op_of param)) params"

text \<open>
  The loop over the results: run the initialisations that were acquired and report each result. The
  loop stops at the first initialisation or \<open>Send\<close> that fails. \<open>app\<close> is \<open>multierr.Append\<close>, \<open>send\<close> the
  result of sending the report on a container and \<open>close\<close> that of \<open>CloseSend\<close>. The result lists the
  events the server receives because of the loop, and the error.
\<close>

fun client_inits ::
  "(go_error option \<Rightarrow> go_error option \<Rightarrow> go_error option) \<Rightarrow> (string \<Rightarrow> go_error option) \<Rightarrow> go_error option \<Rightarrow>
     (string, use_param) go_map \<Rightarrow> (string, lock_state \<times> bool) go_map \<Rightarrow> acquire_request recv list \<times> go_error option" where
  "client_inits app send close params [] = ([], None)"
| "client_inits app send close params ((name, state, acquireInit) # results) =
     (if acquireInit then
        (let initErr = initSafe (Option.bind (map_of params name) up_init);
             report = Msg (InitParam name (initErr = None))
         in case send name of
              Some err \<Rightarrow> ([], app initErr (Some err))
            | None \<Rightarrow>
                if initErr \<noteq> None then ([report, EOF], app initErr close)
                else (let (evs, err) = client_inits app send close params results in (report # evs, err)))
      else client_inits app send close params results)"

text \<open>The returned unlock function: a release message and the end of the stream.\<close>

definition client_unlock :: "acquire_request recv list" where
  "client_unlock = [Msg ReleaseParam, EOF]"

section \<open>The server keeps the Locker reachable\<close>

lemma and_then_Inr:
  "and_then x f = Some (Inr y) \<longleftrightarrow> (\<exists>a. x = Some (Inr a) \<and> f a = Some (Inr y))"
  by (auto simp: and_then_def split: option.splits sum.splits)

text \<open>
  What a handler does to the requests, seen through their phases: nothing, release its own request, or
  enter a new one.
\<close>

definition phase_of :: "('s, 'o) sys \<Rightarrow> nat \<Rightarrow> phase option" where
  "phase_of s r = map_option rq_phase (sy_reqs s r)"

lemma set_init_result_frame:
  assumes "set_init_result so oo r key ok s = Some (Inr s')"
  shows "phase_of s' = phase_of s" and "sys_reach so oo s \<Longrightarrow> sys_reach so oo s'"
proof -
  have st: "step so oo (InitResult r key ok) s = Some (Inr s')"
    using assms by (auto simp: set_init_result_def split: option.splits)
  then obtain q where q: "sy_reqs s r = Some q" "do_init_result so oo r q key ok s = Some (Inr s')"
    by (auto simp: with_req_def split: option.splits)
  show "phase_of s' = phase_of s"
    using q(2) by (rule do_init_result_Inr) (use q(1) in \<open>auto simp: phase_of_def fun_eq_iff\<close>)
  show "sys_reach so oo s \<Longrightarrow> sys_reach so oo s'" using sys_reach.step [OF _ st] .
qed

lemma release_then_frame:
  assumes "release_then so oo r order st s = Some (Inr (st', s'))"
  shows "st' = st" and "phase_of s' = (phase_of s)(r \<mapsto> PReleased)" and "sys_reach so oo s \<Longrightarrow> sys_reach so oo s'"
proof -
  have st: "step so oo (ReleaseAll r order) s = Some (Inr s')" and "st' = st"
    using assms by (auto simp: release_then_def and_then_Inr)
  then obtain q where q: "sy_reqs s r = Some q" "do_release so r q order s = Some (Inr s')"
    by (auto simp: with_req_def split: option.splits)
  show "st' = st" by fact
  show "phase_of s' = (phase_of s)(r \<mapsto> PReleased)"
    using q(2) by (rule do_release_Inr) (use q(1) in \<open>auto simp: phase_of_def fun_eq_iff\<close>)
  show "sys_reach so oo s \<Longrightarrow> sys_reach so oo s'" using sys_reach.step [OF _ st] .
qed

lemma report_failed_frame:
  "report_failed so oo r keys s = Some (Inr s') \<Longrightarrow> phase_of s' = phase_of s \<and> (sys_reach so oo s \<longrightarrow> sys_reach so oo s')"
proof (induction keys arbitrary: s)
  case (Cons key keys)
  then obtain s1 where "set_init_result so oo r key False s = Some (Inr s1)" "report_failed so oo r keys s1 = Some (Inr s')"
    by (auto simp: and_then_Inr)
  then show ?case using Cons.IH set_init_result_frame by metis
qed simp

text \<open>The request a handler works for.\<close>

definition works_for :: "acq_state \<Rightarrow> nat \<Rightarrow> bool" where
  "works_for st r \<longleftrightarrow> st = Acquiring r \<or> (\<exists>T i. st = Initialising r T i) \<or> st = AwaitRelease r"

text \<open>The end of a stream that received a message out of turn.\<close>

abbreviation out_of_turn :: acq_state where
  "out_of_turn \<equiv> Ended (Some (InvalidArgument ''invalid operation''))"

text \<open>What a step of a handler that works for a request may do.\<close>

definition own_step :: "nat \<Rightarrow> ('s, 'o) sys \<Rightarrow> acq_state \<times> ('s, 'o) sys \<Rightarrow> bool" where
  "own_step r s res \<longleftrightarrow>
     (case res of (st', s') \<Rightarrow>
        phase_of s' = phase_of s \<and> (works_for st' r \<or> st' = out_of_turn \<or> phase_of s r = Some PFailed) \<or>
        phase_of s' = (phase_of s)(r \<mapsto> PReleased))"

definition good_step :: "'s sem_ops \<Rightarrow> 'o once_ops \<Rightarrow> nat \<Rightarrow> ('s, 'o) sys \<Rightarrow> acq_state \<times> ('s, 'o) sys \<Rightarrow> bool" where
  "good_step so oo r s res \<longleftrightarrow> own_step r s res \<and> (sys_reach so oo s \<longrightarrow> sys_reach so oo (snd res))"

lemma good_stay:
  "works_for st r \<or> st = out_of_turn \<or> phase_of s r = Some PFailed \<Longrightarrow> good_step so oo r s (st, s)"
  by (simp add: good_step_def own_step_def)

lemma works_for_simps [simp]:
  "works_for (Acquiring r) r" "works_for (Initialising r T i) r" "works_for (AwaitRelease r) r"
  by (simp_all add: works_for_def)

lemma release_then_good: "release_then so oo r order st s = Some (Inr res) \<Longrightarrow> good_step so oo r s res"
  using release_then_frame by (cases res) (fastforce simp: good_step_def own_step_def)

lemma good_step_prefix:
  assumes "phase_of s1 = phase_of s" and "sys_reach so oo s \<longrightarrow> sys_reach so oo s1" and "good_step so oo r s1 res"
  shows "good_step so oo r s res"
  using assms by (auto simp: good_step_def own_step_def)

lemma after_init_good:
  assumes "after_init so oo r targets e order s = Some (Inr res)"
  shows "good_step so oo r s res"
proof -
  obtain s1 where s1: "report_failed so oo r targets s = Some (Inr s1)"
    and k: "(case e of Some err \<Rightarrow> release_then so oo r order (Ended (Some err)) s1
       | None \<Rightarrow> if targets \<noteq> [] then release_then so oo r order AwaitAcquire s1
                 else Some (Inr (AwaitRelease r, s1))) = Some (Inr res)"
    using assms by (auto simp: after_init_def and_then_Inr)
  have "good_step so oo r s1 res"
    using k by (auto split: option.splits if_splits intro: good_stay release_then_good)
  then show ?thesis using report_failed_frame [OF s1] by (auto intro: good_step_prefix)
qed

lemma init_loop_good: "init_loop so oo r targets i order s = Some (Inr res) \<Longrightarrow> good_step so oo r s res"
  by (auto simp: init_loop_def split: if_splits intro: good_stay after_init_good)

lemma acq_recv_good:
  assumes w: "works_for st r" and e: "acq_recv so oo order ev st s = Some (Inr res)"
  shows "good_step so oo r s res"
proof -
  have init: "good_step so oo r s res"
    if h: "and_then (set_init_result so oo r key ok s)
      (\<lambda>s'. let T' = removeAll key T in
         if ok then init_loop so oo r T' (i + 1) order s' else after_init so oo r T' None order s') = Some (Inr res)"
    for key ok T i
  proof -
    obtain s1 where s1: "set_init_result so oo r key ok s = Some (Inr s1)"
      and k: "(if ok then init_loop so oo r (removeAll key T) (i + 1) order s1
        else after_init so oo r (removeAll key T) None order s1) = Some (Inr res)"
      using h unfolding and_then_Inr Let_def by blast
    have "good_step so oo r s1 res" using k by (cases ok) (auto intro: init_loop_good after_init_good)
    then show ?thesis using set_init_result_frame [OF s1] by (metis good_step_prefix)
  qed
  consider (acq) "st = Acquiring r" | (ini) T i where "st = Initialising r T i" | (rel) "st = AwaitRelease r"
    using w by (auto simp: works_for_def)
  then show ?thesis
  proof cases
    case ini
    then show ?thesis
      using e by (auto split: recv.splits acquire_request.splits intro: init release_then_good after_init_good)
  next
    case rel
    then show ?thesis
      using e by (auto split: recv.splits acquire_request.splits intro: release_then_good good_stay)
  qed (use e in simp)
qed

lemma acq_return_good:
  assumes "acq_return so oo send_err order st s = Some (Inr res)"
  shows "\<exists>r. st = Acquiring r \<and> good_step so oo r s res"
  using assms
  by (auto simp: acq_return_def phase_of_def intro: release_then_good init_loop_good intro!: good_stay
      split: acq_state.splits option.splits phase.splits)

lemma acq_recv_new:
  assumes "acq_recv so oo order ev AwaitAcquire s = Some (Inr (st', s'))"
  shows "(phase_of s' = phase_of s \<or> (\<exists>n. st' = Acquiring n \<and> phase_of s' = (phase_of s)(n \<mapsto> PWait))) \<and>
    (sys_reach so oo s \<longrightarrow> sys_reach so oo s')"
proof -
  have "phase_of s1 = (phase_of s)(ac_next (ctl s) \<mapsto> PWait) \<and> (sys_reach so oo s \<longrightarrow> sys_reach so oo s1)"
    if h: "step so oo (Accept es) s = Some (Inr s1)" for es s1
    using h sys_reach.step [OF _ h]
    by (auto simp: do_accept_def Let_def case_prod_beta phase_of_def fun_eq_iff accept_def split: if_splits)
  then show ?thesis
    using assms by (auto simp: and_then_Inr split: recv.splits acquire_request.splits sum.splits)
qed

lemma internal_phase:
  assumes "internal a" and "step so oo a s = Some (Inr s')"
  shows "\<exists>r y. phase_of s' = (phase_of s)(r \<mapsto> y) \<and> phase_of s r \<in> {Some PWait, Some PLock} \<and> y \<noteq> PWait"
proof (cases a)
  case (Try r k d)
  then obtain q where q: "sy_reqs s r = Some q" and t: "do_try so oo r q k d s = Some s'"
    using assms(2) by (auto simp: with_req_def split: option.splits)
  have "rq_phase q = PLock \<and> phase_of s' = (phase_of s)(r \<mapsto> PLock)"
    using t by (cases rule: do_try_cases) (use q in \<open>auto simp: phase_of_def fun_eq_iff\<close>)
  then show ?thesis using q by (intro exI [of _ r] exI [of _ PLock]) (simp add: phase_of_def)
next
  case (Enter r k)
  then show ?thesis
    using assms(2)
    by (intro exI [of _ r] exI [of _ PLock])
      (auto simp: with_req_def do_enter_def phase_of_def fun_eq_iff split: option.splits if_splits prod.splits)
next
  case (WaitErr r ns)
  then show ?thesis
    using assms(2)
    by (intro exI [of _ r] exI [of _ PFailed])
      (auto simp: with_req_def do_wait_err_def Let_def map_sum_Inr phase_of_def fun_eq_iff split: option.splits if_splits)
next
  case (Start r)
  then show ?thesis
    using assms(2)
    by (intro exI [of _ r] exI [of _ PLock])
      (auto simp: with_req_def do_start_def phase_of_def fun_eq_iff split: option.splits if_splits)
next
  case (Cancel r)
  then show ?thesis
    using assms(2)
    by (intro exI [of _ r] exI [of _ PFailed])
      (auto simp: with_req_def do_cancel_def phase_of_def fun_eq_iff split: option.splits if_splits)
next
  case (WaitOk r)
  then show ?thesis
    using assms(2)
    by (intro exI [of _ r] exI [of _ PHeld])
      (auto simp: with_req_def do_wait_ok_def phase_of_def fun_eq_iff split: option.splits if_splits)
qed (use assms(1) in simp_all)

text \<open>
  Every request that has not ended belongs to a stream: to one that is acquiring while it is not yet
  granted, and to one that works for it once it is granted, unless some stream has ended with a
  message out of turn.
\<close>

definition streams_own :: "('s, 'o) server \<Rightarrow> bool" where
  "streams_own v \<longleftrightarrow>
     (\<forall>r ph. phase_of (sv_sys v) r = Some ph \<longrightarrow> ph \<in> {PWait, PLock, PHeld} \<longrightarrow>
        (\<exists>i. sv_streams v i = Some (Acquiring r)) \<or>
        (ph = PHeld \<and> ((\<exists>i st. sv_streams v i = Some st \<and> works_for st r) \<or> (\<exists>i. sv_streams v i = Some out_of_turn))))"

definition server_inv :: "'s sem_ops \<Rightarrow> 'o once_ops \<Rightarrow> ('s, 'o) server \<Rightarrow> bool" where
  "server_inv so oo v \<longleftrightarrow> sys_reach so oo (sv_sys v) \<and> streams_own v"

lemma works_for_unique: "works_for st r \<Longrightarrow> works_for st r' \<Longrightarrow> r' = r"
  by (auto simp: works_for_def)

text \<open>A request of which the stepping stream is not in charge keeps its stream.\<close>

lemma keeps_stream:
  assumes "sv_streams v i = Some st" and "\<not> works_for st r'" and "st \<noteq> out_of_turn"
    and "(\<exists>j. sv_streams v j = Some (Acquiring r')) \<or>
      (ph = PHeld \<and> ((\<exists>j s. sv_streams v j = Some s \<and> works_for s r') \<or> (\<exists>j. sv_streams v j = Some out_of_turn)))"
  shows "(\<exists>j. ((sv_streams v)(i \<mapsto> st')) j = Some (Acquiring r')) \<or>
      (ph = PHeld \<and> ((\<exists>j s. ((sv_streams v)(i \<mapsto> st')) j = Some s \<and> works_for s r') \<or>
                     (\<exists>j. ((sv_streams v)(i \<mapsto> st')) j = Some out_of_turn)))"
proof -
  have other: "\<exists>j. ((sv_streams v)(i \<mapsto> st')) j = Some s"
    if "sv_streams v j = Some s" "works_for s r' \<or> s = out_of_turn" for j s
    using that assms(1-3) by (intro exI [of _ j]) auto
  show ?thesis using assms(4) other by (metis works_for_simps(1))
qed

lemma streams_own_work:
  assumes own: "streams_own v" and i: "sv_streams v i = Some st" and w: "works_for st r"
    and st: "own_step r (sv_sys v) (st', s')"
    and acq: "st = Acquiring r \<Longrightarrow> phase_of (sv_sys v) r \<in> {Some PHeld, Some PFailed}"
  shows "streams_own \<lparr>sv_sys = s', sv_streams = (sv_streams v)(i \<mapsto> st')\<rparr>"
  unfolding streams_own_def
proof (intro allI impI)
  fix r' ph
  assume ph: "phase_of (sv_sys \<lparr>sv_sys = s', sv_streams = (sv_streams v)(i \<mapsto> st')\<rparr>) r' = Some ph"
    and live: "ph \<in> {PWait, PLock, PHeld}"
  let ?S = "(sv_streams v)(i \<mapsto> st')"
  let ?ok = "(\<exists>j. ?S j = Some (Acquiring r')) \<or>
      (ph = PHeld \<and> ((\<exists>j s. ?S j = Some s \<and> works_for s r') \<or> (\<exists>j. ?S j = Some out_of_turn)))"
  have old: "phase_of (sv_sys v) r' = Some ph"
    using ph live st by (auto simp: own_step_def split: if_splits)
  have charge: "(\<exists>j. sv_streams v j = Some (Acquiring r')) \<or>
      (ph = PHeld \<and> ((\<exists>j s. sv_streams v j = Some s \<and> works_for s r') \<or> (\<exists>j. sv_streams v j = Some out_of_turn)))"
    using own old live unfolding streams_own_def by blast
  have nout: "st \<noteq> out_of_turn" using w by (auto simp: works_for_def)
  have "?ok"
  proof (cases "r' = r")
    case False
    then show ?thesis using keeps_stream [OF i _ nout charge] works_for_unique [OF w] by blast
  next
    case True
    show ?thesis
    proof (cases "ph = PHeld")
      case True
      have "works_for st' r \<or> st' = out_of_turn"
        using st ph live old \<open>r' = r\<close> True by (auto simp: own_step_def split: if_splits)
      then show ?thesis using \<open>ph = PHeld\<close> \<open>r' = r\<close> by (metis fun_upd_same)
    next
      case False
      then obtain j where j: "sv_streams v j = Some (Acquiring r)" using charge \<open>r' = r\<close> by blast
      have "j \<noteq> i" using j i acq old live False \<open>r' = r\<close> by auto
      then show ?thesis using j \<open>r' = r\<close> by auto
    qed
  qed
  then show "(\<exists>j. sv_streams \<lparr>sv_sys = s', sv_streams = ?S\<rparr> j = Some (Acquiring r')) \<or>
     (ph = PHeld \<and> ((\<exists>j s. sv_streams \<lparr>sv_sys = s', sv_streams = ?S\<rparr> j = Some s \<and> works_for s r') \<or>
        (\<exists>j. sv_streams \<lparr>sv_sys = s', sv_streams = ?S\<rparr> j = Some out_of_turn)))"
    by simp
qed

text \<open>A stream that is not working for a request: it may end, or enter a new request.\<close>

lemma streams_own_new:
  assumes own: "streams_own v" and i: "sv_streams v i = Some AwaitAcquire"
    and st: "phase_of s' = phase_of (sv_sys v) \<or>
      (\<exists>n. st' = Acquiring n \<and> phase_of s' = (phase_of (sv_sys v))(n \<mapsto> PWait))"
  shows "streams_own \<lparr>sv_sys = s', sv_streams = (sv_streams v)(i \<mapsto> st')\<rparr>"
  unfolding streams_own_def server.simps
proof (intro allI impI)
  fix r ph
  assume ph: "phase_of s' r = Some ph" and live: "ph \<in> {PWait, PLock, PHeld}"
  show "(\<exists>j. ((sv_streams v)(i \<mapsto> st')) j = Some (Acquiring r)) \<or>
      (ph = PHeld \<and> ((\<exists>j s. ((sv_streams v)(i \<mapsto> st')) j = Some s \<and> works_for s r) \<or>
                     (\<exists>j. ((sv_streams v)(i \<mapsto> st')) j = Some out_of_turn)))"
  proof (cases "st' = Acquiring r")
    case True
    then show ?thesis by (metis fun_upd_same)
  next
    case False
    then have "phase_of (sv_sys v) r = Some ph" using st ph by (auto split: if_splits)
    then have "(\<exists>j. sv_streams v j = Some (Acquiring r)) \<or>
      (ph = PHeld \<and> ((\<exists>j s. sv_streams v j = Some s \<and> works_for s r) \<or> (\<exists>j. sv_streams v j = Some out_of_turn)))"
      using own live unfolding streams_own_def by blast
    then show ?thesis by (intro keeps_stream [OF i]) (simp_all add: works_for_def)
  qed
qed

lemma streams_own_mono:
  assumes "streams_own v" and "sv_sys v' = sv_sys v" and "\<And>j s. sv_streams v j = Some s \<Longrightarrow> sv_streams v' j = Some s"
  shows "streams_own v'"
  unfolding streams_own_def
proof (intro allI impI)
  fix r ph
  assume "phase_of (sv_sys v') r = Some ph" "ph \<in> {PWait, PLock, PHeld}"
  then have "(\<exists>i. sv_streams v i = Some (Acquiring r)) \<or>
      (ph = PHeld \<and> ((\<exists>i st. sv_streams v i = Some st \<and> works_for st r) \<or> (\<exists>i. sv_streams v i = Some out_of_turn)))"
    using assms(1) unfolding assms(2) streams_own_def by blast
  then show "(\<exists>i. sv_streams v' i = Some (Acquiring r)) \<or>
      (ph = PHeld \<and> ((\<exists>i st. sv_streams v' i = Some st \<and> works_for st r) \<or> (\<exists>i. sv_streams v' i = Some out_of_turn)))"
    using assms(3) by blast
qed

lemma streams_own_internal:
  assumes own: "streams_own v" and a: "internal a" "step so oo a (sv_sys v) = Some (Inr s')"
  shows "streams_own (v\<lparr>sv_sys := s'\<rparr>)"
proof -
  obtain r y where y: "phase_of s' = (phase_of (sv_sys v))(r \<mapsto> y)" "phase_of (sv_sys v) r \<in> {Some PWait, Some PLock}"
    using internal_phase [OF a] by blast
  then have "\<exists>i. sv_streams v i = Some (Acquiring r)" using own unfolding streams_own_def by blast
  then show ?thesis using own y(1) unfolding streams_own_def by auto
qed

lemma acq_recv_states: "acq_recv so oo order ev st s = Some x \<Longrightarrow> st = AwaitAcquire \<or> (\<exists>r. works_for st r \<and> st \<noteq> Acquiring r)"
  by (cases st) (auto simp: works_for_def)

lemma with_stream_Inr:
  "with_stream i v f = Some (Inr v') \<longleftrightarrow>
     (\<exists>st st' s'. sv_streams v i = Some st \<and> f st = Some (Inr (st', s')) \<and>
        v' = \<lparr>sv_sys = s', sv_streams = (sv_streams v)(i \<mapsto> st')\<rparr>)"
  by (auto simp: with_stream_def map_sum_Inr split: option.splits)

lemma server_inv_recv:
  assumes inv: "server_inv so oo v" and st: "with_stream i v (\<lambda>st. acq_recv so oo order ev st (sv_sys v)) = Some (Inr v')"
  shows "server_inv so oo v'"
proof -
  obtain st st' s' where i: "sv_streams v i = Some st"
    and r: "acq_recv so oo order ev st (sv_sys v) = Some (Inr (st', s'))"
    and v': "v' = \<lparr>sv_sys = s', sv_streams = (sv_streams v)(i \<mapsto> st')\<rparr>"
    using st by (auto simp: with_stream_Inr)
  have own: "streams_own v" and re: "sys_reach so oo (sv_sys v)" using inv by (simp_all add: server_inv_def)
  from acq_recv_states [OF r] consider (new) "st = AwaitAcquire" | (work) n where "works_for st n" "st \<noteq> Acquiring n"
    by blast
  then show ?thesis
  proof cases
    case new
    then show ?thesis
      using acq_recv_new [of so oo order ev "sv_sys v" st' s'] r re streams_own_new [OF own, of i s' st'] i
      by (auto simp: server_inv_def v')
  next
    case work
    then show ?thesis
      using acq_recv_good [OF work(1) r] re streams_own_work [OF own i work(1), of st' s']
      by (auto simp: server_inv_def v' good_step_def)
  qed
qed

lemma server_inv_return:
  assumes inv: "server_inv so oo v" and st: "with_stream i v (\<lambda>st. acq_return so oo e order st (sv_sys v)) = Some (Inr v')"
  shows "server_inv so oo v'"
proof -
  obtain st st' s' where i: "sv_streams v i = Some st"
    and r: "acq_return so oo e order st (sv_sys v) = Some (Inr (st', s'))"
    and v': "v' = \<lparr>sv_sys = s', sv_streams = (sv_streams v)(i \<mapsto> st')\<rparr>"
    using st by (auto simp: with_stream_Inr)
  have own: "streams_own v" and re: "sys_reach so oo (sv_sys v)" using inv by (simp_all add: server_inv_def)
  obtain n where n: "st = Acquiring n" and g: "good_step so oo n (sv_sys v) (st', s')"
    using acq_return_good [OF r] by blast
  have "phase_of (sv_sys v) n \<in> {Some PHeld, Some PFailed}"
    using r n by (auto simp: acq_return_def phase_of_def split: option.splits phase.splits)
  then show ?thesis
    using g re n streams_own_work [OF own i, of n st' s'] by (auto simp: server_inv_def v' good_step_def)
qed

lemma server_inv_step:
  assumes inv: "server_inv so oo v" and st: "server_step so oo a v = Some (Inr v')"
  shows "server_inv so oo v'"
proof (cases a)
  case (SOpen i)
  then have n: "sv_streams v i = None" and v': "v' = v\<lparr>sv_streams := (sv_streams v)(i \<mapsto> AwaitAcquire)\<rparr>"
    using st by (auto split: if_splits)
  have "streams_own v" using inv by (simp add: server_inv_def)
  then have "streams_own v'"
    by (rule streams_own_mono) (use n in \<open>auto simp: v'\<close>)
  then show ?thesis using inv by (simp add: server_inv_def v')
next
  case (SInternal b)
  then show ?thesis
    using inv st streams_own_internal [of v b so oo] sys_reach.step [of so oo "sv_sys v" b]
    by (auto simp: server_inv_def map_sum_Inr split: if_splits)
next
  case (SReturn i e order)
  then show ?thesis using server_inv_return [OF inv] st by simp
next
  case (SRecv i order ev)
  then show ?thesis using server_inv_recv [OF inv] st by simp
qed

lemma streams_own_start: "streams_own (NewServer oo)"
  by (simp add: streams_own_def NewServer_def NewSys_def phase_of_def)

lemma server_reach_inv: "server_reach so oo v \<Longrightarrow> server_inv so oo v"
proof (induction rule: server_reach.induct)
  case start
  have "sys_reach so oo (sv_sys (NewServer oo))" by (simp add: NewServer_def sys_reach.start)
  then show ?case by (simp add: server_inv_def streams_own_start)
qed (rule server_inv_step)

section \<open>The client and the server agree\<close>

lemma client_inits_reports:
  "client_inits app (\<lambda>_. None) close params results = (evs, None) \<Longrightarrow> (\<And>e x. app (Some e) x \<noteq> None) \<Longrightarrow>
     evs = map (\<lambda>name. Msg (InitParam name True)) (init_targets results)"
proof (induction results arbitrary: evs)
  case (Cons x results)
  obtain name state acq where x: "x = (name, state, acq)" by (cases x)
  show ?case
  proof (cases acq)
    case False
    then show ?thesis using Cons x by (simp add: init_targets_def)
  next
    case True
    have ok: "initSafe (Option.bind (map_of params name) up_init) = None"
    proof (cases "initSafe (Option.bind (map_of params name) up_init)")
      case (Some e)
      then show ?thesis using Cons.prems(1) x True Cons.prems(2) [of e close] by simp
    qed
    obtain evs' err where r: "client_inits app (\<lambda>_. None) close params results = (evs', err)"
      by (cases "client_inits app (\<lambda>_. None) close params results")
    then have e: "err = None" "evs = Msg (InitParam name True) # evs'"
      using Cons.prems(1) x True ok by (auto simp: Let_def)
    have "evs' = map (\<lambda>name. Msg (InitParam name True)) (init_targets results)"
      by (rule Cons.IH) (use r e Cons.prems(2) in auto)
    then show ?thesis using e x True by (simp add: init_targets_def)
  qed
qed (simp add: init_targets_def)

lemma init_targets_locked:
  assumes "k \<in> set (init_targets (acquire_results s r es))"
  shows "k \<in> set (map fst es)" and "lock_of s r k \<noteq> None"
  using assms by (force simp: init_targets_def acquire_results_def Let_def split: option.splits)+

context weighted_semaphore
begin

lemma single_init_agrees:
  assumes re: "sys_reach so oo (sv_sys v)" and i: "sv_streams v i = Some (Acquiring r)"
    and q: "sy_reqs (sv_sys v) r = Some q" "rq_phase q = PHeld" "rq_entries q = use_entries params"
    and T: "init_targets (acquire_results (sv_sys v) r (rq_entries q)) = T" "length T \<le> 1"
  shows "\<exists>v'. server_run so oo (SReturn i None order # map (\<lambda>n. SRecv i order (Msg (InitParam n True))) T) v = Some (Inr v') \<and>
    sv_streams v' i = Some (AwaitRelease r) \<and> phase_of (sv_sys v') r = Some PHeld"
proof (cases T)
  case Nil
  then show ?thesis
    using i q T by (simp add: with_stream_def acq_return_def init_loop_def after_init_def and_then_def phase_of_def)
next
  case (Cons name T')
  then have Tn: "T = [name]" using T(2) by simp
  let ?v = "v\<lparr>sv_streams := (sv_streams v)(i \<mapsto> Initialising r [name] 0)\<rparr>"
  have first: "server_step so oo (SReturn i None order) v = Some (Inr ?v)"
    using i q T(1) Tn by (simp add: with_stream_def acq_return_def init_loop_def)
  have held: "held_use so oo (sv_sys v) r params" using re q by (auto simp: held_use_def)
  have nm: "name \<in> set (map fst params)" "lock_of (sv_sys v) r name \<noteq> None"
    using init_targets_locked [of name "sv_sys v" r "rq_entries q"] T(1) Tn q(3) by simp_all
  obtain s' where s': "step so oo (InitResult r name True) (sv_sys v) = Some (Inr s')" "held_use so oo s' r params"
    using init_result_step [OF held nm(1)] by blast
  have "phase_of s' r = Some PHeld" using s'(2) by (auto simp: held_use_def phase_of_def)
  moreover have "server_step so oo (SRecv i order (Msg (InitParam name True))) ?v =
      Some (Inr \<lparr>sv_sys = s', sv_streams = (sv_streams v)(i \<mapsto> AwaitRelease r)\<rparr>)"
    using s'(1) nm(2)
    by (auto simp: with_stream_def set_init_result_def and_then_def init_loop_def after_init_def split: option.splits)
  ultimately show ?thesis using first Tn by simp
qed

end

lemma acquire_entries_client:
  assumes "'''' \<notin> set (map fst params)"
  shows "acquire_entries (client_targets params) = Inr (use_entries params)"
  using assms
proof (induction params)
  case (Cons x params)
  obtain name p where x: "x = (name, p)" by (cases x)
  have IH: "acquire_entries (map (\<lambda>(name, param). (name, acquire_op_of param)) params) = Inr (use_entries params)"
    using Cons by (simp add: client_targets_def)
  have "name \<noteq> ''''" using Cons.prems x by auto
  then show ?case using IH by (simp add: x client_targets_def use_entries_def acquire_op_of_def)
qed (simp_all add: client_targets_def use_entries_def)

section \<open>Example runs\<close>

abbreviation server_example :: "server_event list \<Rightarrow> (go_panic + (int \<times> int, string list) server) option" where
  "server_example evs \<equiv> server_run counting_sem list_once evs (NewServer list_once)"

lemma server_run_reach:
  "server_reach so oo v \<Longrightarrow> server_run so oo evs v = Some (Inr v') \<Longrightarrow> server_reach so oo v'"
proof (induction evs arbitrary: v)
  case (Cons a evs)
  then show ?case by (auto split: option.splits sum.splits intro: server_reach.step)
qed simp

lemma server_example_reach: "server_example evs = Some (Inr v) \<Longrightarrow> server_reach counting_sem list_once v"
  by (rule server_run_reach [OF server_reach.start])

definition use_two :: "(string, use_param) go_map" where
  "use_two =
     [(''db'', \<lparr>up_exclusive = True, up_init = Some InitOk\<rparr>), (''kv'', \<lparr>up_exclusive = True, up_init = Some InitOk\<rparr>)]"

definition use_one :: "(string, use_param) go_map" where
  "use_one = [(''db'', \<lparr>up_exclusive = False, up_init = Some InitOk\<rparr>)]"

text \<open>A stream that asks for the containers of a call and is granted all of them.\<close>

definition granted_stream :: "(string, use_param) go_map \<Rightarrow> server_event list" where
  "granted_stream params =
     [SOpen 0, SRecv 0 [] (Msg (AcquireParam (client_targets params))), SInternal (Start 0)] @
     map (\<lambda>(k, _). SInternal (Enter 0 k)) params @ map (\<lambda>(k, _). SInternal (Try 0 k False)) params @
     [SInternal (WaitOk 0)]"

text \<open>The results the client gets, and what it sends because of them.\<close>

definition client_events :: "(string, use_param) go_map \<Rightarrow> acquire_request recv list \<times> go_error option" where
  "client_events params =
     client_inits (\<lambda>a b. case a of None \<Rightarrow> b | Some x \<Rightarrow> Some x) (\<lambda>_. None) None params
       (map (\<lambda>(k, p). (k, StateLocked, up_init p \<noteq> None)) params)"

section \<open>Main properties\<close>

text \<open>
  Mutual exclusion between the clients of a beacon server. In every state that any number of
  streams can reach, whatever messages arrive and however streams end, a request that holds a
  container exclusively is its only holder.
\<close>

theorem beacon_container_exclusion:
  assumes "weighted_semaphore so cur size_of" and "server_reach so oo v"
    and "hold (sv_sys v) i k = Some True" and "hold (sv_sys v) j k \<noteq> None"
  shows "j = i"
proof -
  have "sys_reach so oo (sv_sys v)" using server_reach_inv [OF assms(2)] by (simp add: server_inv_def)
  from weighted_semaphore.reach_exclusion [OF assms(1) this assms(3,4)] show ?thesis .
qed

theorem beacon_container_exclusion_witness:
  "\<exists>v. server_example (granted_stream use_two) = Some (Inr v) \<and> hold (sv_sys v) 0 ''db'' = Some True \<and>
     (\<forall>j. hold (sv_sys v) j ''db'' \<noteq> None \<longrightarrow> j = 0)"
proof -
  have "map_option (map_sum id (\<lambda>v. hold (sv_sys v) 0 ''db'')) (server_example (granted_stream use_two)) =
    Some (Inr (Some True))" by code_simp
  then obtain v where v: "server_example (granted_stream use_two) = Some (Inr v)" "hold (sv_sys v) 0 ''db'' = Some True"
    by (auto simp: map_sum_Inr Some_eq_map_option)
  with beacon_container_exclusion [OF csem.weighted_semaphore_axioms server_example_reach [OF v(1)] v(2)]
  show ?thesis by blast
qed

text \<open>
  C19: No lock without a stream. Every granted request belongs to a stream that is still working for
  it, so a client that disconnects, breaks off or fails gives its locks back; the only exception
  are streams that ended because of a message out of turn.
\<close>

theorem beacon_locks_owned:
  assumes "server_reach so oo v" and "sy_reqs (sv_sys v) r = Some q" and "rq_phase q = PHeld"
  shows "(\<exists>i st. sv_streams v i = Some st \<and> works_for st r) \<or> (\<exists>i. sv_streams v i = Some out_of_turn)"
proof -
  have "phase_of (sv_sys v) r = Some PHeld" using assms(2,3) by (simp add: phase_of_def)
  then have "(\<exists>i. sv_streams v i = Some (Acquiring r)) \<or> (\<exists>i st. sv_streams v i = Some st \<and> works_for st r) \<or>
      (\<exists>i. sv_streams v i = Some out_of_turn)"
    using server_reach_inv [OF assms(1)] unfolding server_inv_def streams_own_def by blast
  then show ?thesis using works_for_simps(1) by blast
qed

theorem beacon_locks_owned_witness:
  "\<exists>v q. server_example (granted_stream use_two) = Some (Inr v) \<and> sy_reqs (sv_sys v) 0 = Some q \<and>
     rq_phase q = PHeld \<and>
     ((\<exists>i st. sv_streams v i = Some st \<and> works_for st 0) \<or> (\<exists>i. sv_streams v i = Some out_of_turn))"
proof -
  have "map_option (map_sum id (\<lambda>v. phase_of (sv_sys v) 0)) (server_example (granted_stream use_two)) =
    Some (Inr (Some PHeld))" by code_simp
  then obtain v q where v: "server_example (granted_stream use_two) = Some (Inr v)" "sy_reqs (sv_sys v) 0 = Some q"
    "rq_phase q = PHeld"
    by (auto simp: map_sum_Inr Some_eq_map_option phase_of_def)
  with beacon_locks_owned [OF server_example_reach [OF v(1)] v(2,3)] show ?thesis by blast
qed

text \<open>
  A message out of turn leaks the locks. A granted stream that receives a second acquire message
  instead of the release message returns an error, but its containers stay locked and no stream is
  left that could release them.
\<close>

theorem out_of_turn_leaks_locks:
  "\<exists>v. server_example (granted_stream use_one @ [SReturn 0 None [''db''], SRecv 0 [''db''] (Msg (InitParam ''db'' True)),
       SRecv 0 [''db''] (Msg (AcquireParam []))]) = Some (Inr v) \<and>
     sv_streams v 0 = Some out_of_turn \<and> hold (sv_sys v) 0 ''db'' = Some False \<and> phase_of (sv_sys v) 0 = Some PHeld"
proof -
  have "map_option (map_sum id (\<lambda>v. (sv_streams v 0, hold (sv_sys v) 0 ''db'', phase_of (sv_sys v) 0)))
    (server_example (granted_stream use_one @ [SReturn 0 None [''db''], SRecv 0 [''db''] (Msg (InitParam ''db'' True)),
       SRecv 0 [''db''] (Msg (AcquireParam []))])) = Some (Inr (Some out_of_turn, Some False, Some PHeld))"
    by code_simp
  then show ?thesis by (auto simp: map_sum_Inr Some_eq_map_option)
qed

text \<open>
  A call with at most one initialisation works through the beacon. When the server has granted the
  locks of a call, at most one of them comes with the initialisation, and the client's loop ends
  without error, then after the client's reports the server still holds all locks for the client
  and waits for its release.
\<close>

theorem beacon_use_agrees:
  assumes "weighted_semaphore so cur size_of" and "server_reach so oo v"
    and "sv_streams v i = Some (Acquiring r)" and "sy_reqs (sv_sys v) r = Some q"
    and "rq_phase q = PHeld" and "rq_entries q = use_entries params"
    and "results = acquire_results (sv_sys v) r (rq_entries q)" and "length (init_targets results) \<le> 1"
    and "client_inits app (\<lambda>_. None) close params results = (evs, None)" and "\<And>e x. app (Some e) x \<noteq> None"
  shows "\<exists>v'. server_run so oo (SReturn i None order # map (SRecv i order) evs) v = Some (Inr v') \<and>
    sv_streams v' i = Some (AwaitRelease r) \<and> phase_of (sv_sys v') r = Some PHeld"
proof -
  have re: "sys_reach so oo (sv_sys v)" using server_reach_inv [OF assms(2)] by (simp add: server_inv_def)
  have "evs = map (\<lambda>name. Msg (InitParam name True)) (init_targets results)"
    using assms(9,10) by (rule client_inits_reports)
  then have "map (SRecv i order) evs = map (\<lambda>n. SRecv i order (Msg (InitParam n True))) (init_targets results)"
    by simp
  then show ?thesis
    using weighted_semaphore.single_init_agrees [OF assms(1) re assms(3-6), of "init_targets results" order] assms(7,8)
    by simp
qed

theorem beacon_use_agrees_witness:
  "\<exists>v v'. server_example (granted_stream use_one) = Some (Inr v) \<and>
     server_run counting_sem list_once (SReturn 0 None [''db''] # map (SRecv 0 [''db'']) (fst (client_events use_one))) v =
       Some (Inr v') \<and>
     sv_streams v' 0 = Some (AwaitRelease 0) \<and> phase_of (sv_sys v') 0 = Some PHeld"
proof -
  let ?app = "\<lambda>a b. case a of None \<Rightarrow> b | Some (x :: go_error) \<Rightarrow> Some x"
  have "map_option (map_sum id (\<lambda>v. (sv_streams v 0, map_option (\<lambda>q. (rq_phase q, rq_entries q,
      acquire_results (sv_sys v) 0 (rq_entries q))) (sy_reqs (sv_sys v) 0)))) (server_example (granted_stream use_one)) =
    Some (Inr (Some (Acquiring 0), Some (PHeld, use_entries use_one, [(''db'', StateLocked, True)])))"
    by code_simp
  then obtain v q where v: "server_example (granted_stream use_one) = Some (Inr v)" "sv_streams v 0 = Some (Acquiring 0)"
    "sy_reqs (sv_sys v) 0 = Some q" "rq_phase q = PHeld" "rq_entries q = use_entries use_one"
    and res: "[(''db'', StateLocked, True)] = acquire_results (sv_sys v) 0 (rq_entries q)"
    by (auto simp: map_sum_Inr Some_eq_map_option)
  have T: "length (init_targets [(''db'', StateLocked, True)]) \<le> 1" by (simp add: init_targets_def)
  have c: "client_inits ?app (\<lambda>_. None) None use_one [(''db'', StateLocked, True)] = (fst (client_events use_one), None)"
    by (simp add: client_events_def use_one_def initSafe_def Let_def)
  have a: "?app (Some e) x \<noteq> None" for e x by simp
  from beacon_use_agrees [OF csem.weighted_semaphore_axioms server_example_reach [OF v(1)] v(2-5) res T c a] v(1)
  show ?thesis by blast
qed


text \<open>
  A report on a container that was not asked for crashes the server: the handler dereferences a
  nil entry, whatever the state of the other streams.
\<close>

theorem unknown_key_crashes_server:
  assumes "sv_streams v i = Some (Initialising r T n)" and "sy_reqs (sv_sys v) r = Some q"
    and "server_reach so oo v" and "key \<notin> keys_of q"
  shows "server_step so oo (SRecv i order (Msg (InitParam key ok))) v = Some (Inl NilDereference)"
proof -
  have "sys_reach so oo (sv_sys v)" using server_reach_inv [OF assms(3)] by (simp add: server_inv_def)
  then have "req_shape q" using struct_invD(2) [OF sys_reach_struct_inv assms(2)] by (simp add: req_ok_def)
  then have "lock_of (sv_sys v) r key = None" using assms(2,4) by (simp add: lock_of_def req_shape_def)
  then show ?thesis using assms(1) by (simp add: with_stream_def set_init_result_def and_then_def)
qed

theorem unknown_key_crashes_server_witness:
  "\<exists>v. server_example (granted_stream use_one @ [SReturn 0 None [''db'']]) = Some (Inr v) \<and>
     server_step counting_sem list_once (SRecv 0 [''db''] (Msg (InitParam ''kv'' True))) v = Some (Inl NilDereference)"
proof -
  have "map_option (map_sum id (\<lambda>v. (sv_streams v 0, map_option (\<lambda>q. ''kv'' \<in> keys_of q) (sy_reqs (sv_sys v) 0))))
    (server_example (granted_stream use_one @ [SReturn 0 None [''db'']])) =
    Some (Inr (Some (Initialising 0 [''db''] 0), Some False))" by code_simp
  then obtain v q where v: "server_example (granted_stream use_one @ [SReturn 0 None [''db'']]) = Some (Inr v)"
    "sv_streams v 0 = Some (Initialising 0 [''db''] 0)" "sy_reqs (sv_sys v) 0 = Some q" "''kv'' \<notin> keys_of q"
    by (auto simp: map_sum_Inr Some_eq_map_option)
  from unknown_key_crashes_server [OF v(2,3) server_example_reach [OF v(1)] v(4)] v(1) show ?thesis by blast
qed

text \<open>
  What the client asks for is what the server acquires: decoding the operations that the client
  encodes gives the entries of the in-process control for the same parameters.
\<close>

theorem acquire_operation_roundtrip:
  assumes "'''' \<notin> set (map fst params)"
  shows "acquire_entries (client_targets params) = Inr (use_entries params)"
  using assms by (rule acquire_entries_client)

theorem acquire_operation_roundtrip_witness:
  "acquire_entries (client_targets (use_one @ use_example InitOk)) = Inr (use_entries (use_one @ use_example InitOk))"
  by (rule acquire_operation_roundtrip) (simp add: use_one_def use_example_def)

text \<open>
  A client that disconnects before it reports loses the initialisation. The server releases the
  container without reporting a failed initialisation to the Locker, so that the container, which
  nobody has initialised, is never offered for initialisation again.
\<close>

theorem disconnect_loses_init:
  "\<exists>v. server_example (granted_stream use_one @ [SReturn 0 None [''db''], SRecv 0 [''db''] (RecvErr ''broken'')]) =
      Some (Inr v) \<and>
     phase_of (sv_sys v) 0 = Some PReleased \<and> hold (sv_sys v) 0 ''db'' = None \<and>
     fst (OnceDo list_once (lk_once (sy_locker (sv_sys v))) ''db'') = False"
proof -
  have "map_option (map_sum id (\<lambda>v. (phase_of (sv_sys v) 0, hold (sv_sys v) 0 ''db'',
      fst (OnceDo list_once (lk_once (sy_locker (sv_sys v))) ''db''))))
    (server_example (granted_stream use_one @ [SReturn 0 None [''db''], SRecv 0 [''db''] (RecvErr ''broken'')])) =
    Some (Inr (Some PReleased, None, False))" by code_simp
  then show ?thesis by (auto simp: map_sum_Inr Some_eq_map_option)
qed

end
