(* ===== verification/Locker_Refinement.thy ===== *)
theory Locker_Refinement
  imports Beacon_Acquire
begin

text \<open>
  What \<open>AcquireContainerLock\<close> promises, as an abstract machine: every container has one reader/writer lock, a call
  takes the locks of all its containers in one atomic step, an exclusive lock can become a shared one, and a release
  gives everything back. The protocol of the Locker (queueing, goroutines, one lock after the other, giving back after
  a failure) refines this machine: a failed call is never visible, and a successful one becomes visible in one step.
  The beacon server refines it too, because its handlers only make steps of the Locker.
\<close>

section \<open>The abstract machine\<close>

datatype rw_lock = Free | Readers "nat set" | Writer nat

datatype rw_event =
    Grant nat "(string \<times> bool) list"
  | Share nat string
  | GiveBack nat

fun may_take :: "bool \<Rightarrow> nat \<Rightarrow> rw_lock \<Rightarrow> bool" where
  "may_take x r Free = True"
| "may_take x r (Readers R) = (\<not> x \<and> r \<notin> R)"
| "may_take x r (Writer w) = False"

fun take_lock :: "bool \<Rightarrow> nat \<Rightarrow> rw_lock \<Rightarrow> rw_lock" where
  "take_lock x r (Readers R) = Readers (insert r R)"
| "take_lock x r _ = (if x then Writer r else Readers {r})"

fun drop_lock :: "nat \<Rightarrow> rw_lock \<Rightarrow> rw_lock" where
  "drop_lock r Free = Free"
| "drop_lock r (Readers R) = (if R \<subseteq> {r} then Free else Readers (R - {r}))"
| "drop_lock r (Writer w) = (if w = r then Free else Writer w)"

fun rw_step :: "rw_event \<Rightarrow> (string \<Rightarrow> rw_lock) \<Rightarrow> (string \<Rightarrow> rw_lock) option" where
  "rw_step (Grant r ms) A =
     (if \<forall>(k, x) \<in> set ms. may_take x r (A k)
      then Some (\<lambda>k. case map_of ms k of None \<Rightarrow> A k | Some x \<Rightarrow> take_lock x r (A k)) else None)"
| "rw_step (Share r k) A = (if A k = Writer r then Some (A(k := Readers {r})) else None)"
| "rw_step (GiveBack r) A = Some (\<lambda>k. drop_lock r (A k))"

fun rw_run :: "rw_event list \<Rightarrow> (string \<Rightarrow> rw_lock) \<Rightarrow> (string \<Rightarrow> rw_lock) option" where
  "rw_run [] A = Some A"
| "rw_run (e # es) A = Option.bind (rw_step e A) (rw_run es)"

lemma rw_run_append: "rw_run (es @ es') A = Option.bind (rw_run es A) (rw_run es')"
  by (induction es arbitrary: A) (simp_all split: bind_split)

section \<open>Simulation\<close>

text \<open>
  A machine with steps \<open>cstep\<close> whose visible events \<open>obs\<close> the abstract machine can follow: then it can follow whole
  runs, and the relation holds at their ends.
\<close>

fun observed :: "('a \<Rightarrow> 's \<Rightarrow> 's option) \<Rightarrow> ('a \<Rightarrow> 's \<Rightarrow> 'e list) \<Rightarrow> 'a list \<Rightarrow> 's \<Rightarrow> ('e list \<times> 's) option" where
  "observed cstep obs [] s = Some ([], s)"
| "observed cstep obs (a # as) s =
     (case cstep a s of
        None \<Rightarrow> None
      | Some s' \<Rightarrow> map_option (\<lambda>(es, s''). (obs a s @ es, s'')) (observed cstep obs as s'))"

locale rw_simulation =
  fixes cstep :: "'a \<Rightarrow> 's \<Rightarrow> 's option"
    and obs :: "'a \<Rightarrow> 's \<Rightarrow> rw_event list"
    and good :: "'s \<Rightarrow> bool"
    and holds_of :: "'s \<Rightarrow> nat \<Rightarrow> string \<Rightarrow> bool option"
    and rel :: "(nat \<Rightarrow> string \<Rightarrow> bool option) \<Rightarrow> (string \<Rightarrow> rw_lock) \<Rightarrow> bool"
    and s0 :: 's
  assumes good_start: "good s0"
    and rel_start: "rel (holds_of s0) (\<lambda>_. Free)"
    and good_step: "good s \<Longrightarrow> cstep a s = Some s' \<Longrightarrow> good s'"
    and follows: "good s \<Longrightarrow> rel (holds_of s) A \<Longrightarrow> cstep a s = Some s' \<Longrightarrow>
      \<exists>A'. rw_run (obs a s) A = Some A' \<and> rel (holds_of s') A'"
begin

lemma run_follows:
  assumes "good s" and "rel (holds_of s) A" and "observed cstep obs as s = Some (es, s')"
  shows "good s' \<and> (\<exists>A'. rw_run es A = Some A' \<and> rel (holds_of s') A')"
  using assms
proof (induction as arbitrary: s A es)
  case (Cons a as)
  obtain s1 es1 where s1: "cstep a s = Some s1" and r: "observed cstep obs as s1 = Some (es1, s')"
    and es: "es = obs a s @ es1"
    using Cons.prems(3) by (auto split: option.splits)
  obtain A1 where A1: "rw_run (obs a s) A = Some A1" "rel (holds_of s1) A1"
    using follows [OF Cons.prems(1,2) s1] by blast
  show ?case using Cons.IH [OF good_step [OF Cons.prems(1) s1] A1(2) r] A1(1) es by (simp add: rw_run_append)
qed auto

lemma run_refines:
  "observed cstep obs as s0 = Some (es, s) \<Longrightarrow> \<exists>A. rw_run es (\<lambda>_. Free) = Some A \<and> rel (holds_of s) A"
  using run_follows [OF good_start rel_start] by blast

end

section \<open>What the Locker shows\<close>

text \<open>The locks that a call has returned with; those of a call that is still acquiring do not count.\<close>

definition granted :: "('s, 'o) sys \<Rightarrow> nat \<Rightarrow> string \<Rightarrow> bool option" where
  "granted s r k =
     (case sy_reqs s r of
        None \<Rightarrow> None
      | Some q \<Rightarrow> (if rq_phase q = PHeld then mode (rq_go q k) else None))"

fun lock_shows :: "(nat \<Rightarrow> bool option) \<Rightarrow> rw_lock \<Rightarrow> bool" where
  "lock_shows h Free \<longleftrightarrow> h = (\<lambda>_. None)"
| "lock_shows h (Readers R) \<longleftrightarrow> R \<noteq> {} \<and> h = (\<lambda>i. if i \<in> R then Some False else None)"
| "lock_shows h (Writer w) \<longleftrightarrow> h = (\<lambda>_. None)(w := Some True)"

definition rw_rel :: "(nat \<Rightarrow> string \<Rightarrow> bool option) \<Rightarrow> (string \<Rightarrow> rw_lock) \<Rightarrow> bool" where
  "rw_rel H A \<longleftrightarrow> (\<forall>k. lock_shows (\<lambda>i. H i k) (A k))"

text \<open>The visible events of a step.\<close>

definition downgrades :: "container_lock \<Rightarrow> bool \<Rightarrow> bool" where
  "downgrades cl ok \<longleftrightarrow> cl_init cl \<and> ok \<and> \<not> cl_exclusive cl \<and> cl_downgraded cl = 0"

fun visible :: "label \<Rightarrow> ('s, 'o) sys \<Rightarrow> rw_event list" where
  "visible (WaitOk r) s =
     (case sy_reqs s r of
        None \<Rightarrow> []
      | Some q \<Rightarrow> [Grant r (map (\<lambda>k. (k, mode (rq_go q k) = Some True)) (map fst (rq_entries q)))])"
| "visible (InitResult r k ok) s =
     (case lock_of s r k of
        None \<Rightarrow> []
      | Some cl \<Rightarrow> (if downgrades cl ok then [Share r k] else []))"
| "visible (ReleaseAll r ns) s = [GiveBack r]"
| "visible _ s = []"

definition sys_step :: "'s sem_ops \<Rightarrow> 'o once_ops \<Rightarrow> label \<Rightarrow> ('s, 'o) sys \<Rightarrow> ('s, 'o) sys option" where
  "sys_step so oo a s = (case step so oo a s of Some (Inr s') \<Rightarrow> Some s' | _ \<Rightarrow> None)"

section \<open>One lock\<close>

lemma lock_shows_take:
  assumes "lock_shows h L" and "h r = None" and "x \<longrightarrow> h = (\<lambda>_. None)" and "\<forall>i. h i \<noteq> Some True"
  shows "may_take x r L \<and> lock_shows (h(r := Some x)) (take_lock x r L)"
  using assms by (cases L) (auto simp: fun_eq_iff split: if_splits)

lemma lock_shows_drop: "lock_shows h L \<Longrightarrow> lock_shows (h(r := None)) (drop_lock r L)"
  by (cases L) (auto simp: fun_eq_iff split: if_splits)

lemma lock_shows_share:
  assumes "lock_shows h L" and "h r = Some True"
  shows "L = Writer r \<and> lock_shows (h(r := Some False)) (Readers {r})"
  using assms by (cases L) (auto simp: fun_eq_iff split: if_splits)

lemma rw_rel_grant:
  assumes rel: "rw_rel H A"
    and free: "\<And>k x. map_of ms k = Some x \<Longrightarrow> H r k = None \<and> (x \<longrightarrow> (\<forall>i. H i k = None)) \<and> (\<forall>i. H i k \<noteq> Some True)"
    and H': "\<And>i k. H' i k = (case map_of ms k of Some x \<Rightarrow> if i = r then Some x else H i k | None \<Rightarrow> H i k)"
    and d: "distinct (map fst ms)"
  shows "\<exists>A'. rw_step (Grant r ms) A = Some A' \<and> rw_rel H' A'"
proof -
  have key: "may_take x r (A k) \<and> lock_shows (\<lambda>i. H' i k) (take_lock x r (A k))" if m: "map_of ms k = Some x" for k x
  proof -
    have "lock_shows (\<lambda>i. H i k) (A k)" using rel by (simp add: rw_rel_def)
    then have "may_take x r (A k) \<and> lock_shows ((\<lambda>i. H i k)(r := Some x)) (take_lock x r (A k))"
      using free [OF m] by (intro lock_shows_take) auto
    moreover have "(\<lambda>i. H i k)(r := Some x) = (\<lambda>i. H' i k)" using H' m by (auto simp: fun_eq_iff)
    ultimately show ?thesis by simp
  qed
  have "lock_shows (\<lambda>i. H' i k) (A k)" if "map_of ms k = None" for k
    using rel H' that by (simp add: rw_rel_def)
  with key have "rw_rel H' (\<lambda>k. case map_of ms k of None \<Rightarrow> A k | Some x \<Rightarrow> take_lock x r (A k))"
    by (auto simp: rw_rel_def split: option.splits)
  moreover have "\<forall>(k, x) \<in> set ms. may_take x r (A k)" using key d by (auto simp: map_of_eq_Some_iff)
  ultimately show ?thesis by simp
qed

section \<open>The Locker refines the machine\<close>

lemma granted_set_req:
  "granted (set_req r q l s) = (granted s)(r := (\<lambda>k. if rq_phase q = PHeld then mode (rq_go q k) else None))"
  by (auto simp: granted_def fun_eq_iff)

lemma granted_same:
  assumes "sy_reqs s r = Some q" and "rq_phase q \<noteq> PHeld" and "rq_phase q' \<noteq> PHeld"
  shows "granted (set_req r q' l s) = granted s"
  using assms by (auto simp: granted_def fun_eq_iff)

lemma granted_hold: "granted s r k = Some x \<Longrightarrow> hold s r k = Some x"
  by (auto simp: granted_def hold_def split: option.splits if_splits)

lemma granted_ReleaseAll:
  assumes "sy_reqs s r = Some q" and "do_release so r q ns s = Some (Inr s')"
  shows "granted s' = (\<lambda>i k. if i = r then None else granted s i k)"
proof -
  obtain l where "s' = set_req r (q\<lparr>rq_phase := PReleased, rq_go := unlocked_go (rq_go q)\<rparr>) l s"
    using assms(2) by (rule do_release_Inr)
  then show ?thesis by (auto simp: granted_set_req fun_eq_iff)
qed

lemma granted_InitResult:
  assumes inv: "struct_inv s" "sy_reqs s r = Some q" and st: "do_init_result so oo r q k ok s = Some (Inr s')"
  shows "\<exists>cl. lock_of s r k = Some cl \<and> granted s r k = mode (GLocked cl) \<and>
    granted s' = (granted s)(r := (granted s r)(k := if downgrades cl ok then Some False else mode (GLocked cl)))"
proof -
  obtain cl l cl' where cl: "rq_phase q = PHeld" "rq_go q k = GLocked cl"
    and si: "SetInitResult so oo (sy_locker s) cl ok = Inr (l, cl')" and s': "s' = set_req r (set_go q k (GLocked cl')) l s"
    using st by (rule do_init_result_Inr)
  have "mode (GLocked cl') = (if downgrades cl ok then Some False else mode (GLocked cl))"
    using si by (auto simp: SetInitResult_def downgrades_def split: if_splits sum.splits)
  then show ?thesis
    using cl inv(2) by (auto simp: s' granted_def lock_of_def fun_eq_iff)
qed

lemma sys_step_Some: "sys_step so oo a s = Some s' \<longleftrightarrow> step so oo a s = Some (Inr s')"
  by (auto simp: sys_step_def split: option.splits sum.splits)

lemma map_of_map_key: "map_of (map (\<lambda>k. (k, f k)) ks) k = (if k \<in> set ks then Some (f k) else None)"
  by (induction ks) auto

context weighted_semaphore
begin

text \<open>Returning with all locks is the abstract acquisition.\<close>

lemma wait_ok_granted:
  assumes re: "sys_reach so oo s" and q: "sy_reqs s r = Some q" and st: "do_wait_ok r q s = Some s'"
    and rel: "rw_rel (granted s) A"
  shows "\<exists>A'. rw_run (visible (WaitOk r) s) A = Some A' \<and> rw_rel (granted s') A'"
proof -
  let ?ms = "map (\<lambda>k. (k, mode (rq_go q k) = Some True)) (map fst (rq_entries q))"
  have ph: "rq_phase q = PLock" and locked: "\<And>k. k \<in> keys_of q \<Longrightarrow> is_locked (rq_go q k)"
    and s': "s' = set_req r (q\<lparr>rq_phase := PHeld\<rparr>) (sy_locker s) s"
    using st by (auto simp: do_wait_ok_def split: if_splits)
  have shape: "req_shape q" using struct_invD(2) [OF sys_reach_struct_inv [OF re] q] by (simp add: req_ok_def)
  have ms: "map_of ?ms k = (if k \<in> keys_of q then Some (mode (rq_go q k) = Some True) else None)" for k
    unfolding keys_of_def by (rule map_of_map_key)
  have mine: "hold s r k = Some (mode (rq_go q k) = Some True)" if "k \<in> keys_of q" for k
    using locked [OF that] q by (auto simp: hold_def dest: is_lockedE)
  have free: "granted s r k = None \<and> (x \<longrightarrow> (\<forall>i. granted s i k = None)) \<and> (\<forall>i. granted s i k \<noteq> Some True)"
    if "map_of ?ms k = Some x" for k x
  proof -
    have h: "hold s r k = Some x" and g: "granted s r k = None"
      using that mine ms ph q by (auto simp: granted_def split: if_splits)
    have "i = r" if "x" "granted s i k \<noteq> None" for i
      using that h reach_exclusion [OF re, of r k i] granted_hold [of s i k] by auto
    moreover have "granted s i k \<noteq> Some True" for i
      using h g reach_exclusion [OF re, of i k r] granted_hold [of s i k] by auto
    ultimately show ?thesis using g by blast
  qed
  have "granted s' i k = (case map_of ?ms k of Some x \<Rightarrow> if i = r then Some x else granted s i k | None \<Rightarrow> granted s i k)"
    for i k
  proof -
    have "granted s' i k = (if i = r then hold s r k else granted s i k)"
      using q by (simp add: s' granted_set_req hold_def)
    moreover have "hold s r k = None \<and> granted s r k = None" if "k \<notin> keys_of q"
      using shape q ph that by (simp add: hold_def req_shape_def granted_def)
    ultimately show ?thesis using ms mine by auto
  qed
  moreover have "distinct (map fst ?ms)" using shape by (simp add: req_shape_def comp_def)
  ultimately have "\<exists>A'. rw_step (Grant r ?ms) A = Some A' \<and> rw_rel (granted s') A'"
    using free by (intro rw_rel_grant [OF rel])
  moreover have "visible (WaitOk r) s = [Grant r ?ms]" using q by simp
  ultimately show ?thesis by (auto simp del: visible.simps rw_step.simps)
qed

lemma release_granted:
  assumes "sy_reqs s r = Some q" and "do_release so r q ns s = Some (Inr s')" and "rw_rel (granted s) A"
  shows "\<exists>A'. rw_run (visible (ReleaseAll r ns) s) A = Some A' \<and> rw_rel (granted s') A'"
proof -
  have "(\<lambda>i. granted s' i k) = (\<lambda>i. granted s i k)(r := None)" for k
    using granted_ReleaseAll [OF assms(1,2)] by (auto simp: fun_eq_iff)
  then show ?thesis using assms(3) by (simp add: rw_rel_def lock_shows_drop)
qed

lemma init_result_granted:
  assumes re: "sys_reach so oo s" and q: "sy_reqs s r = Some q"
    and st: "do_init_result so oo r q k ok s = Some (Inr s')" and rel: "rw_rel (granted s) A"
  shows "\<exists>A'. rw_run (visible (InitResult r k ok) s) A = Some A' \<and> rw_rel (granted s') A'"
proof -
  obtain cl where cl: "lock_of s r k = Some cl" and g: "granted s r k = mode (GLocked cl)"
    and s': "granted s' = (granted s)(r := (granted s r)(k := if downgrades cl ok then Some False else mode (GLocked cl)))"
    using granted_InitResult [OF sys_reach_struct_inv [OF re] q st] by blast
  show ?thesis
  proof (cases "downgrades cl ok")
    case False
    then have "granted s' = granted s" using g s' by (simp add: fun_eq_iff)
    then show ?thesis using cl False rel by simp
  next
    case True
    then have t: "granted s r k = Some True" using g by (simp add: downgrades_def)
    have A: "A k = Writer r \<and> lock_shows ((\<lambda>i. granted s i k)(r := Some False)) (Readers {r})"
      using rel t by (intro lock_shows_share) (auto simp: rw_rel_def)
    have col: "(\<lambda>i. granted s' i n) = (if n = k then (\<lambda>i. granted s i k)(r := Some False) else (\<lambda>i. granted s i n))" for n
      using True s' by (auto simp: fun_eq_iff)
    have "lock_shows (\<lambda>i. granted s' i n) ((A(k := Readers {r})) n)" for n
      using A rel by (cases "n = k") (simp_all add: col rw_rel_def del: lock_shows.simps)
    then show ?thesis using cl True A by (simp add: rw_rel_def)
  qed
qed

lemma silent_granted:
  assumes re: "sys_reach so oo s" and st: "step so oo a s = Some (Inr s')"
    and a: "\<And>r. a \<noteq> WaitOk r" "\<And>r k ok. a \<noteq> InitResult r k ok" "\<And>r ns. a \<noteq> ReleaseAll r ns"
  shows "granted s' = granted s \<and> visible a s = []"
proof (cases a)
  case (Accept es)
  have new: "sy_reqs s (ac_next (ctl s)) = None"
    using sys_reach_struct_inv [OF re] by (auto simp: struct_inv_def)
  show ?thesis
    using Accept st new
    by (auto simp: do_accept_def Let_def case_prod_beta adm.enter_ticket granted_set_req granted_def fun_eq_iff
        split: if_splits)
next
  case (Try r k d)
  then obtain q where q: "sy_reqs s r = Some q" "do_try so oo r q k d s = Some s'"
    using st by (auto simp: with_req_def split: option.splits)
  from q(2) show ?thesis
    by (cases rule: do_try_cases) (use Try q(1) in \<open>auto intro!: granted_same\<close>)
next
  case (WaitErr r ns)
  then show ?thesis
    using st
    by (auto simp: with_req_def do_wait_err_def Let_def map_sum_Inr intro!: granted_same split: option.splits if_splits)
qed (use st a in \<open>auto simp: with_req_def do_start_def do_cancel_def do_enter_def
    intro!: granted_same split: option.splits if_splits prod.splits\<close>)

lemma locker_follows:
  assumes re: "sys_reach so oo s" and rel: "rw_rel (granted s) A" and st: "sys_step so oo a s = Some s'"
  shows "\<exists>A'. rw_run (visible a s) A = Some A' \<and> rw_rel (granted s') A'"
proof (cases "(\<exists>r. a = WaitOk r) \<or> (\<exists>r k ok. a = InitResult r k ok) \<or> (\<exists>r ns. a = ReleaseAll r ns)")
  case False
  then show ?thesis using silent_granted [OF re, of a s'] st rel by (simp add: sys_step_Some)
next
  case True
  then show ?thesis
    using st wait_ok_granted [OF re _ _ rel] init_result_granted [OF re _ _ rel] release_granted [OF _ _ rel]
    by (auto simp: sys_step_Some with_req_def simp del: visible.simps split: option.splits)
qed

end

sublocale weighted_semaphore \<subseteq> lkr: rw_simulation "sys_step so oo" visible "sys_reach so oo" granted rw_rel "NewSys oo"
proof
  show "sys_reach so oo (NewSys oo)" by (rule sys_reach.start)
  show "rw_rel (granted (NewSys oo)) (\<lambda>_. Free)" by (simp add: rw_rel_def granted_def NewSys_def)
  show "sys_reach so oo s'" if "sys_reach so oo s" "sys_step so oo a s = Some s'" for s a s'
    using that sys_reach.step by (simp add: sys_step_Some)
  show "\<exists>A'. rw_run (visible a s) A = Some A' \<and> rw_rel (granted s') A'"
    if "sys_reach so oo s" "rw_rel (granted s) A" "sys_step so oo a s = Some s'" for s A a s'
    using that by (rule locker_follows)
qed

section \<open>The beacon server refines the machine\<close>

lemma observed_append:
  "observed cstep obs as s = Some (es, s1) \<Longrightarrow> observed cstep obs bs s1 = Some (es', s2) \<Longrightarrow>
     observed cstep obs (as @ bs) s = Some (es @ es', s2)"
  by (induction as arbitrary: s es) (auto split: option.splits)

lemma sys_reach_observed: "sys_reach so oo s \<Longrightarrow> \<exists>as es. observed (sys_step so oo) visible as (NewSys oo) = Some (es, s)"
proof (induction rule: sys_reach.induct)
  case start
  then show ?case by (metis observed.simps(1))
next
  case (step s a s')
  then obtain as es where es: "observed (sys_step so oo) visible as (NewSys oo) = Some (es, s)" by blast
  have "observed (sys_step so oo) visible [a] s = Some (visible a s, s')"
    using step.hyps(2) by (simp add: sys_step_Some [symmetric])
  from observed_append [OF es this] show ?case by blast
qed

context weighted_semaphore
begin

lemmas runs_atomic = lkr.run_refines

end

lemma shown_holder:
  assumes "lock_shows h L" and "h r = Some m"
  shows "L = Writer r \<or> \<not> m \<and> (\<exists>R. r \<in> R \<and> L = Readers R)"
  using assms by (cases L) (auto split: if_splits)

lemma granted_entry:
  assumes re: "sys_reach so oo s" and q: "sy_reqs s r = Some q" "rq_phase q = PHeld" "rq_entry q k = Some p"
  shows "\<exists>m. granted s r k = Some m \<and> (en_exclusive p \<longrightarrow> m)"
proof -
  have "k \<in> locked_keys q"
    using struct_invD(2) [OF sys_reach_struct_inv [OF re] q(1)] q(2) rq_entry_keys [OF q(3)]
    by (auto simp: req_ok_def req_shape_def)
  then obtain cl where cl: "rq_go q k = GLocked cl" by (auto simp: locked_keys_def dest: is_lockedE)
  moreover have "lock_shape q" using sys_reach_locks_fit [OF re] q(1) by (simp add: locks_fit_def)
  then have "cl_exclusive cl = en_exclusive p" using cl q(3) by (fastforce simp: lock_shape_def lock_fits_def)
  ultimately show ?thesis using q(1,2) by (simp add: granted_def)
qed

section \<open>Main properties\<close>

text \<open>
  An example: a shared call that initialises the container, and a second shared call that joins it after the downgrade.
\<close>

definition shared_init :: "label list" where
  "shared_init =
     [Accept [(''db'', \<lparr>en_exclusive = False, en_init = True\<rparr>)], Accept [(''db'', \<lparr>en_exclusive = False, en_init = False\<rparr>)],
      Start 0, Enter 0 ''db'', Try 0 ''db'' False, Start 1, Enter 1 ''db'', WaitOk 0, InitResult 0 ''db'' True,
      Try 1 ''db'' False, WaitOk 1, ReleaseAll 0 [''db'']]"

text \<open>
  C2: Acquiring several containers is atomic. Whatever concurrent calls, failures, cancellations and downgrades
  happen, the Locker behaves as the abstract machine that grants all locks of a call in one step: the visible events
  of every run, in their order, are a run of the machine, and at its end the machine's locks show exactly the locks
  that the calls have returned with.
\<close>

theorem locker_refines_atomic:
  assumes "weighted_semaphore so cur size_of"
    and "observed (sys_step so oo) visible as (NewSys oo) = Some (es, s)"
  shows "\<exists>A. rw_run es (\<lambda>_. Free) = Some A \<and> rw_rel (granted s) A"
  using assms by (rule weighted_semaphore.runs_atomic)

theorem locker_refines_atomic_witness:
  "\<exists>s A. observed (sys_step counting_sem list_once) visible shared_init (NewSys list_once) =
       Some ([Grant 0 [(''db'', True)], Share 0 ''db'', Grant 1 [(''db'', False)], GiveBack 0], s) \<and>
     rw_run [Grant 0 [(''db'', True)], Share 0 ''db'', Grant 1 [(''db'', False)], GiveBack 0] (\<lambda>_. Free) = Some A \<and>
     rw_rel (granted s) A \<and> granted s 1 ''db'' = Some False \<and> granted s 0 ''db'' = None"
proof -
  let ?es = "[Grant 0 [(''db'', True)], Share 0 ''db'', Grant 1 [(''db'', False)], GiveBack 0]"
  have "map_option (map_prod id (\<lambda>s. (granted s 0 ''db'', granted s 1 ''db'')))
      (observed (sys_step counting_sem list_once) visible shared_init (NewSys list_once)) = Some (?es, None, Some False)"
    by code_simp
  then obtain s where s: "observed (sys_step counting_sem list_once) visible shared_init (NewSys list_once) = Some (?es, s)"
    "granted s 0 ''db'' = None" "granted s 1 ''db'' = Some False"
    by (auto simp: Some_eq_map_option)
  from locker_refines_atomic [OF csem.weighted_semaphore_axioms s(1)] s show ?thesis by blast
qed

text \<open>
  C18: The beacon server refines the atomic machine. Whatever its clients send, what the server's Locker has done is a
  run of the machine, and every request that a stream has been granted holds all its containers in the machine: the
  exclusive ones alone.
\<close>

theorem beacon_refines_atomic:
  assumes "weighted_semaphore so cur size_of" and "server_reach so oo v"
  shows "\<exists>as es A. observed (sys_step so oo) visible as (NewSys oo) = Some (es, sv_sys v) \<and>
    rw_run es (\<lambda>_. Free) = Some A \<and>
    (\<forall>r q k p. sy_reqs (sv_sys v) r = Some q \<longrightarrow> rq_phase q = PHeld \<longrightarrow> rq_entry q k = Some p \<longrightarrow>
       A k = Writer r \<or> \<not> en_exclusive p \<and> (\<exists>R. r \<in> R \<and> A k = Readers R))"
proof -
  have re: "sys_reach so oo (sv_sys v)" using server_reach_inv [OF assms(2)] by (simp add: server_inv_def)
  obtain as es where es: "observed (sys_step so oo) visible as (NewSys oo) = Some (es, sv_sys v)"
    using sys_reach_observed [OF re] by blast
  obtain A where A: "rw_run es (\<lambda>_. Free) = Some A" "rw_rel (granted (sv_sys v)) A"
    using weighted_semaphore.runs_atomic [OF assms(1) es] by blast
  have "A k = Writer r \<or> \<not> en_exclusive p \<and> (\<exists>R. r \<in> R \<and> A k = Readers R)"
    if "sy_reqs (sv_sys v) r = Some q" "rq_phase q = PHeld" "rq_entry q k = Some p" for r q k p
  proof -
    from granted_entry [OF re that] obtain m where m: "granted (sv_sys v) r k = Some m" "en_exclusive p \<longrightarrow> m" by blast
    have "lock_shows (\<lambda>i. granted (sv_sys v) i k) (A k)" using A(2) by (simp add: rw_rel_def)
    from shown_holder [OF this m(1)] show ?thesis using m(2) by blast
  qed
  then show ?thesis using es A(1) by blast
qed

theorem beacon_refines_atomic_witness:
  "\<exists>v as es A. server_example (granted_stream use_two) = Some (Inr v) \<and>
     observed (sys_step counting_sem list_once) visible as (NewSys list_once) = Some (es, sv_sys v) \<and>
     rw_run es (\<lambda>_. Free) = Some A \<and> A ''db'' = Writer 0 \<and> A ''kv'' = Writer 0"
proof -
  have "map_option (map_sum id (\<lambda>v. map_option (\<lambda>q. (rq_phase q, rq_entries q)) (sy_reqs (sv_sys v) 0)))
      (server_example (granted_stream use_two)) = Some (Inr (Some (PHeld, use_entries use_two)))"
    by code_simp
  then obtain v q where v: "server_example (granted_stream use_two) = Some (Inr v)" "sy_reqs (sv_sys v) 0 = Some q"
    "rq_phase q = PHeld" "rq_entries q = use_entries use_two"
    by (auto simp: map_sum_Inr Some_eq_map_option)
  have "rq_entry q ''db'' = Some init_entry" "rq_entry q ''kv'' = Some init_entry"
    by (simp_all add: v(4) use_entries_def use_two_def)
  then show ?thesis
    using beacon_refines_atomic [OF csem.weighted_semaphore_axioms server_example_reach [OF v(1)]] v(1-3)
    by (metis acquire_entry.select_convs(1))
qed

end
