(* ===== verification/Locker_Liveness.thy ===== *)
theory Locker_Liveness
  imports Exclusion_Control
begin

text \<open>
  Every acquisition comes to an end. \<open>work\<close> counts the steps that the requests of a state can still take: entering and
  locking once per container, passing the queue, waiting for the goroutines and releasing. Every step that serves a
  request uses up some of it, and while some request is unfinished, one of them can be served. So if holders release,
  every acquisition completes, in whatever order the steps are taken.
\<close>

section \<open>The work that is left\<close>

text \<open>The steps of the requests themselves, and the release by a holder.\<close>

fun serves :: "label \<Rightarrow> bool" where
  "serves (ReleaseAll r ns) = True"
| "serves a = forward a"

fun go_work :: "goroutine \<Rightarrow> nat" where
  "go_work GNew = 2"
| "go_work GInit = 1"
| "go_work GPlain = 1"
| "go_work _ = 0"

definition req_work :: "req \<Rightarrow> nat" where
  "req_work q =
     (case rq_phase q of
        PWait \<Rightarrow> 2 * card (keys_of q) + 3
      | PLock \<Rightarrow> (\<Sum>k \<in> keys_of q. go_work (rq_go q k)) + 2
      | PHeld \<Rightarrow> 1
      | _ \<Rightarrow> 0)"

definition work :: "('s, 'o) sys \<Rightarrow> nat" where
  "work s = (\<Sum>r < ac_next (ctl s). case sy_reqs s r of None \<Rightarrow> 0 | Some q \<Rightarrow> req_work q)"

lemma work_less:
  assumes q: "sy_reqs s r = Some q" "r < ac_next (ctl s)" and less: "req_work q' < req_work q"
    and s': "sy_reqs s' = (sy_reqs s)(r \<mapsto> q')" "ac_next (ctl s') = ac_next (ctl s)"
  shows "work s' < work s"
  unfolding work_def s'(2)
proof (rule sum_strict_mono_ex1)
  show "\<forall>x \<in> {..<ac_next (ctl s)}. (case sy_reqs s' x of None \<Rightarrow> 0 | Some q \<Rightarrow> req_work q) \<le>
      (case sy_reqs s x of None \<Rightarrow> 0 | Some q \<Rightarrow> req_work q)"
    using q(1) less s'(1) by auto
  show "\<exists>x \<in> {..<ac_next (ctl s)}. (case sy_reqs s' x of None \<Rightarrow> 0 | Some q \<Rightarrow> req_work q) <
      (case sy_reqs s x of None \<Rightarrow> 0 | Some q \<Rightarrow> req_work q)"
    using q less s'(1) by (intro bexI [of _ r]) auto
qed simp

lemma req_work_go:
  assumes "rq_phase q = PLock" and "k \<in> keys_of q" and "go_work g < go_work (rq_go q k)"
  shows "req_work (set_go q k g) < req_work q"
proof -
  have fin: "finite (keys_of q)" by (simp add: keys_of_def)
  have "(\<Sum>n \<in> keys_of q. go_work (((rq_go q)(k := g)) n)) < (\<Sum>n \<in> keys_of q. go_work (rq_go q n))"
    using assms(2,3) by (intro sum_strict_mono_ex1 [OF fin]) (auto intro: bexI [of _ k])
  then show ?thesis using assms(1) by (simp add: req_work_def)
qed

lemma req_work_start:
  assumes "req_shape q" and "rq_phase q = PWait"
  shows "req_work (q\<lparr>rq_phase := PLock\<rparr>) < req_work q"
proof -
  have "\<forall>k. rq_go q k = GNew" using assms by (simp add: req_shape_def)
  then show ?thesis using assms(2) by (simp add: req_work_def)
qed

lemma lock_try_acquirer:
  "lock_try so oo d l k p i = Granted m \<Longrightarrow> lk_acquirer m = lk_acquirer l"
  "lock_try so oo d l k p i = CtxErr m \<Longrightarrow> lk_acquirer m = lk_acquirer l"
  using lock_try_frame [of so oo d l k p i] by simp_all

text \<open>A step that serves a request uses up work, and no step of a request brings new ones.\<close>

lemma serves_works:
  assumes inv: "struct_inv s" and a: "serves a" and st: "step so oo a s = Some (Inr s')"
  shows "work s' < work s"
proof -
  have by_req: "work s' < work s"
    if "sy_reqs s r = Some q" "s' = set_req r q' l s" "ac_next (lk_acquirer l) = ac_next (ctl s)" "req_work q' < req_work q"
    for r q q' l
    using that struct_invD(3) [OF inv that(1)] by (intro work_less [of s r q q']) simp_all
  show ?thesis
  proof (cases a)
    case (Start r)
    then obtain q where q: "sy_reqs s r = Some q" "rq_phase q = PWait"
      "s' = set_req r (q\<lparr>rq_phase := PLock\<rparr>) (sy_locker s) s"
      using st by (auto simp: with_req_def do_start_def split: option.splits if_splits)
    have "req_shape q" using struct_invD(2) [OF inv q(1)] by (simp add: req_ok_def)
    from req_work_start [OF this q(2)] show ?thesis by (intro by_req [OF q(1,3)]) simp_all
  next
    case (Enter r k)
    then obtain q p g l where q: "sy_reqs s r = Some q" "rq_entry q k = Some p" "rq_phase q = PLock" "rq_go q k = GNew"
      and g: "lock_enter oo (sy_locker s) k p = (g, l)" and s': "s' = set_req r (set_go q k g) l s"
      using st by (auto simp: with_req_def do_enter_def split: option.splits if_splits prod.splits)
    note f = lock_enter_frame [OF g]
    have "go_work g < go_work (rq_go q k)" using q(4) f(3) by auto
    from req_work_go [OF q(3) rq_entry_keys [OF q(2)] this] show ?thesis using f(1) by (intro by_req [OF q(1) s']) simp_all
  next
    case (Try r k d)
    then obtain q where q: "sy_reqs s r = Some q" and t: "do_try so oo r q k d s = Some s'"
      using st by (auto simp: with_req_def split: option.splits)
    from t show ?thesis
    proof (cases rule: do_try_cases)
      case (granted p m)
      have "req_work (set_go q k (GLocked (new_container_lock k p (rq_go q k = GInit)))) < req_work q"
        using granted(3) by (intro req_work_go [OF granted(2) rq_entry_keys [OF granted(1)]]) auto
      then show ?thesis
        using lock_try_acquirer(1) [OF granted(4)] by (intro by_req [OF q granted(5)]) (simp_all add: adm.drop_key_next)
    next
      case (failed p m)
      have "req_work (set_go q k GFailed) < req_work q"
        using failed(3) by (intro req_work_go [OF failed(2) rq_entry_keys [OF failed(1)]]) auto
      then show ?thesis using lock_try_acquirer(2) [OF failed(4)] by (intro by_req [OF q failed(5)]) simp_all
    qed
  next
    case (WaitOk r)
    then obtain q where q: "sy_reqs s r = Some q" "rq_phase q = PLock" "s' = set_req r (q\<lparr>rq_phase := PHeld\<rparr>) (sy_locker s) s"
      using st by (auto simp: with_req_def do_wait_ok_def split: option.splits if_splits)
    then show ?thesis by (intro by_req [OF q(1,3)]) (simp_all add: req_work_def)
  next
    case (WaitErr r ns)
    then obtain q l where q: "sy_reqs s r = Some q" "rq_phase q = PLock"
      "s' = set_req r (q\<lparr>rq_phase := PFailed, rq_go := unlocked_go (rq_go q)\<rparr>) l s" "lk_acquirer l = remove r (ctl s)"
      using st
      by (auto simp: with_req_def do_wait_err_def Let_def map_sum_Inr split: option.splits if_splits dest!: unlock_all_frame)
    then show ?thesis by (intro by_req [OF q(1,3)]) (simp_all add: req_work_def adm.leave_next)
  next
    case (ReleaseAll r ns)
    then obtain q where q: "sy_reqs s r = Some q" and t: "do_release so r q ns s = Some (Inr s')"
      using st by (auto simp: with_req_def split: option.splits)
    obtain l where "rq_phase q = PHeld" and u: "unlock_all so (sy_locker s) (rq_go q) ns = Inr l"
      and s': "s' = set_req r (q\<lparr>rq_phase := PReleased, rq_go := unlocked_go (rq_go q)\<rparr>) l s"
      using t by (rule do_release_Inr)
    then show ?thesis using unlock_all_frame [OF u] by (intro by_req [OF q s']) (simp_all add: req_work_def)
  qed (use a in simp_all)
qed

section \<open>Requests that can be served\<close>

text \<open>No cancelled call has left its entry in the queue.\<close>

definition no_leftover :: "('s, 'o) sys \<Rightarrow> bool" where
  "no_leftover s \<longleftrightarrow> (\<forall>x q. x \<in> set (ac_queue (ctl s)) \<longrightarrow> sy_reqs s x = Some q \<longrightarrow> rq_phase q \<noteq> PFailed)"

definition all_finished :: "('s, 'o) sys \<Rightarrow> bool" where
  "all_finished s \<longleftrightarrow> (\<forall>x q. sy_reqs s x = Some q \<longrightarrow> rq_phase q = PReleased \<or> rq_phase q = PFailed)"

lemma no_leftover_set_req:
  assumes "no_leftover s" and "set (ac_queue (lk_acquirer l)) \<subseteq> set (ac_queue (ctl s))"
    and "rq_phase q \<noteq> PFailed \<or> r \<notin> set (ac_queue (lk_acquirer l))"
  shows "no_leftover (set_req r q l s)"
  using assms by (auto simp: no_leftover_def)

lemma no_leftover_step:
  assumes ok: "no_leftover s" and a: "serves a" and st: "step so oo a s = Some (Inr s')"
  shows "no_leftover s'"
proof (cases a)
  case (Enter r k)
  then show ?thesis
    using st ok lock_enter_frame [of oo "sy_locker s" k]
    by (auto simp: with_req_def do_enter_def split: option.splits if_splits prod.splits intro!: no_leftover_set_req)
next
  case (Try r k d)
  then obtain q where q: "sy_reqs s r = Some q" and t: "do_try so oo r q k d s = Some s'"
    using st by (auto simp: with_req_def split: option.splits)
  have sub: "set (ac_queue (removeLockedKey r k (ctl s))) \<subseteq> set (ac_queue (ctl s))"
    by (auto simp: removeLockedKey_def Let_def adm.leave_line)
  from t show ?thesis
    by (cases rule: do_try_cases) (use ok sub in \<open>auto intro!: no_leftover_set_req dest!: lock_try_acquirer\<close>)
next
  case (WaitErr r ns)
  then show ?thesis
    using st ok
    by (auto simp: with_req_def do_wait_err_def Let_def map_sum_Inr adm.leave_line split: option.splits if_splits
        dest!: unlock_all_frame intro!: no_leftover_set_req)
next
  case (ReleaseAll r ns)
  then show ?thesis
    using st ok
    by (auto simp: with_req_def do_release_def map_sum_Inr split: option.splits if_splits
        dest!: unlock_all_frame intro!: no_leftover_set_req)
qed (use st ok a in \<open>auto simp: with_req_def do_start_def do_wait_ok_def split: option.splits if_splits intro!: no_leftover_set_req\<close>)

context weighted_semaphore
begin

text \<open>A holder can release, in any order of its containers.\<close>

lemma holder_releases:
  assumes re: "sys_reach so oo s" and q: "sy_reqs s r = Some q" "rq_phase q = PHeld"
  shows "\<exists>s'. step so oo (ReleaseAll r (map fst (rq_entries q))) s = Some (Inr s')"
proof -
  note inv = sys_reach_struct_inv [OF re]
  have "distinct (map fst (rq_entries q))" using struct_invD(2) [OF inv q(1)] by (simp add: req_ok_def req_shape_def)
  then have "\<exists>x. step so oo (ReleaseAll r (map fst (rq_entries q))) s = Some x"
    using q by (simp add: with_req_def do_release_def keys_of_def)
  then show ?thesis using lock_ok_step [OF inv sys_reach_locks_ok [OF re]] by blast
qed

lemma unfinished_served:
  assumes re: "sys_reach so oo s" and ok: "no_leftover s" and un: "\<not> all_finished s"
  shows "\<exists>a s'. serves a \<and> step so oo a s = Some (Inr s')"
proof (cases "\<exists>r q. sy_reqs s r = Some q \<and> rq_phase q = PHeld")
  case True
  then show ?thesis using holder_releases [OF re] by (meson serves.simps(1))
next
  case False
  obtain r q where q: "sy_reqs s r = Some q" "rq_phase q = PWait \<or> rq_phase q = PLock"
    using un False by (auto simp: all_finished_def) (metis phase.exhaust)
  obtain a s' where "forward a" and st: "step so oo a s = Some (Inr s')"
    using deadlock_free [OF sys_reach_struct_inv [OF re] sys_reach_locks_ok [OF re] q] False ok
    unfolding no_leftover_def by metis
  then have "serves a" by (cases a) simp_all
  then show ?thesis using st by blast
qed

lemma served_runs:
  "sys_reach so oo s \<Longrightarrow> no_leftover s \<Longrightarrow> list_all serves as \<Longrightarrow> run so oo as s = Some s' \<Longrightarrow>
     sys_reach so oo s' \<and> no_leftover s' \<and> length as + work s' \<le> work s"
proof (induction as arbitrary: s)
  case (Cons a as)
  then obtain t where t: "step so oo a s = Some (Inr t)" "run so oo as t = Some s'"
    by (auto split: option.splits sum.splits)
  have "work t < work s" using Cons.prems(1,3) t(1) by (intro serves_works [OF sys_reach_struct_inv]) auto
  then show ?case
    using Cons.IH [OF sys_reach.step [OF Cons.prems(1) t(1)] no_leftover_step [OF Cons.prems(2) _ t(1)] _ t(2)] Cons.prems(3)
    by simp
qed simp

end

section \<open>Main property\<close>

text \<open>
  C3: Every acquisition completes. From any reachable state in which no cancelled call has left its entry in the queue,
  in whatever order the requests are served (queue, goroutines, waiting, and the holders releasing), the number of steps
  is bounded by the work that is left, and the steps only end when every request has ended. So a request that is
  waiting always gets its turn, as long as the holders release.
\<close>

theorem acquisitions_complete:
  assumes "weighted_semaphore so cur size_of" and "sys_reach so oo s" and "no_leftover s"
    and "list_all serves as" and "run so oo as s = Some s'"
  shows "length as \<le> work s \<and> (all_finished s' \<or> (\<exists>a s''. serves a \<and> step so oo a s' = Some (Inr s'')))"
proof -
  have "sys_reach so oo s' \<and> no_leftover s' \<and> length as + work s' \<le> work s"
    using weighted_semaphore.served_runs [OF assms] .
  then show ?thesis using weighted_semaphore.unfinished_served [OF assms(1)] by (cases "all_finished s'") auto
qed

text \<open>Two requests for the same containers, of which the first has locked one: both complete.\<close>

definition serve_both :: "label list" where
  "serve_both =
     [Try 0 ''kv'' False, WaitOk 0, Start 1, Enter 1 ''db'', Enter 1 ''kv'', ReleaseAll 0 [''db'', ''kv''],
      Try 1 ''kv'' False, Try 1 ''db'' False, WaitOk 1, ReleaseAll 1 [''kv'', ''db'']]"

theorem acquisitions_complete_witness:
  "\<exists>s'. run counting_sem list_once serve_both (example take_both) = Some s' \<and> length serve_both = 10 \<and>
     length serve_both \<le> work (example take_both) \<and>
     (all_finished s' \<or> (\<exists>a s''. serves a \<and> step counting_sem list_once a s' = Some (Inr s''))) \<and>
     phases s' = [Some PReleased, Some PReleased]"
proof -
  have r: "sys_reach counting_sem list_once (example take_both)" by (rule example_reach) code_simp
  have ph: "phases (example take_both) = [Some PLock, Some PWait]" by code_simp
  have "no_leftover (example take_both)"
    using phases_in [OF r] by (fastforce simp: no_leftover_def ph)
  moreover have "map_option phases (run counting_sem list_once serve_both (example take_both)) =
      Some [Some PReleased, Some PReleased]" by code_simp
  then obtain s' where s': "run counting_sem list_once serve_both (example take_both) = Some s'"
    "phases s' = [Some PReleased, Some PReleased]" by (auto simp: Some_eq_map_option)
  moreover have "list_all serves serve_both" "length serve_both = 10" by (simp_all add: serve_both_def)
  ultimately show ?thesis
    using acquisitions_complete [OF csem.weighted_semaphore_axioms r, of serve_both s'] by blast
qed

end
