(* ===== verification/Beacon_Client.thy ===== *)
theory Beacon_Client
  imports Beacon_Acquire "HOL-Library.Multiset"
begin

text \<open>
  internal/exclusion/control.go: \<open>LockForContainerUse\<close> of the control that works through a beacon server, statement by
  statement over the client stub that gRPC generates (record \<open>acquire_client\<close>, a parameter). \<open>scripted\<close> is a stub
  that writes down what is sent. With it, the call is set against the in-process control (both run the same
  initialisations and return the same error) and against the server (every call ends with its locks given back and
  its stream ended).
\<close>

section \<open>The call\<close>

record ('w, 'st) acquire_client =
  acl_open :: "'w \<Rightarrow> (go_error + 'st) \<times> 'w"
  acl_Send :: "'st \<Rightarrow> acquire_request \<Rightarrow> 'w \<Rightarrow> go_error option \<times> 'w"
  acl_Recv :: "'st \<Rightarrow> 'w \<Rightarrow> ((go_error + (string, lock_state \<times> bool) go_map) \<times> 'w) option"
  acl_CloseSend :: "'st \<Rightarrow> 'w \<Rightarrow> go_error option \<times> 'w"

record ('w, 'st) beacon_control =
  bc_cli :: "('w, 'st) acquire_client"

definition NewBeaconControl :: "('w, 'st) acquire_client \<Rightarrow> ('w, 'st) beacon_control" where
  "NewBeaconControl cli = \<lparr>bc_cli = cli\<rparr>"

text \<open>
  The loop over the results, in the iteration order of the map: \<open>Some e\<close> when the loop returns from the call with
  error \<open>e\<close>. \<open>app\<close> is \<open>multierr.Append\<close>.
\<close>

fun report_inits ::
  "(go_error option \<Rightarrow> go_error option \<Rightarrow> go_error option) \<Rightarrow> ('w, 'st) acquire_client \<Rightarrow> 'st \<Rightarrow>
     (string, use_param) go_map \<Rightarrow> (string, lock_state \<times> bool) go_map \<Rightarrow> 'w \<Rightarrow> go_error option option \<times> 'w" where
  "report_inits app cli st params [] w = (None, w)"
| "report_inits app cli st params ((name, state, acquireInit) # results) w =
     (if acquireInit then
        (let initErr = initSafe (Option.bind (map_of params name) up_init) in
         case acl_Send cli st (InitParam name (initErr = None)) w of
           (Some err, w1) \<Rightarrow> (Some (app initErr (Some err)), w1)
         | (None, w1) \<Rightarrow>
             if initErr \<noteq> None then (case acl_CloseSend cli st w1 of (err, w2) \<Rightarrow> (Some (app initErr err), w2))
             else report_inits app cli st params results w1)
      else report_inits app cli st params results w)"

text \<open>
  The two results of the call: the unlock function, which is the stream it works on, and the error. \<open>None\<close>: the
  server has not answered, so the call has not returned.
\<close>

definition beacon_LockForContainerUse ::
  "(go_error option \<Rightarrow> go_error option \<Rightarrow> go_error option) \<Rightarrow> ('w, 'st) beacon_control \<Rightarrow>
     (string, use_param) go_map \<Rightarrow> 'w \<Rightarrow> (('st option \<times> go_error option) \<times> 'w) option" where
  "beacon_LockForContainerUse app b params w =
     (let cli = bc_cli b; targets = client_targets params in
      case acl_open cli w of
        (Inl err, w1) \<Rightarrow> Some ((None, Some err), w1)
      | (Inr st, w1) \<Rightarrow>
          (case acl_Send cli st (AcquireParam targets) w1 of
             (Some err, w2) \<Rightarrow> Some ((None, Some err), w2)
           | (None, w2) \<Rightarrow>
               (case acl_Recv cli st w2 of
                  None \<Rightarrow> None
                | Some (Inl err, w3) \<Rightarrow> Some ((None, Some err), w3)
                | Some (Inr results, w3) \<Rightarrow>
                    (case report_inits app cli st params results w3 of
                       (Some err, w4) \<Rightarrow> Some ((None, err), w4)
                     | (None, w4) \<Rightarrow> Some ((Some st, None), w4)))))"

definition beacon_unlock :: "('w, 'st) beacon_control \<Rightarrow> 'st \<Rightarrow> 'w \<Rightarrow> 'w" where
  "beacon_unlock b st w =
     (case acl_Send (bc_cli b) st ReleaseParam w of (_, w1) \<Rightarrow> snd (acl_CloseSend (bc_cli b) st w1))"

section \<open>A stub that writes down what is sent\<close>

text \<open>
  \<open>Recv\<close> gives the answer, \<open>send\<close> and \<open>close\<close> are the errors of \<open>Send\<close> and \<open>CloseSend\<close>; a message whose sending fails
  does not reach the server.
\<close>

definition scripted ::
  "(go_error + (string, lock_state \<times> bool) go_map) \<Rightarrow> (acquire_request \<Rightarrow> go_error option) \<Rightarrow> go_error option \<Rightarrow>
     (acquire_request recv list, unit) acquire_client" where
  "scripted answer send close =
     \<lparr>acl_open = (\<lambda>w. (Inr (), w)),
      acl_Send = (\<lambda>st m w. (send m, if send m = None then w @ [Msg m] else w)),
      acl_Recv = (\<lambda>st w. Some (answer, w)),
      acl_CloseSend = (\<lambda>st w. (close, w @ [EOF]))\<rparr>"

lemma scripted_simps:
  "acl_open (scripted answer send close) w = (Inr (), w)"
  "acl_Send (scripted answer send close) u m w = (send m, if send m = None then w @ [Msg m] else w)"
  "acl_Recv (scripted answer send close) u w = Some (answer, w)"
  "acl_CloseSend (scripted answer send close) u w = (close, w @ [EOF])"
  by (simp_all add: scripted_def)

text \<open>A call and, when it succeeds, the unlock function: the results of the call and everything that was sent.\<close>

definition client_session ::
  "(go_error option \<Rightarrow> go_error option \<Rightarrow> go_error option) \<Rightarrow> (acquire_request recv list, unit) acquire_client \<Rightarrow>
     (string, use_param) go_map \<Rightarrow> ((unit option \<times> go_error option) \<times> acquire_request recv list) option" where
  "client_session app cli params =
     (let b = NewBeaconControl cli in
      case beacon_LockForContainerUse app b params [] of
        None \<Rightarrow> None
      | Some ((Some st, err), w) \<Rightarrow> Some ((Some st, err), beacon_unlock b st w)
      | Some ((None, err), w) \<Rightarrow> Some ((None, err), w))"

text \<open>
  What a call reports for the containers whose initialisation it was handed, and how its session ends: up to the
  first initialisation that fails, then the end of the stream; otherwise the release message before it.
\<close>

fun reports :: "(string \<Rightarrow> bool) \<Rightarrow> string list \<Rightarrow> acquire_request recv list" where
  "reports P [] = [Msg ReleaseParam, EOF]"
| "reports P (n # ns) = (if P n then Msg (InitParam n True) # reports P ns else [Msg (InitParam n False), EOF])"

fun is_report :: "acquire_request recv \<Rightarrow> bool" where
  "is_report (Msg (InitParam k ok)) = True"
| "is_report _ = False"

text \<open>The error of a call: that of the first initialisation that fails.\<close>

definition first_error :: "(string, use_param) go_map \<Rightarrow> string list \<Rightarrow> go_error option" where
  "first_error params ns =
     Option.bind (List.find (\<lambda>n. \<not> init_succeeds params n) ns)
       (\<lambda>n. initSafe (Option.bind (map_of params n) up_init))"

lemma first_error_simps:
  "first_error params [] = None"
  "first_error params (n # ns) =
     (if init_succeeds params n then first_error params ns else initSafe (Option.bind (map_of params n) up_init))"
  by (simp_all add: first_error_def)

lemma first_error_None: "first_error params ns = None \<longleftrightarrow> list_all (init_succeeds params) ns"
  by (induction ns) (auto simp: first_error_simps init_succeeds_def)

lemma report_inits_scripted:
  assumes "\<And>e. app (Some e) None = Some e"
  shows "report_inits app (scripted answer (\<lambda>_. None) None) () params results w =
     (let T = init_targets results; e = first_error params T in
      if e = None then (None, w @ map (\<lambda>n. Msg (InitParam n True)) T)
      else (Some e, w @ reports (init_succeeds params) T))"
proof (induction results arbitrary: w)
  case (Cons x results)
  obtain name state acq where "x = (name, state, acq)" by (cases x)
  then show ?case
    using Cons assms
    by (auto simp: init_targets_def first_error_simps scripted_def Let_def init_succeeds_def)
qed (simp add: init_targets_def first_error_simps)

lemma reports_success: "list_all P ns \<Longrightarrow> reports P ns = map (\<lambda>n. Msg (InitParam n True)) ns @ [Msg ReleaseParam, EOF]"
  by (induction ns) auto

text \<open>The whole session over a stub that does not fail.\<close>

lemma client_session_scripted:
  assumes "\<And>e. app (Some e) None = Some e"
  shows "client_session app (scripted (Inr results) (\<lambda>_. None) None) params =
     (let T = init_targets results; e = first_error params T in
      Some ((if e = None then Some () else None, e),
       Msg (AcquireParam (client_targets params)) # reports (init_succeeds params) T))"
proof -
  note r = report_inits_scripted [where app = app, OF assms, of "Inr results" params results]
  show ?thesis
    unfolding client_session_def beacon_LockForContainerUse_def NewBeaconControl_def beacon_unlock_def
    by (cases "first_error params (init_targets results)")
      (auto simp: scripted_simps r Let_def reports_success dest: first_error_None [THEN iffD1])
qed

section \<open>The server at the end of a session\<close>

text \<open>The events of a stream reach its handler one by one, until it has returned.\<close>

fun deliver ::
  "'s sem_ops \<Rightarrow> 'o once_ops \<Rightarrow> nat \<Rightarrow> string list \<Rightarrow> acquire_request recv list \<Rightarrow> ('s, 'o) server \<Rightarrow>
     (go_panic + ('s, 'o) server) option" where
  "deliver so oo i order [] v = Some (Inr v)"
| "deliver so oo i order (ev # evs) v =
     (case sv_streams v i of
        Some (Ended _) \<Rightarrow> Some (Inr v)
      | _ \<Rightarrow> and_then (server_step so oo (SRecv i order ev) v) (deliver so oo i order evs))"

definition given_back :: "('s, 'o) server \<Rightarrow> nat \<Rightarrow> nat \<Rightarrow> bool" where
  "given_back v i r \<longleftrightarrow> (\<exists>e. sv_streams v i = Some (Ended e)) \<and> (\<forall>k. hold (sv_sys v) r k = None)"

definition ends_given_back ::
  "'s sem_ops \<Rightarrow> 'o once_ops \<Rightarrow> nat \<Rightarrow> nat \<Rightarrow> string list \<Rightarrow> acquire_request recv list \<Rightarrow> ('s, 'o) server \<Rightarrow> bool" where
  "ends_given_back so oo i r order evs v \<longleftrightarrow>
     (\<exists>v'. deliver so oo i order evs v = Some (Inr v') \<and> given_back v' i r)"

lemma deliver_step:
  assumes "sv_streams v i = Some st" and "acq_recv so oo order ev st (sv_sys v) = Some (Inr (st', s'))"
    and "ends_given_back so oo i r order evs \<lparr>sv_sys = s', sv_streams = (sv_streams v)(i \<mapsto> st')\<rparr>"
  shows "ends_given_back so oo i r order (ev # evs) v"
  using assms by (cases st) (auto simp: ends_given_back_def with_stream_def and_then_def)

lemma deliver_ended:
  assumes "sv_streams v i = Some (Ended e)" and "\<forall>k. hold (sv_sys v) r k = None"
  shows "ends_given_back so oo i r order evs v"
  using assms by (cases evs) (simp_all add: ends_given_back_def given_back_def)

lemma after_init_nil: "after_init so oo r [] None order s = Some (Inr (AwaitRelease r, s))"
  by (simp add: after_init_def and_then_def)

text \<open>A session that goes on after its locks were released ends the stream.\<close>

lemma deliver_released:
  assumes "sv_streams v i = Some AwaitAcquire" and "\<forall>k. hold (sv_sys v) r k = None"
  shows "ends_given_back so oo i r order (reports P ns) v" and "ends_given_back so oo i r order [EOF] v"
proof -
  have *: "ends_given_back so oo i r order (ev # evs) v" if "\<forall>p. ev \<noteq> Msg (AcquireParam p)" for ev evs
  proof -
    have "\<exists>e. acq_recv so oo order ev AwaitAcquire (sv_sys v) = Some (Inr (Ended e, sv_sys v))"
    proof (cases ev)
      case (Msg m)
      with that show ?thesis by (cases m) auto
    qed auto
    then obtain e where e: "acq_recv so oo order ev AwaitAcquire (sv_sys v) = Some (Inr (Ended e, sv_sys v))" ..
    show ?thesis using assms by (intro deliver_step [OF assms(1) e] deliver_ended) simp_all
  qed
  show "ends_given_back so oo i r order (reports P ns) v" "ends_given_back so oo i r order [EOF] v"
    by (cases ns; auto intro!: *) (rule *, simp)
qed

context weighted_semaphore
begin

lemma set_init_result_held:
  assumes h: "held_use so oo s r params" and k: "k \<in> set (map fst params)"
  shows "\<exists>s'. set_init_result so oo r k ok s = Some (Inr s') \<and> held_use so oo s' r params"
proof -
  obtain cl where "lock_of s r k = Some cl" using held_use_lock [OF h k] by metis
  then show ?thesis using init_result_step [OF h k, of ok] by (auto simp: set_init_result_def)
qed

lemma report_failed_held:
  "held_use so oo s r params \<Longrightarrow> set T \<subseteq> set (map fst params) \<Longrightarrow>
     \<exists>s'. report_failed so oo r T s = Some (Inr s') \<and> held_use so oo s' r params"
proof (induction T arbitrary: s)
  case (Cons k T)
  obtain s1 where "set_init_result so oo r k False s = Some (Inr s1)" "held_use so oo s1 r params"
    using set_init_result_held [OF Cons.prems(1), of k False] Cons.prems(2) by auto
  then show ?case using Cons.IH [of s1] Cons.prems(2) by (auto simp: and_then_def)
qed simp

lemma release_then_held:
  assumes "held_use so oo s r params" and "distinct order" and "set order = set (map fst params)"
  shows "\<exists>s'. release_then so oo r order st s = Some (Inr (st, s')) \<and> (\<forall>k. hold s' r k = None)"
  using release_step [OF assms] by (auto simp: release_then_def and_then_def)

lemma after_init_held:
  assumes h: "held_use so oo s r params" and T: "set T \<subseteq> set (map fst params)"
    and o: "distinct order" "set order = set (map fst params)"
    and ne: "T \<noteq> []"
  shows "\<exists>s'. after_init so oo r T None order s = Some (Inr (AwaitAcquire, s')) \<and> (\<forall>k. hold s' r k = None)"
proof -
  obtain s1 where s1: "report_failed so oo r T s = Some (Inr s1)" "held_use so oo s1 r params"
    using report_failed_held [OF h T] by blast
  then show ?thesis
    using release_then_held [OF s1(2) o, of AwaitAcquire] ne by (simp add: after_init_def and_then_def)
qed

text \<open>The last part of a session: the unlock function, or the end of the stream after a failure.\<close>

lemma deliver_unlock:
  assumes v: "sv_streams v i = Some (AwaitRelease r)" and h: "held_use so oo (sv_sys v) r params"
    and o: "distinct order" "set order = set (map fst params)"
  shows "ends_given_back so oo i r order [Msg ReleaseParam, EOF] v" and "ends_given_back so oo i r order [EOF] v"
proof -
  obtain s' where s': "release_then so oo r order AwaitAcquire (sv_sys v) = Some (Inr (AwaitAcquire, s'))"
    "\<forall>k. hold s' r k = None" using release_then_held [OF h o] by blast
  show "ends_given_back so oo i r order [Msg ReleaseParam, EOF] v"
    using s' by (intro deliver_step [OF v, where st' = AwaitAcquire and s' = s'] deliver_released) simp_all
  obtain s2 where s2: "release_then so oo r order (Ended (Some (StreamErr ''EOF''))) (sv_sys v) =
      Some (Inr (Ended (Some (StreamErr ''EOF'')), s2))" "\<forall>k. hold s2 r k = None"
    using release_then_held [OF h o] by blast
  show "ends_given_back so oo i r order [EOF] v"
    using s2 by (intro deliver_step [OF v, where s' = s2] deliver_ended) simp_all
qed

lemma session_ends:
  assumes "sv_streams v i = Some (Initialising r T j)" and "held_use so oo (sv_sys v) r params"
    and "set T \<subseteq> set (map fst params)" and "distinct T" and "T \<noteq> []"
    and o: "distinct order" "set order = set (map fst params)"
  shows "ends_given_back so oo i r order (reports P T) v"
  using assms(1-5)
proof (induction T arbitrary: v j)
  case (Cons n T)
  let ?to = "\<lambda>st s'. \<lparr>sv_sys = s', sv_streams = (sv_streams v)(i \<mapsto> st)\<rparr>"
  have T: "removeAll n (n # T) = T" "n \<in> set (map fst params)" "set T \<subseteq> set (map fst params)"
    using Cons.prems by auto
  obtain s1 where s1: "set_init_result so oo r n (P n) (sv_sys v) = Some (Inr s1)" "held_use so oo s1 r params"
    using set_init_result_held [OF Cons.prems(2) T(2)] by blast
  have recv: "acq_recv so oo order (Msg (InitParam n (P n))) (Initialising r (n # T) j) (sv_sys v) =
      (if P n then init_loop so oo r T (j + 1) order s1 else after_init so oo r T None order s1)"
    using s1(1) T(1) by (simp add: and_then_def Let_def)
  have fin: "ends_given_back so oo i r order (Msg (InitParam n (P n)) # evs) v"
    if "acq_recv so oo order (Msg (InitParam n (P n))) (Initialising r (n # T) j) (sv_sys v) =
        after_init so oo r T None order s1"
      and "T = [] \<Longrightarrow> evs \<in> {[EOF], [Msg ReleaseParam, EOF]}" and "T \<noteq> [] \<Longrightarrow> evs \<in> {[EOF], reports P T}" for evs
  proof (cases "T = []")
    case True
    have "ends_given_back so oo i r order evs (?to (AwaitRelease r) s1)"
      using that(2) [OF True] deliver_unlock [OF _ _ o, of "?to (AwaitRelease r) s1" i r] s1(2) by auto
    then show ?thesis
      using that(1) True after_init_nil [of so oo r order s1] by (intro deliver_step [OF Cons.prems(1)]) simp_all
  next
    case False
    then obtain s2 where s2: "after_init so oo r T None order s1 = Some (Inr (AwaitAcquire, s2))"
      "\<forall>k. hold s2 r k = None" using after_init_held [OF s1(2) T(3) o] by blast
    then have "ends_given_back so oo i r order evs (?to AwaitAcquire s2)"
      using that(3) [OF False] deliver_released [of "?to AwaitAcquire s2" i r] by auto
    then show ?thesis using that(1) s2(1) by (intro deliver_step [OF Cons.prems(1)]) simp_all
  qed
  show ?case
  proof (cases "P n \<and> j + 1 < length T")
    case True
    then have "ends_given_back so oo i r order (reports P T) (?to (Initialising r T (j + 1)) s1)"
      using Cons.prems s1(2) T(3) by (intro Cons.IH) auto
    then show ?thesis
      using recv True by (auto intro!: deliver_step [OF Cons.prems(1)] simp: init_loop_def simp del: acq_recv.simps)
  next
    case False
    then show ?thesis
      using recv fin [of "[EOF]"] fin [of "reports P T"] by (auto simp: init_loop_def simp del: acq_recv.simps)
  qed
qed simp

end

section \<open>The two controls\<close>

lemma init_targets_flags:
  assumes "\<forall>x \<in> set results. snd (snd x) = P (fst x)"
  shows "init_targets results = filter P (map fst results)"
  using assms by (induction results) (auto simp: init_targets_def)

lemma acquire_results_flag: "x \<in> set (acquire_results s r es) \<Longrightarrow> snd (snd x) = acquired s r (fst x)"
  by (auto simp: acquire_results_def acquired_def Let_def split: option.splits)

lemma acquire_results_keys: "map fst (acquire_results s r es) = map fst es"
  by (auto simp: acquire_results_def Let_def)

text \<open>The results of an acquisition, in any iteration order of the map they are sent in.\<close>

lemma init_targets_results:
  assumes "mset results = mset (acquire_results s r (use_entries params))"
  shows "init_targets results = filter (acquired s r) (map fst results)"
    and "set (map fst results) = set (map fst params)"
    and "distinct (map fst params) \<Longrightarrow> distinct (map fst results)"
proof -
  have eq: "set results = set (acquire_results s r (use_entries params))" using assms by (rule mset_eq_setD)
  show "init_targets results = filter (acquired s r) (map fst results)"
    using eq acquire_results_flag by (intro init_targets_flags) blast
  have "mset (map fst results) = mset (map fst params)"
    using assms acquire_results_keys [of s r "use_entries params"] by (metis mset_map use_entries_keys)
  then show "set (map fst results) = set (map fst params)" "distinct (map fst params) \<Longrightarrow> distinct (map fst results)"
    using mset_eq_setD mset_eq_imp_distinct_iff by blast+
qed

context weighted_semaphore
begin

text \<open>The error of the in-process loop is that of the first initialisation that fails, too.\<close>

lemma use_loop_error:
  assumes "held_use so oo s r params" and "set names \<subseteq> set (map fst params)"
    and "use_init_loop so oo r params names s e c = Inr (s', e', c')"
  shows "e' = (if e = None then first_error params (filter (acquired s r) names) else e)"
  using assms
proof (induction names arbitrary: s e c)
  case (Cons name names)
  have name: "name \<in> set (map fst params)" and rest: "set names \<subseteq> set (map fst params)" using Cons.prems by auto
  from Cons.prems(1) name show ?case
  proof (cases rule: use_loop_cases [where names = names and e = e and c = c])
    case skip
    then show ?thesis using Cons.IH [OF Cons.prems(1) rest, of e c] Cons.prems(3) by simp
  next
    case (run s1 e1 c1)
    have acq: "acquired s1 r = acquired s r" using reported_flags [OF run(3)] by blast
    have "use_init_loop so oo r params names s1 e1 c1 = Inr (s', e', c')" using run(5) Cons.prems(3) by simp
    from Cons.IH [OF run(2) rest this, unfolded acq] show ?thesis
      using run(1,4) by (auto simp: first_error_simps init_succeeds_def split: if_splits)
  qed
qed (simp add: first_error_simps)

end

section \<open>Main properties\<close>

text \<open>An append that keeps the first of two errors, for examples.\<close>

definition first_of :: "go_error option \<Rightarrow> go_error option \<Rightarrow> go_error option" where
  "first_of a b = (case a of None \<Rightarrow> b | Some e \<Rightarrow> Some e)"

lemma first_of_Some [simp]: "first_of (Some e) x = Some e"
  by (simp add: first_of_def)

text \<open>
  C14: The two controls agree. For the same granted locks and the same iteration order, \<open>LockForContainerUse\<close> through a
  beacon server calls the same initialisations in the same order as the in-process one, reports each of them, and
  returns the same error; it returns an unlock function exactly when there is no error.
\<close>

theorem controls_agree:
  assumes "weighted_semaphore so cur size_of" and "held_use so oo s r params"
    and "mset results = mset (acquire_results s r (use_entries params))"
    and "distinct order'" and "set order' = set (map fst params)"
    and "\<And>e. app (Some e) None = Some e"
  shows "\<exists>s' err called sent. use_finish so oo r params (map fst results) order' s = Inr (s', err, called) \<and>
    client_session app (scripted (Inr results) (\<lambda>_. None) None) params = Some ((if err = None then Some () else None, err), sent) \<and>
    filter is_report sent = map (\<lambda>k. Msg (InitParam k (init_succeeds params k))) called"
proof -
  let ?A = "filter (acquired s r) (map fst results)" and ?P = "init_succeeds params"
  note R = init_targets_results [OF assms(3)]
  have called: "filter is_report (reports ?P ns) = map (\<lambda>k. Msg (InitParam k (?P k))) (attempted ?P ns)"
    for ns by (induction ns) auto
  have sub: "set (map fst results) \<subseteq> set (map fst params)" using R(2) by simp
  obtain s' err where f: "use_finish so oo r params (map fst results) order' s = Inr (s', err, attempted ?P ?A)"
    "err = first_error params ?A"
  proof (cases "list_all ?P ?A")
    case True
    then show thesis
      using weighted_semaphore.use_finish_ok [OF assms(1,2) R(2), of order'] that attempted_all [OF True] first_error_None
      by metis
  next
    case False
    obtain s1 s' err where u: "use_init_loop so oo r params (map fst results) s None [] = Inr (s1, Some err, attempted ?P ?A)"
      "use_finish so oo r params (map fst results) order' s = Inr (s', Some err, attempted ?P ?A)"
      using weighted_semaphore.use_finish_err [OF assms(1,2) R(2) assms(4,5) False] by blast
    from weighted_semaphore.use_loop_error [OF assms(1,2) sub u(1)] u(2) that show thesis by simp
  qed
  show ?thesis
    unfolding client_session_scripted [where app = app, OF assms(6)] R(1) Let_def f(1)
    by (simp add: f(2) called)
qed

theorem controls_agree_witness:
  "\<exists>s' called sent. use_finish counting_sem list_once 0 (use_example (InitErr (ErrorString ''boom''))) [''kv'', ''db'']
      [''db'', ''kv''] (example use_granted) = Inr (s', Some (ErrorString ''boom''), called) \<and>
    client_session first_of (scripted (Inr [(''kv'', StateLocked, True), (''db'', StateLocked, True)]) (\<lambda>_. None) None)
      (use_example (InitErr (ErrorString ''boom''))) = Some ((None, Some (ErrorString ''boom'')), sent) \<and> called = [''kv'']"
proof -
  let ?p = "use_example (InitErr (ErrorString ''boom''))"
  let ?res = "[(''kv'', StateLocked, True), (''db'', StateLocked, True)]"
  have "acquire_results (example use_granted) 0 (use_entries ?p) = [(''db'', StateLocked, True), (''kv'', StateLocked, True)]"
    by code_simp
  then have m: "mset ?res = mset (acquire_results (example use_granted) 0 (use_entries ?p))" by simp
  have o: "set [''db'', ''kv''] = set (map fst ?p)" by (auto simp: use_example_def)
  obtain s' err called sent where
    u: "use_finish counting_sem list_once 0 ?p (map fst ?res) [''db'', ''kv''] (example use_granted) = Inr (s', err, called)"
    and c: "client_session first_of (scripted (Inr ?res) (\<lambda>_. None) None) ?p = Some ((if err = None then Some () else None, err), sent)"
    and f: "filter is_report sent = map (\<lambda>k. Msg (InitParam k (init_succeeds ?p k))) called"
    using controls_agree [where app = first_of, OF csem.weighted_semaphore_axioms use_granted_held m _ o] by auto
  have "client_session first_of (scripted (Inr ?res) (\<lambda>_. None) None) ?p =
      Some ((None, Some (ErrorString ''boom'')), [Msg (AcquireParam (client_targets ?p)), Msg (InitParam ''kv'' False), EOF])"
    by (simp add: client_session_scripted init_targets_def first_error_simps init_succeeds_def use_example_def initSafe_def)
  with c have e: "err = Some (ErrorString ''boom'')"
    and s: "sent = [Msg (AcquireParam (client_targets ?p)), Msg (InitParam ''kv'' False), EOF]" by auto
  have "called = [''kv'']" using f unfolding s by (cases called) auto
  then show ?thesis using u c e by auto
qed

text \<open>
  C17: Every call through the beacon gives back what it was granted. Whatever number of initialisations comes with the
  locks and however they end, when the server has received what the call and its unlock function send, its handler
  has not panicked, has returned, and the request holds no container any more.
\<close>

theorem client_session_releases:
  assumes "weighted_semaphore so cur size_of" and "server_reach so oo v"
    and "sv_streams v i = Some (Acquiring r)" and "sy_reqs (sv_sys v) r = Some q"
    and "rq_phase q = PHeld" and "rq_entries q = use_entries params" and "distinct (map fst params)"
    and "distinct order" and "set order = set (map fst params)"
    and "results = acquire_results (sv_sys v) r (rq_entries q)" and "\<And>e. app (Some e) None = Some e"
  shows "\<exists>res evs v1 v2 e. client_session app (scripted (Inr results) (\<lambda>_. None) None) params =
      Some (res, Msg (AcquireParam (client_targets params)) # evs) \<and>
    server_step so oo (SReturn i None order) v = Some (Inr v1) \<and> deliver so oo i order evs v1 = Some (Inr v2) \<and>
    sv_streams v2 i = Some (Ended e) \<and> (\<forall>k. hold (sv_sys v2) r k = None)"
proof -
  let ?T = "init_targets results" and ?P = "init_succeeds params"
  have "sys_reach so oo (sv_sys v)" using server_reach_inv [OF assms(2)] by (simp add: server_inv_def)
  then have h: "held_use so oo (sv_sys v) r params" using assms(4-6) by (auto simp: held_use_def)
  have "mset results = mset (acquire_results (sv_sys v) r (use_entries params))" using assms(6,10) by simp
  note R = init_targets_results [OF this]
  have T: "set ?T \<subseteq> set (map fst params)" "distinct ?T" using R(1,3) R(2) [symmetric] assms(7) by auto
  have ret: "\<exists>v1. server_step so oo (SReturn i None order) v = Some (Inr v1) \<and>
      ends_given_back so oo i r order (reports ?P ?T) v1"
  proof (cases "?T = []")
    case True
    let ?v = "v\<lparr>sv_streams := (sv_streams v)(i \<mapsto> AwaitRelease r)\<rparr>"
    have "server_step so oo (SReturn i None order) v = Some (Inr ?v)"
      using assms(3-5,10) True by (simp add: with_stream_def acq_return_def init_loop_def after_init_nil)
    then show ?thesis
      using weighted_semaphore.deliver_unlock(1) [OF assms(1) _ _ assms(8,9), of ?v i r oo] h True by simp
  next
    case False
    let ?v = "v\<lparr>sv_streams := (sv_streams v)(i \<mapsto> Initialising r ?T 0)\<rparr>"
    have "server_step so oo (SReturn i None order) v = Some (Inr ?v)"
      using assms(3-5,10) False by (simp add: with_stream_def acq_return_def init_loop_def)
    then show ?thesis
      using weighted_semaphore.session_ends [OF assms(1) _ _ T False assms(8,9), of ?v i r 0 oo] h by simp
  qed
  then show ?thesis
    unfolding client_session_scripted [where app = app, OF assms(11)]
    by (auto simp: Let_def ends_given_back_def given_back_def)
qed

theorem client_session_releases_witness:
  "\<exists>v evs v1 v2 e. server_example (granted_stream use_two) = Some (Inr v) \<and>
     evs = [Msg (InitParam ''db'' True), Msg (InitParam ''kv'' True), Msg ReleaseParam, EOF] \<and>
     server_step counting_sem list_once (SReturn 0 None [''kv'', ''db'']) v = Some (Inr v1) \<and>
     deliver counting_sem list_once 0 [''kv'', ''db''] evs v1 = Some (Inr v2) \<and>
     sv_streams v2 0 = Some (Ended e) \<and> (\<forall>k. hold (sv_sys v2) 0 k = None)"
proof -
  have "map_option (map_sum id (\<lambda>v. (sv_streams v 0, map_option (\<lambda>q. (rq_phase q, rq_entries q,
      acquire_results (sv_sys v) 0 (rq_entries q))) (sy_reqs (sv_sys v) 0)))) (server_example (granted_stream use_two)) =
    Some (Inr (Some (Acquiring 0), Some (PHeld, use_entries use_two, [(''db'', StateLocked, True), (''kv'', StateLocked, True)])))"
    by code_simp
  then obtain v q where v: "server_example (granted_stream use_two) = Some (Inr v)" "sv_streams v 0 = Some (Acquiring 0)"
    "sy_reqs (sv_sys v) 0 = Some q" "rq_phase q = PHeld" "rq_entries q = use_entries use_two"
    and res: "[(''db'', StateLocked, True), (''kv'', StateLocked, True)] = acquire_results (sv_sys v) 0 (rq_entries q)"
    by (auto simp: map_sum_Inr Some_eq_map_option)
  have d: "distinct (map fst use_two)" "distinct [''kv'', ''db'']" "set [''kv'', ''db''] = set (map fst use_two)"
    by (auto simp: use_two_def)
  have s: "client_session first_of (scripted (Inr [(''db'', StateLocked, True), (''kv'', StateLocked, True)]) (\<lambda>_. None) None)
      use_two = Some ((Some (), None), Msg (AcquireParam (client_targets use_two)) #
        [Msg (InitParam ''db'' True), Msg (InitParam ''kv'' True), Msg ReleaseParam, EOF])"
    by (simp add: client_session_scripted init_targets_def first_error_simps init_succeeds_def use_two_def initSafe_def)
  from client_session_releases [where app = first_of, OF csem.weighted_semaphore_axioms server_example_reach [OF v(1)]
      v(2-5) d res] v(1)
  show ?thesis unfolding s by auto
qed

end
