(* ===== verification/Beacon_Env.thy ===== *)
theory Beacon_Env
  imports Confort_Prelude
begin

text \<open>
  internal/beacon: how a process finds the beacon server. The environment variables (env.go), the lock
  file and the address (addr.go), the resource policies (resource\_policy.go), the identifier of the
  resources (label.go), the connection (beacon.go), the log level (internal/logging/logging.go) and its
  initialisation (\<open>lazyInit\<close> in confort.go).

  The operating system is a world \<open>'w\<close> with its file calls (record \<open>file_api\<close>); gRPC and the backoff package
  are parameters (record \<open>grpc_api\<close>), and so is SHA-256. An environment maps names to values.
\<close>

section \<open>Environment\<close>

definition AddressEnv :: string where "AddressEnv = ''CFT_BEACON_ADDR''"

definition LockFileEnv :: string where "LockFileEnv = ''CFT_LOCKFILE''"

definition IdentifierEnv :: string where "IdentifierEnv = ''CFT_IDENTIFIER''"

definition NamespaceEnv :: string where "NamespaceEnv = ''CFT_NAMESPACE''"

definition ResourcePolicyEnv :: string where "ResourcePolicyEnv = ''CFT_RESOURCE_POLICY''"

definition LogLevelEnv :: string where "LogLevelEnv = ''CFT_LOG_LEVEL''"

type_synonym environment = "string \<Rightarrow> string option"

definition Getenv :: "environment \<Rightarrow> string \<Rightarrow> string" where
  "Getenv env name = (case env name of None \<Rightarrow> '''' | Some v \<Rightarrow> v)"

section \<open>Resource policies and labels\<close>

definition ResourcePolicyError :: string where "ResourcePolicyError = ''error''"

definition ResourcePolicyReuse :: string where "ResourcePolicyReuse = ''reuse''"

definition ResourcePolicyReusable :: string where "ResourcePolicyReusable = ''reusable''"

definition ResourcePolicyTakeOver :: string where "ResourcePolicyTakeOver = ''takeover''"

lemmas policy_defs =
  ResourcePolicyError_def ResourcePolicyReuse_def ResourcePolicyReusable_def ResourcePolicyTakeOver_def

definition ValidResourcePolicy :: "string \<Rightarrow> bool" where
  "ValidResourcePolicy s \<longleftrightarrow>
     s \<in> {ResourcePolicyError, ResourcePolicyReuse, ResourcePolicyReusable, ResourcePolicyTakeOver}"

definition LabelIdentifier :: string where
  "LabelIdentifier = ''daichitakahashi.confort.beacon.identifier''"

text \<open>\<open>hash\<close> is the hexadecimal form of the SHA-256 sum.\<close>

definition Identifier :: "(string \<Rightarrow> string) \<Rightarrow> environment \<Rightarrow> string \<Rightarrow> string" where
  "Identifier hash env s =
     (let i = Getenv env IdentifierEnv in if i \<noteq> '''' then i else hash s)"

section \<open>Lock file and address\<close>

definition LockFile :: string where "LockFile = ''.confort.lock''"

definition LockFilePath :: "environment \<Rightarrow> string" where
  "LockFilePath env = (case env LockFileEnv of Some v \<Rightarrow> v | None \<Rightarrow> LockFile)"

text \<open>Errors of file calls: the file does not exist, or anything else.\<close>

datatype file_error = NotExist | FileError go_error

record 'w file_api =
  os_ReadFile :: "string \<Rightarrow> 'w \<Rightarrow> (file_error + string) \<times> 'w"
  os_WriteFile :: "string \<Rightarrow> string \<Rightarrow> 'w \<Rightarrow> go_error option \<times> 'w"
  os_Stat :: "string \<Rightarrow> 'w \<Rightarrow> file_error option \<times> 'w"
  os_Remove :: "string \<Rightarrow> 'w \<Rightarrow> go_error option \<times> 'w"
  os_After :: "int \<Rightarrow> 'w \<Rightarrow> go_error option \<times> 'w"

text \<open>
  \<open>os_After d\<close> is the select between a timer of duration \<open>d\<close> and the context: \<open>Some err\<close> when the context is
  done first.

  \<open>strings.EqualFold\<close> with a lower-case ASCII string on the right: letters match without regard to case,
  and the long s (C5 BF) and the Kelvin sign (E2 84 AA) fold to s and k.
\<close>

definition ascii_lower :: "char \<Rightarrow> char" where
  "ascii_lower c =
     (let n = of_char c :: nat in if 65 \<le> n \<and> n \<le> 90 then char_of (n + 32) else c)"

fun EqualFold :: "string \<Rightarrow> string \<Rightarrow> bool" where
  "EqualFold [] [] = True"
| "EqualFold [] (p # ps) = False"
| "EqualFold (c # cs) [] = False"
| "EqualFold (c # cs) (p # ps) =
     (if ascii_lower c = p then EqualFold cs ps
      else if p = CHR ''s'' \<and> take 2 (c # cs) = [CHR 0xC5, CHR 0xBF] then EqualFold (drop 1 cs) ps
      else if p = CHR ''k'' \<and> take 3 (c # cs) = [CHR 0xE2, CHR 0x84, CHR 0xAA] then EqualFold (drop 2 cs) ps
      else False)"

datatype addr_error = ErrIntegrationDisabled | AddrError go_error

fun address_loop :: "'w file_api \<Rightarrow> string \<Rightarrow> nat \<Rightarrow> 'w \<Rightarrow> (addr_error + string) \<times> 'w" where
  "address_loop os lockFile 0 w = (Inr '''', w)"
| "address_loop os lockFile (Suc n) w =
     (case os_After os (200 * 1000000) w of
        (Some err, w') \<Rightarrow> (Inl (AddrError err), w')
      | (None, w') \<Rightarrow>
          (case os_ReadFile os lockFile w' of
             (Inl NotExist, w'') \<Rightarrow> address_loop os lockFile n w''
           | (Inl (FileError err), w'') \<Rightarrow> (Inl (AddrError err), w'')
           | (Inr data, w'') \<Rightarrow> (Inr data, w'')))"

definition Address :: "'w file_api \<Rightarrow> environment \<Rightarrow> string \<Rightarrow> 'w \<Rightarrow> (addr_error + string) \<times> 'w" where
  "Address os env lockFile w =
     (let addr = Getenv env AddressEnv in
      if addr \<noteq> '''' then
        (if EqualFold addr ''disabled'' then (Inl ErrIntegrationDisabled, w) else (Inr addr, w))
      else address_loop os lockFile 10 w)"

definition StoreAddressToLockFile :: "'w file_api \<Rightarrow> string \<Rightarrow> string \<Rightarrow> 'w \<Rightarrow> go_error option \<times> 'w" where
  "StoreAddressToLockFile os lockFile addr w = os_WriteFile os lockFile addr w"

definition DeleteLockFile :: "'w file_api \<Rightarrow> string \<Rightarrow> 'w \<Rightarrow> go_error option \<times> 'w" where
  "DeleteLockFile os lockFile w =
     (case os_Stat os lockFile w of
        (Some NotExist, w') \<Rightarrow> (None, w')
      | (Some (FileError err), w') \<Rightarrow> (Some err, w')
      | (None, w') \<Rightarrow> os_Remove os lockFile w')"

section \<open>Connection\<close>

text \<open>
  A client connection is of type \<open>'c\<close>. \<open>gr_Continue k\<close> is the \<open>k\<close>-th call of \<open>backoff.Continue\<close> on a controller
  with the given interval and number of retries.
\<close>

record ('w, 'c) grpc_api =
  gr_Dial :: "string \<Rightarrow> 'w \<Rightarrow> (go_error + 'c) \<times> 'w"
  gr_Health :: "'c \<Rightarrow> 'w \<Rightarrow> (go_error + serving_status) \<times> 'w"
  gr_Continue :: "int \<Rightarrow> nat \<Rightarrow> nat \<Rightarrow> 'w \<Rightarrow> bool \<times> 'w"
  gr_Close :: "'c \<Rightarrow> 'w \<Rightarrow> go_error option \<times> 'w"

record 'c connection =
  Conn :: "'c option"
  Addr :: string

definition Enabled :: "'c connection option \<Rightarrow> bool" where
  "Enabled c \<longleftrightarrow> (case c of None \<Rightarrow> False | Some cn \<Rightarrow> Conn cn \<noteq> None)"

text \<open>\<open>Close\<close> dereferences the connection.\<close>

definition Close_connection :: "('w, 'c) grpc_api \<Rightarrow> 'c connection \<Rightarrow> 'w \<Rightarrow> (go_panic + go_error option) \<times> 'w" where
  "Close_connection g c w =
     (case Conn c of
        None \<Rightarrow> (Inl NilDereference, w)
      | Some cc \<Rightarrow> (case gr_Close g cc w of (e, w') \<Rightarrow> (Inr e, w')))"

text \<open>The health-check loop, with fuel: the number of calls of \<open>Continue\<close>. The status of a nil response is unknown.\<close>

fun health_loop ::
  "('w, 'c) grpc_api \<Rightarrow> 'c \<Rightarrow> nat \<Rightarrow> nat \<Rightarrow> go_error option \<times> serving_status \<Rightarrow> 'w \<Rightarrow>
     ((go_error option \<times> serving_status) \<times> 'w) option" where
  "health_loop g c 0 k r w = None"
| "health_loop g c (Suc fuel) k r w =
     (case gr_Continue g (100 * 1000000) 20 k w of
        (False, w') \<Rightarrow> Some (r, w')
      | (True, w') \<Rightarrow>
          (case gr_Health g c w' of
             (Inl err, w'') \<Rightarrow> health_loop g c fuel (Suc k) (Some err, HealthUnknown) w''
           | (Inr status, w'') \<Rightarrow>
               (if status = HealthServing then Some ((None, status), w'')
                else health_loop g c fuel (Suc k) (None, status) w'')))"

fun status_name :: "serving_status \<Rightarrow> string" where
  "status_name HealthUnknown = ''UNKNOWN''"
| "status_name HealthServing = ''SERVING''"
| "status_name HealthNotServing = ''NOT_SERVING''"

definition connect ::
  "'w file_api \<Rightarrow> ('w, 'c) grpc_api \<Rightarrow> environment \<Rightarrow> nat \<Rightarrow> 'w \<Rightarrow> ((go_error + 'c connection) \<times> 'w) option" where
  "connect os g env fuel w =
     (case Address os env (LockFilePath env) w of
        (Inl ErrIntegrationDisabled, w') \<Rightarrow> Some (Inr \<lparr>Conn = None, Addr = ''''\<rparr>, w')
      | (Inl (AddrError err), w') \<Rightarrow> Some (Inl err, w')
      | (Inr addr, w') \<Rightarrow>
          (if addr = '''' then Some (Inr \<lparr>Conn = None, Addr = ''''\<rparr>, w')
           else
             (case gr_Dial g addr w' of
                (Inl err, w'') \<Rightarrow> Some (Inl err, w'')
              | (Inr conn, w'') \<Rightarrow>
                  (case health_loop g conn fuel 0 (None, HealthUnknown) w'' of
                     None \<Rightarrow> None
                   | Some ((Some err, status), w3) \<Rightarrow> Some (Inl err, w3)
                   | Some ((None, status), w3) \<Rightarrow>
                       (if status \<noteq> HealthServing
                        then Some (Inl (Errorf ''unexpected service status %s'' [status_name status]), w3)
                        else Some (Inr \<lparr>Conn = Some conn, Addr = addr\<rparr>, w3))))))"

text \<open>The loop ends when the controller stops, and it ends with SERVING only right after such an answer.\<close>

lemma health_loop_returns:
  assumes "\<And>k w. fst (gr_Continue g (100 * 1000000) 20 k w) \<Longrightarrow> k < n" and "n \<le> k + m"
  shows "\<exists>x. health_loop g c (Suc m) k r w = Some x"
  using assms(2)
proof (induction m arbitrary: k r w)
  case 0
  then show ?case using assms(1) [of k w] by (auto split: prod.splits bool.splits)
next
  case (Suc m)
  have step: "\<exists>e s v'. health_loop g c (Suc m) (Suc k) q v = Some ((e, s), v')" for q v
    using Suc.IH [of "Suc k" q v] Suc.prems by (metis add_Suc_shift surj_pair)
  show ?case
    by (subst health_loop.simps(2))
      (auto split: prod.splits bool.splits sum.splits intro: step simp del: health_loop.simps)
qed

lemma health_loop_serving:
  "health_loop g c m k r w = Some ((e, HealthServing), w') \<Longrightarrow> snd r \<noteq> HealthServing \<Longrightarrow>
     e = None \<and> (\<exists>v. gr_Health g c v = (Inr HealthServing, w'))"
  by (induction g c m k r w rule: health_loop.induct)
    (auto split: prod.splits bool.splits sum.splits if_splits)

section \<open>Log level\<close>

definition LevelDebug :: int where "LevelDebug = 0"

definition LevelInfo :: int where "LevelInfo = 1"

definition LevelError :: int where "LevelError = 2"

text \<open>The variables of the process: the log level, \<open>initOnce\<close>, and the lines written to the log.\<close>

record log_state =
  lg_level :: int
  lg_once :: bool
  lg_lines :: "(string \<times> string) list"

definition log_init :: log_state where
  "log_init = \<lparr>lg_level = LevelError, lg_once = False, lg_lines = []\<rparr>"

definition level_enabled :: "int \<Rightarrow> int \<Rightarrow> bool" where
  "level_enabled l base \<longleftrightarrow> base \<le> l"

definition SetLogLevel :: "int \<Rightarrow> log_state \<Rightarrow> log_state" where
  "SetLogLevel l s = s\<lparr>lg_level := l\<rparr>"

text \<open>
  A line is the prefix and the rest of what \<open>log.Println\<close> gets, separated by spaces. \<open>runtime.Caller\<close> gives the
  place of the call (\<open>call_site\<close>); the texts of \<open>fmt.Sprint\<close> and \<open>fmt.Sprintf\<close> on the arguments are the
  parameter \<open>sprint\<close>.
\<close>

record call_site =
  st_filename :: string
  st_line :: int
  st_func :: string

definition debugPrefix :: string where "debugPrefix = ''confort[DEBUG]:''"

definition infoPrefix :: string where "infoPrefix = ''confort[INFO]:''"

definition path_Base :: "string \<Rightarrow> string" where
  "path_Base p =
     (let q = rev (dropWhile (\<lambda>c. c = CHR ''/'') (rev p)) in
      if p = '''' then ''.''
      else if q = '''' then ''/''
      else rev (takeWhile (\<lambda>c. c \<noteq> CHR ''/'') (rev q)))"

definition file_line :: "(int \<Rightarrow> string) \<Rightarrow> call_site \<Rightarrow> string" where
  "file_line dec c = [CHR 0x0A, CHR 0x09] @ st_filename c @ '':'' @ dec (st_line c) @ '':'' @ path_Base (st_func c)"

definition log_Println :: "string \<Rightarrow> string list \<Rightarrow> log_state \<Rightarrow> log_state" where
  "log_Println pre rest s = s\<lparr>lg_lines := lg_lines s @ [(pre, concat (map (\<lambda>x. '' '' @ x) rest))]\<rparr>"

definition Debug :: "('a list \<Rightarrow> string) \<Rightarrow> (int \<Rightarrow> string) \<Rightarrow> call_site \<Rightarrow> 'a list \<Rightarrow> log_state \<Rightarrow> log_state" where
  "Debug sprint dec c args s =
     (if level_enabled LevelDebug (lg_level s) then log_Println debugPrefix [sprint args, file_line dec c] s else s)"

definition Debugf ::
  "(string \<Rightarrow> 'a list \<Rightarrow> string) \<Rightarrow> (int \<Rightarrow> string) \<Rightarrow> call_site \<Rightarrow> string \<Rightarrow> 'a list \<Rightarrow> log_state \<Rightarrow> log_state" where
  "Debugf sprintf dec c fmt args s =
     (if level_enabled LevelDebug (lg_level s)
      then log_Println debugPrefix [sprintf fmt args, file_line dec c] s else s)"

definition Info :: "('a list \<Rightarrow> string) \<Rightarrow> 'a list \<Rightarrow> log_state \<Rightarrow> log_state" where
  "Info sprint args s =
     (if level_enabled LevelInfo (lg_level s) then log_Println infoPrefix [sprint args] s else s)"

definition Infof :: "(string \<Rightarrow> 'a list \<Rightarrow> string) \<Rightarrow> string \<Rightarrow> 'a list \<Rightarrow> log_state \<Rightarrow> log_state" where
  "Infof sprintf fmt args s =
     (if level_enabled LevelInfo (lg_level s) then log_Println infoPrefix [sprintf fmt args] s else s)"

text \<open>The base name of a path has no slash in it, unless it is the root.\<close>

lemma path_Base_no_slash: "path_Base p = ''/'' \<or> CHR ''/'' \<notin> set (path_Base p)"
  by (auto simp: path_Base_def Let_def dest: set_takeWhileD)

text \<open>
  A message adds a line exactly when its level is at least the one set: a debug message is written only
  from level 0 down, an info message from level 1 down (the default, LevelError = 2, writes neither).
\<close>

lemmas message_defs = Debug_def Debugf_def Info_def Infof_def log_Println_def level_enabled_def LevelDebug_def LevelInfo_def

lemma messages_by_level:
  shows "lg_lines (Debugf sprintf dec c fmt args s) \<noteq> lg_lines s \<longleftrightarrow> lg_level s \<le> 0"
    and "lg_lines (Infof sprintf fmt args s) \<noteq> lg_lines s \<longleftrightarrow> lg_level s \<le> 1"
    and "lg_lines (Debug sprint dec c args s) \<noteq> lg_lines s \<longleftrightarrow> lg_level s \<le> 0"
    and "lg_lines (Info sprint args s) \<noteq> lg_lines s \<longleftrightarrow> lg_level s \<le> 1"
  by (simp_all add: message_defs)

text \<open>\<open>strconv.ParseInt(v, 10, 64)\<close>: an optional sign and at least one digit, within the range of an int64.\<close>

definition digit_value :: "char \<Rightarrow> int option" where
  "digit_value c = (let n = of_char c :: int in if 48 \<le> n \<and> n \<le> 57 then Some (n - 48) else None)"

fun parse_digits :: "string \<Rightarrow> int \<Rightarrow> int option" where
  "parse_digits [] acc = Some acc"
| "parse_digits (c # cs) acc =
     (case digit_value c of None \<Rightarrow> None | Some d \<Rightarrow> parse_digits cs (10 * acc + d))"

definition ParseInt :: "string \<Rightarrow> int option" where
  "ParseInt s =
     (let neg = (s \<noteq> '''' \<and> hd s = CHR ''-'');
          body = (if s \<noteq> '''' \<and> hd s \<in> {CHR ''+'', CHR ''-''} then tl s else s)
      in if body = '''' then None
         else case parse_digits body 0 of
                None \<Rightarrow> None
              | Some n \<Rightarrow>
                  (let v = (if neg then - n else n) in if - (2 ^ 63) \<le> v \<and> v < 2 ^ 63 then Some v else None))"

definition lazyInit :: "environment \<Rightarrow> log_state \<Rightarrow> log_state" where
  "lazyInit env s =
     (if lg_once s then s
      else
        (let s1 = s\<lparr>lg_once := True\<rparr> in
         case env LogLevelEnv of
           None \<Rightarrow> s1
         | Some v \<Rightarrow>
             (case ParseInt v of
                None \<Rightarrow> s1\<lparr>lg_lines := lg_lines s1 @
                  [('''', ''confort: failed to parse the value of CFT_LOG_LEVEL, default value is 2'')]\<rparr>
              | Some i \<Rightarrow> SetLogLevel i s1)))"

section \<open>The lock file as a channel\<close>

text \<open>
  What the lock file relies on: written data is read back, a removed file does not exist, and the time
  spent in a select changes no file. \<open>content w\<close> are the files of the world.
\<close>

locale lock_files =
  fixes os :: "'w file_api" and content :: "'w \<Rightarrow> string \<Rightarrow> string option"
  assumes read_file: "os_ReadFile os f w = (r, w') \<Longrightarrow>
      content w' = content w \<and> (\<forall>d. r = Inr d \<longrightarrow> content w f = Some d) \<and> (r = Inl NotExist \<longrightarrow> content w f = None)"
    and write_file: "os_WriteFile os f d w = (None, w') \<Longrightarrow> content w' = (content w)(f \<mapsto> d)"
    and stat_file: "os_Stat os f w = (s, w') \<Longrightarrow>
      content w' = content w \<and> (s = Some NotExist \<longrightarrow> content w f = None)"
    and remove_file: "os_Remove os f w = (None, w') \<Longrightarrow> content w' = (content w)(f := None)"
    and after_files: "os_After os t w = (e, w') \<Longrightarrow> content w' = content w"
begin

text \<open>An address is what the file holds; the empty address means that the file did not exist at any try.\<close>

lemma address_loop_result:
  assumes "address_loop os f n w = (Inr a, w')"
  shows "content w' = content w \<and> (content w f = Some a \<or> a = '''' \<and> (content w f = None \<or> n = 0))"
  using assms
proof (induction n arbitrary: w)
  case (Suc n)
  obtain w1 where a: "os_After os (200 * 1000000) w = (None, w1)"
    using Suc.prems by (auto split: prod.splits option.splits)
  obtain r w2 where r: "os_ReadFile os f w1 = (r, w2)" by (cases "os_ReadFile os f w1")
  have w1: "content w1 = content w" using after_files [OF a] .
  note r2 = read_file [OF r]
  show ?case
  proof (cases "r = Inl NotExist")
    case True
    then have "address_loop os f n w2 = (Inr a, w')" using Suc.prems a r by simp
    from Suc.IH [OF this] show ?thesis using r2 w1 True by auto
  next
    case False
    then show ?thesis using Suc.prems a r r2 w1 by (auto split: sum.splits file_error.splits)
  qed
qed simp

lemma delete_removes:
  assumes "DeleteLockFile os f w = (None, w')"
  shows "content w' = (content w)(f := None)"
proof -
  obtain s w1 where s: "os_Stat os f w = (s, w1)" by (cases "os_Stat os f w")
  note s1 = stat_file [OF s]
  show ?thesis
  proof (cases s)
    case None
    then have "os_Remove os f w1 = (None, w')" using assms s by (simp add: DeleteLockFile_def)
    from remove_file [OF this] show ?thesis using s1 by simp
  next
    case (Some e)
    then have "e = NotExist" and "w' = w1" using assms s by (auto simp: DeleteLockFile_def split: file_error.splits)
    then show ?thesis using s1 Some by auto
  qed
qed

lemma address_unset:
  assumes "Getenv env AddressEnv = ''''" and "Address os env f w = (r, w')"
  shows "r = Inr (case content w f of None \<Rightarrow> '''' | Some a \<Rightarrow> a) \<or> (\<exists>e. r = Inl (AddrError e))"
proof (cases r)
  case (Inl e)
  have "snd (address_loop os f n v) = u \<Longrightarrow> fst (address_loop os f n v) \<noteq> Inl ErrIntegrationDisabled" for n u v
    by (induction n arbitrary: v) (auto split: prod.splits option.splits sum.splits file_error.splits)
  moreover have "address_loop os f 10 w = (r, w')" using assms by (simp add: Address_def)
  ultimately show ?thesis using Inl by (cases e) (metis fst_conv)+
next
  case (Inr a)
  then have "address_loop os f 10 w = (Inr a, w')" using assms by (simp add: Address_def)
  from address_loop_result [OF this] show ?thesis using Inr by auto
qed

end

text \<open>A world with only files, where the context is never done.\<close>

definition plain_os :: "(string \<Rightarrow> string option) file_api" where
  "plain_os =
     \<lparr>os_ReadFile = (\<lambda>f w. (case w f of None \<Rightarrow> Inl NotExist | Some d \<Rightarrow> Inr d, w)),
      os_WriteFile = (\<lambda>f d w. (None, w(f \<mapsto> d))),
      os_Stat = (\<lambda>f w. (if w f = None then Some NotExist else None, w)),
      os_Remove = (\<lambda>f w. if w f = None then (Some (ErrorString ''no such file''), w) else (None, w(f := None))),
      os_After = (\<lambda>_ w. (None, w))\<rparr>"

interpretation plain_files: lock_files plain_os id
  by unfold_locales (auto simp: plain_os_def split: option.splits if_splits)

section \<open>Main properties\<close>



text \<open>
  C32: A connection is used only when the server serves. \<open>connect\<close> gives a disabled connection exactly when no
  address is configured or the integration is disabled, and then dials nothing; an enabled connection belongs
  to the configured, non-empty address, to the dialled client, and its last health check answered SERVING. With
  a backoff controller that stops after at most \<open>n\<close> calls, \<open>connect\<close> returns with fuel \<open>n + 1\<close>.
\<close>

theorem connect_exact:
  assumes "\<forall>k v. fst (gr_Continue g (100 * 1000000) 20 k v) \<longrightarrow> k < n"
  shows "\<exists>r w'. connect os g env (Suc n) w = Some (r, w') \<and>
    (\<forall>c a w1. r = Inr c \<longrightarrow> Address os env (LockFilePath env) w = (a, w1) \<longrightarrow>
       (if Enabled (Some c)
        then a = Inr (Addr c) \<and> Addr c \<noteq> '''' \<and>
          (\<exists>conn w2 v. gr_Dial g (Addr c) w1 = (Inr conn, w2) \<and> Conn c = Some conn \<and>
             gr_Health g conn v = (Inr HealthServing, w'))
        else a \<in> {Inl ErrIntegrationDisabled, Inr ''''} \<and> w' = w1))"
proof -
  have loop: "\<exists>r status w'. health_loop g conn (Suc n) 0 (None, HealthUnknown) v = Some ((r, status), w')" for conn v
    using health_loop_returns [of g n 0 n conn "(None, HealthUnknown)" v] assms by (metis add_0 order_refl surj_pair)
  show ?thesis
  proof (cases "Address os env (LockFilePath env) w")
    case (Pair a w1)
    show ?thesis
    proof (cases "\<exists>addr conn w2. a = Inr addr \<and> addr \<noteq> '''' \<and> gr_Dial g addr w1 = (Inr conn, w2)")
      case True
      then obtain addr conn w2 where d: "a = Inr addr" "addr \<noteq> ''''" "gr_Dial g addr w1 = (Inr conn, w2)" by blast
      obtain e status w3 where l: "health_loop g conn (Suc n) 0 (None, HealthUnknown) w2 = Some ((e, status), w3)"
        using loop by blast
      have "status = HealthServing \<Longrightarrow> \<exists>v. gr_Health g conn v = (Inr HealthServing, w3)"
        using health_loop_serving [of g conn "Suc n" 0 "(None, HealthUnknown)" w2 e w3] l by simp
      then show ?thesis
        using d l Pair by (auto simp: connect_def Enabled_def simp del: health_loop.simps split: option.splits)
    next
      case False
      then show ?thesis
        using Pair by (auto simp: connect_def Enabled_def split: sum.splits addr_error.splits prod.splits)
    qed
  qed
qed

text \<open>A server that answers at the third health check.\<close>

definition slow_grpc :: "(nat, unit) grpc_api" where
  "slow_grpc =
     \<lparr>gr_Dial = (\<lambda>_ w. (Inr (), w)),
      gr_Health = (\<lambda>_ w. (if w = 2 then Inr HealthServing else Inl (ErrorString ''unavailable''), Suc w)),
      gr_Continue = (\<lambda>_ retries k w. (k \<le> retries, w)), gr_Close = (\<lambda>_ w. (None, w))\<rparr>"

definition still_os :: "nat file_api" where
  "still_os =
     \<lparr>os_ReadFile = (\<lambda>_ w. (Inl NotExist, w)), os_WriteFile = (\<lambda>_ _ w. (None, w)), os_Stat = (\<lambda>_ w. (None, w)),
      os_Remove = (\<lambda>_ w. (None, w)), os_After = (\<lambda>_ w. (None, w))\<rparr>"

theorem connect_exact_witness:
  "\<exists>c. connect still_os slow_grpc [AddressEnv \<mapsto> ''host:1''] 22 0 = Some (Inr c, 3) \<and>
     Enabled (Some c) \<and> Addr c = ''host:1''"
proof -
  let ?env = "[AddressEnv \<mapsto> ''host:1'']"
  have a: "Address still_os ?env (LockFilePath ?env) 0 = (Inr ''host:1'', 0)"
    by (simp add: Address_def Getenv_def ascii_lower_def)
  have "connect still_os slow_grpc ?env (Suc 21) 0 = Some (Inr \<lparr>Conn = Some (), Addr = ''host:1''\<rparr>, 3)"
    by (simp add: connect_def a slow_grpc_def eval_nat_numeral)
  then show ?thesis
    using connect_exact [of slow_grpc 21 still_os ?env 0] a by (auto simp: slow_grpc_def Enabled_def)
qed

end
