(* ===== verification/Config_Consistency.thy ===== *)
theory Config_Consistency
  imports Confort_Prelude
begin

text \<open>
  config_consistency.go: may an existing container be reused for a requested configuration? The
  first argument of each pair is the request and the second one the existing container; every
  check is handed them as \<open>target\<close> and \<open>expected\<close>. The check passes exactly when everything the request
  asks for is present in the existing container (\<open>config_covers\<close> below), field by field.

  go-cmp and go.uber.org/multierr are parameters (record \<open>err_pkgs\<close>, locale \<open>error_packages\<close>). The
  records hold the fields that the code compares; fields of docker types that the code only
  compares as a whole (health checks, IPAM settings) are type variables, \<open>reflect.DeepEqual\<close> is
  equality of values.
\<close>

section \<open>Packages and boxed values\<close>

text \<open>Values converted to \<open>any\<close> for \<open>cmp.Diff\<close>.\<close>

datatype ('h, 'i) any =
    AString string
  | ABool bool
  | AStrings "string list"
  | AStringMap "(string, string) go_map"
  | ASet "(string, unit) go_map"
  | AHealth "'h option"
  | AInt "int option"
  | AIpam "'i option"

record ('h, 'i) err_pkgs =
  Diff :: "('h, 'i) any \<Rightarrow> ('h, 'i) any \<Rightarrow> string"
  Combine :: "go_error option list \<Rightarrow> go_error option"
  Append :: "go_error option \<Rightarrow> go_error option \<Rightarrow> go_error option"

section \<open>Checks of one field\<close>

definition diffError :: "('h, 'i) err_pkgs \<Rightarrow> string \<Rightarrow> ('h, 'i) any \<Rightarrow> ('h, 'i) any \<Rightarrow> go_error" where
  "diffError p msg expected target = ErrorString (msg @ ''\<newline>'' @ Diff p expected target)"

definition equals ::
  "('h, 'i) err_pkgs \<Rightarrow> string \<Rightarrow> ('h, 'i) any \<Rightarrow> ('h, 'i) any \<Rightarrow> go_error option" where
  "equals p name expected target =
     (let diff = Diff p expected target in
      if diff \<noteq> '''' then Some (ErrorString (name @ ''\<newline>'' @ diff)) else None)"

definition stringSubset :: "('h, 'i) err_pkgs \<Rightarrow> string \<Rightarrow> string \<Rightarrow> string \<Rightarrow> go_error option" where
  "stringSubset p name expected target =
     (if target = '''' \<or> target = expected then None
      else Some (diffError p name (AString expected) (AString target)))"

definition sliceSubset ::
  "('h, 'i) err_pkgs \<Rightarrow> string \<Rightarrow> string list \<Rightarrow> string list \<Rightarrow> go_error option" where
  "sliceSubset p name expected target =
     (if target = [] then None
      else if expected = [] then Some (diffError p name (AStrings expected) (AStrings target))
      else if list_all (\<lambda>t. t \<in> set expected) target then None
      else Some (diffError p name (AStrings expected) (AStrings target)))"

definition sequentialSubset ::
  "('h, 'i) err_pkgs \<Rightarrow> string \<Rightarrow> string list \<Rightarrow> string list \<Rightarrow> go_error option" where
  "sequentialSubset p name expected target =
     (if target = [] then None
      else if expected = [] \<or> expected \<noteq> target
      then Some (diffError p name (AStrings expected) (AStrings target))
      else None)"

text \<open>The generic \<open>mapSubset\<close> takes the conversion of its map type to \<open>any\<close>.\<close>

definition mapSubset ::
  "('h, 'i) err_pkgs \<Rightarrow> (('k, 'v) go_map \<Rightarrow> ('h, 'i) any) \<Rightarrow> string \<Rightarrow>
     ('k, 'v) go_map \<Rightarrow> ('k, 'v) go_map \<Rightarrow> go_error option" where
  "mapSubset p box name expected target =
     (if target = [] then None
      else if expected = [] then Some (diffError p name (box expected) (box target))
      else if list_all (\<lambda>(k, v). map_of expected k = Some v) target then None
      else Some (diffError p name (box expected) (box target)))"

definition pointerSubset ::
  "('h, 'i) err_pkgs \<Rightarrow> ('t option \<Rightarrow> ('h, 'i) any) \<Rightarrow> string \<Rightarrow> 't option \<Rightarrow> 't option \<Rightarrow> go_error option" where
  "pointerSubset p box name expected target =
     (if target = None then None
      else if expected = None \<or> expected \<noteq> target
      then Some (diffError p name (box expected) (box target))
      else None)"

section \<open>Whole configurations\<close>

record 'h container_config =
  Hostname :: string
  Domainname :: string
  User :: string
  ExposedPorts :: "(string, unit) go_map"
  Env :: "string list"
  Cmd :: "string list"
  Healthcheck :: "'h option"
  ArgsEscaped :: bool
  Image :: string
  Volumes :: "(string, unit) go_map"
  WorkingDir :: string
  Entrypoint :: "string list"
  MacAddress :: string
  Labels :: "(string, string) go_map"
  StopSignal :: string
  StopTimeout :: "int option"
  Shell :: "string list"

record host_config =
  Binds :: "string list"
  NetworkMode :: string
  RestartPolicyName :: string
  VolumeDriver :: string
  VolumesFrom :: "string list"
  CapAdd :: "string list"
  CapDrop :: "string list"
  CgroupnsMode :: string
  DNS :: "string list"
  DNSOptions :: "string list"
  DNSSearch :: "string list"
  ExtraHosts :: "string list"
  GroupAdd :: "string list"
  IpcMode :: string
  Cgroup :: string
  HostLinks :: "string list"
  PidMode :: string
  Privileged :: bool
  PublishAllPorts :: bool
  ReadonlyRootfs :: bool
  SecurityOpt :: "string list"
  StorageOpt :: "(string, string) go_map"
  Tmpfs :: "(string, string) go_map"

record 'i endpoint_settings =
  IPAMConfig :: "'i option"
  Links :: "string list"
  Aliases :: "string list"
  NetworkID :: string
  Gateway :: string
  IPAddress :: string
  IPv6Gateway :: string
  GlobalIPv6Address :: string
  EndpointMac :: string
  DriverOpts :: "(string, string) go_map"

definition checkContainerConfigConsistency ::
  "('h, 'i) err_pkgs \<Rightarrow> 'h container_config option \<Rightarrow> 'h container_config option \<Rightarrow>
     go_panic + go_error option" where
  "checkContainerConfigConsistency p expected target =
     (case (expected, target) of
        (Some e, Some t) \<Rightarrow>
          Inr (Combine p [
            stringSubset p ''Hostname'' (Hostname e) (Hostname t),
            stringSubset p ''Hostname'' (Hostname e) (Hostname t),
            stringSubset p ''Domainname'' (Domainname e) (Domainname t),
            stringSubset p ''User'' (User e) (User t),
            mapSubset p ASet ''ExposedPorts'' (ExposedPorts e) (ExposedPorts t),
            sliceSubset p ''Env'' (Env e) (Env t),
            sequentialSubset p ''Cmd'' (Cmd e) (Cmd t),
            pointerSubset p AHealth ''Healthcheck'' (Healthcheck e) (Healthcheck t),
            equals p ''ArgsEscaped'' (ABool (ArgsEscaped e)) (ABool (ArgsEscaped t)),
            equals p ''Image'' (AString (Image e)) (AString (Image t)),
            mapSubset p ASet ''Volumes'' (Volumes e) (Volumes t),
            equals p ''WorkingDir'' (AString (WorkingDir e)) (AString (WorkingDir t)),
            sequentialSubset p ''Entrypoint'' (Entrypoint e) (Entrypoint t),
            stringSubset p ''MacAddress'' (MacAddress e) (MacAddress t),
            mapSubset p AStringMap ''Labels'' (Labels e) (Labels t),
            stringSubset p ''StopSignal'' (StopSignal e) (StopSignal t),
            pointerSubset p AInt ''StopTimeout'' (StopTimeout e) (StopTimeout t),
            sequentialSubset p ''Shell'' (Shell e) (Shell t)])
      | _ \<Rightarrow> Inl NilDereference)"

definition checkHostConfigConsistency ::
  "('h, 'i) err_pkgs \<Rightarrow> host_config option \<Rightarrow> host_config option \<Rightarrow> go_panic + go_error option" where
  "checkHostConfigConsistency p expected target =
     (case (expected, target) of
        (Some e, Some t) \<Rightarrow>
          Inr (Combine p [
            sliceSubset p ''Binds'' (Binds e) (Binds t),
            stringSubset p ''NetworkMode'' (NetworkMode e) (NetworkMode t),
            stringSubset p ''RestartPolicy'' (RestartPolicyName e) (RestartPolicyName t),
            stringSubset p ''VolumeDriver'' (VolumeDriver e) (VolumeDriver t),
            sliceSubset p ''VolumesFrom'' (VolumesFrom e) (VolumesFrom t),
            sliceSubset p ''CapAdd'' (CapAdd e) (CapAdd t),
            sliceSubset p ''CapDrop'' (CapDrop e) (CapDrop t),
            stringSubset p ''CgroupsMode'' (CgroupnsMode e) (CgroupnsMode t),
            sliceSubset p ''DNS'' (DNS e) (DNS t),
            sliceSubset p ''DNSOptions'' (DNSOptions e) (DNSOptions t),
            sliceSubset p ''DNSSearch'' (DNSSearch e) (DNSSearch t),
            sliceSubset p ''ExtraHosts'' (ExtraHosts e) (ExtraHosts t),
            sliceSubset p ''GroupAdd'' (GroupAdd e) (GroupAdd t),
            stringSubset p ''IpcMode'' (IpcMode e) (IpcMode t),
            stringSubset p ''Cgroup'' (Cgroup e) (Cgroup t),
            sliceSubset p ''Links'' (HostLinks e) (HostLinks t),
            stringSubset p ''PidMode'' (PidMode e) (PidMode t),
            equals p ''Privileged'' (ABool (Privileged e)) (ABool (Privileged t)),
            equals p ''PublishAllPorts'' (ABool (PublishAllPorts e)) (ABool (PublishAllPorts t)),
            equals p ''ReadonlyRootfs'' (ABool (ReadonlyRootfs e)) (ABool (ReadonlyRootfs t)),
            sliceSubset p ''SecurityOpt'' (SecurityOpt e) (SecurityOpt t),
            mapSubset p AStringMap ''StorageOpt'' (StorageOpt e) (StorageOpt t),
            mapSubset p AStringMap ''Tmpfs'' (Tmpfs e) (Tmpfs t)])
      | _ \<Rightarrow> Inl NilDereference)"

text \<open>The checks of one network of the loop in \<open>checkEndpointSettingsConsistency\<close>.\<close>

definition endpoint_check ::
  "('h, 'i) err_pkgs \<Rightarrow> 'i endpoint_settings \<Rightarrow> 'i endpoint_settings \<Rightarrow> go_error option" where
  "endpoint_check p e t =
     Combine p [
       pointerSubset p AIpam ''IPAMConfig'' (IPAMConfig e) (IPAMConfig t),
       sliceSubset p ''Links'' (Links e) (Links t),
       sliceSubset p ''Aliases'' (Aliases e) (Aliases t),
       equals p ''NetworkID'' (AString (NetworkID e)) (AString (NetworkID t)),
       stringSubset p ''Gateway'' (Gateway e) (Gateway t),
       stringSubset p ''IPAddress'' (IPAddress e) (IPAddress t),
       stringSubset p ''IPv6Gateway'' (IPv6Gateway e) (IPv6Gateway t),
       stringSubset p ''GlobalIPv6Address'' (GlobalIPv6Address e) (GlobalIPv6Address t),
       stringSubset p ''MacAddress'' (EndpointMac e) (EndpointMac t),
       mapSubset p AStringMap ''DriverOpts'' (DriverOpts e) (DriverOpts t)]"

fun endpoint_loop ::
  "('h, 'i) err_pkgs \<Rightarrow> (string, 'i endpoint_settings option) go_map \<Rightarrow>
     (string, 'i endpoint_settings option) go_map \<Rightarrow> go_error option \<Rightarrow> go_panic + go_error option" where
  "endpoint_loop p expected [] err = Inr err"
| "endpoint_loop p expected ((networkName, settings) # rest) err =
     (case map_of expected networkName of
        None \<Rightarrow> endpoint_loop p expected rest err
      | Some expectedSettings \<Rightarrow>
          (case (expectedSettings, settings) of
             (Some e, Some t) \<Rightarrow>
               (case endpoint_check p e t of
                  None \<Rightarrow> endpoint_loop p expected rest err
                | Some x \<Rightarrow>
                    endpoint_loop p expected rest (Append p err (Some (Wrapped (networkName @ '': '') x))))
           | _ \<Rightarrow> Inl NilDereference))"

definition checkEndpointSettingsConsistency ::
  "('h, 'i) err_pkgs \<Rightarrow> (string, 'i endpoint_settings option) go_map \<Rightarrow>
     (string, 'i endpoint_settings option) go_map \<Rightarrow> go_panic + go_error option" where
  "checkEndpointSettingsConsistency p expected target = endpoint_loop p expected target None"

definition checkConfigConsistency ::
  "('h, 'i) err_pkgs \<Rightarrow> 'h container_config option \<Rightarrow> 'h container_config option \<Rightarrow>
     host_config option \<Rightarrow> host_config option \<Rightarrow>
     (string, 'i endpoint_settings option) go_map \<Rightarrow> (string, 'i endpoint_settings option) go_map \<Rightarrow>
     go_panic + go_error option" where
  "checkConfigConsistency p container1 container2 host1 host2 network1 network2 =
     (case checkContainerConfigConsistency p container2 container1 of
        Inl pn \<Rightarrow> Inl pn
      | Inr (Some err) \<Rightarrow> Inr (Some (Wrapped ''inconsistent container config\<newline> '' err))
      | Inr None \<Rightarrow>
          (case checkHostConfigConsistency p host2 host1 of
             Inl pn \<Rightarrow> Inl pn
           | Inr (Some err) \<Rightarrow> Inr (Some (Wrapped ''inconsistent host config\<newline>'' err))
           | Inr None \<Rightarrow>
               (case checkEndpointSettingsConsistency p network2 network1 of
                  Inl pn \<Rightarrow> Inl pn
                | Inr (Some err) \<Rightarrow> Inr (Some (Wrapped ''inconsistent network config\<newline>'' err))
                | Inr None \<Rightarrow> Inr None)))"

section \<open>What the checks mean\<close>

text \<open>What a request has to say about a field so that an existing value covers it.\<close>

definition str_sub :: "string \<Rightarrow> string \<Rightarrow> bool" where
  "str_sub t e \<longleftrightarrow> t = '''' \<or> t = e"

definition slice_sub :: "'a list \<Rightarrow> 'a list \<Rightarrow> bool" where
  "slice_sub t e \<longleftrightarrow> set t \<subseteq> set e"

definition seq_sub :: "'a list \<Rightarrow> 'a list \<Rightarrow> bool" where
  "seq_sub t e \<longleftrightarrow> t = [] \<or> t = e"

definition map_sub :: "('k, 'v) go_map \<Rightarrow> ('k, 'v) go_map \<Rightarrow> bool" where
  "map_sub t e \<longleftrightarrow> (\<forall>(k, v) \<in> set t. map_of e k = Some v)"

definition ptr_sub :: "'a option \<Rightarrow> 'a option \<Rightarrow> bool" where
  "ptr_sub t e \<longleftrightarrow> t = None \<or> t = e"

text \<open>
  The contract of a check: it reports nothing exactly when the existing value covers the requested
  one, covering is transitive, and every proper value covers itself.
\<close>

locale field_check =
  fixes check :: "'a \<Rightarrow> 'a \<Rightarrow> go_error option" and sub :: "'a \<Rightarrow> 'a \<Rightarrow> bool" and good :: "'a \<Rightarrow> bool"
  assumes check_None: "check e t = None \<longleftrightarrow> sub t e"
    and sub_trans: "sub t e \<Longrightarrow> sub e f \<Longrightarrow> sub t f"
    and sub_refl: "good t \<Longrightarrow> sub t t"
begin

lemma check_self: "good t \<Longrightarrow> check t t = None"
  using check_None sub_refl by blast

lemma check_widen: "check e t = None \<Longrightarrow> sub e f \<Longrightarrow> check f t = None"
  using check_None sub_trans by blast

end

interpretation str: field_check "stringSubset p n" str_sub "\<lambda>_. True" for p n
  by unfold_locales (auto simp: stringSubset_def str_sub_def)

interpretation slice: field_check "sliceSubset p n" slice_sub "\<lambda>_. True" for p n
  by unfold_locales (auto simp: sliceSubset_def slice_sub_def list_all_iff)

interpretation seqn: field_check "sequentialSubset p n" seq_sub "\<lambda>_. True" for p n
  by unfold_locales (auto simp: sequentialSubset_def seq_sub_def)

interpretation maps: field_check "mapSubset p box n" map_sub "\<lambda>m. distinct (map fst m)" for p box n
proof unfold_locales
  show "mapSubset p box n e t = None \<longleftrightarrow> map_sub t e" for e t
    by (cases t) (auto simp: mapSubset_def map_sub_def list_all_iff)
  show "map_sub t e \<Longrightarrow> map_sub e f \<Longrightarrow> map_sub t f" for t e f :: "('c, 'd) go_map"
    unfolding map_sub_def using map_of_SomeD by fastforce
qed (auto simp: map_sub_def)

interpretation ptr: field_check "pointerSubset p box n" ptr_sub "\<lambda>_. True" for p box n
  by unfold_locales (auto simp: pointerSubset_def ptr_sub_def)

text \<open>The documented behaviour of the packages, as far as the code relies on it.\<close>

locale error_packages =
  fixes p :: "('h, 'i) err_pkgs"
  assumes diff_string: "Diff p (AString s) (AString t) = '''' \<longleftrightarrow> s = t"
    and diff_bool: "Diff p (ABool a) (ABool b) = '''' \<longleftrightarrow> a = b"
    and combine_None: "Combine p es = None \<longleftrightarrow> (\<forall>e \<in> set es. e = None)"
    and append_None: "Append p l r = None \<longleftrightarrow> l = None \<and> r = None"

definition plain_pkgs :: "('h, 'i) err_pkgs" where
  "plain_pkgs =
     \<lparr>Diff = (\<lambda>a b. case (a, b) of
                (AString s, AString t) \<Rightarrow> if s = t then '''' else ''-'' @ s @ ''+'' @ t
              | (ABool x, ABool y) \<Rightarrow> if x = y then '''' else ''-+''
              | _ \<Rightarrow> ''-+''),
      Combine = (\<lambda>es. case List.map_filter id es of [] \<Rightarrow> None | [e] \<Rightarrow> Some e | xs \<Rightarrow> Some (Joined xs)),
      Append = (\<lambda>l r. case l of
                  None \<Rightarrow> r
                | Some x \<Rightarrow> (case r of None \<Rightarrow> Some x | Some y \<Rightarrow> Some (Joined [x, y])))\<rparr>"

lemma map_filter_id_Nil: "List.map_filter id es = [] \<longleftrightarrow> (\<forall>e \<in> set es. e = None)"
  by (induction es) (auto simp: List.map_filter_simps split: option.splits)

interpretation plain: error_packages plain_pkgs
proof unfold_locales
  show "Combine plain_pkgs es = None \<longleftrightarrow> (\<forall>e \<in> set es. e = None)" for es
    by (cases "List.map_filter id es"; cases "tl (List.map_filter id es)")
      (auto simp: plain_pkgs_def map_filter_id_Nil [symmetric])
qed (auto simp: plain_pkgs_def split: option.splits)

section \<open>The abstract relation\<close>

text \<open>\<open>config_covers\<close>: everything the request says holds of the existing container.\<close>

definition container_covers :: "'h container_config \<Rightarrow> 'h container_config \<Rightarrow> bool" where
  "container_covers t e \<longleftrightarrow>
     str_sub (Hostname t) (Hostname e) \<and> str_sub (Domainname t) (Domainname e) \<and> str_sub (User t) (User e) \<and>
     map_sub (ExposedPorts t) (ExposedPorts e) \<and> slice_sub (Env t) (Env e) \<and> seq_sub (Cmd t) (Cmd e) \<and>
     ptr_sub (Healthcheck t) (Healthcheck e) \<and> ArgsEscaped t = ArgsEscaped e \<and> Image t = Image e \<and>
     map_sub (Volumes t) (Volumes e) \<and> WorkingDir t = WorkingDir e \<and> seq_sub (Entrypoint t) (Entrypoint e) \<and>
     str_sub (MacAddress t) (MacAddress e) \<and> map_sub (Labels t) (Labels e) \<and>
     str_sub (StopSignal t) (StopSignal e) \<and> ptr_sub (StopTimeout t) (StopTimeout e) \<and> seq_sub (Shell t) (Shell e)"

definition host_covers :: "host_config \<Rightarrow> host_config \<Rightarrow> bool" where
  "host_covers t e \<longleftrightarrow>
     slice_sub (Binds t) (Binds e) \<and> str_sub (NetworkMode t) (NetworkMode e) \<and>
     str_sub (RestartPolicyName t) (RestartPolicyName e) \<and> str_sub (VolumeDriver t) (VolumeDriver e) \<and>
     slice_sub (VolumesFrom t) (VolumesFrom e) \<and> slice_sub (CapAdd t) (CapAdd e) \<and>
     slice_sub (CapDrop t) (CapDrop e) \<and> str_sub (CgroupnsMode t) (CgroupnsMode e) \<and>
     slice_sub (DNS t) (DNS e) \<and> slice_sub (DNSOptions t) (DNSOptions e) \<and> slice_sub (DNSSearch t) (DNSSearch e) \<and>
     slice_sub (ExtraHosts t) (ExtraHosts e) \<and> slice_sub (GroupAdd t) (GroupAdd e) \<and>
     str_sub (IpcMode t) (IpcMode e) \<and> str_sub (Cgroup t) (Cgroup e) \<and> slice_sub (HostLinks t) (HostLinks e) \<and>
     str_sub (PidMode t) (PidMode e) \<and> Privileged t = Privileged e \<and> PublishAllPorts t = PublishAllPorts e \<and>
     ReadonlyRootfs t = ReadonlyRootfs e \<and> slice_sub (SecurityOpt t) (SecurityOpt e) \<and>
     map_sub (StorageOpt t) (StorageOpt e) \<and> map_sub (Tmpfs t) (Tmpfs e)"

definition endpoint_covers :: "'i endpoint_settings \<Rightarrow> 'i endpoint_settings \<Rightarrow> bool" where
  "endpoint_covers t e \<longleftrightarrow>
     ptr_sub (IPAMConfig t) (IPAMConfig e) \<and> slice_sub (Links t) (Links e) \<and> slice_sub (Aliases t) (Aliases e) \<and>
     NetworkID t = NetworkID e \<and> str_sub (Gateway t) (Gateway e) \<and> str_sub (IPAddress t) (IPAddress e) \<and>
     str_sub (IPv6Gateway t) (IPv6Gateway e) \<and> str_sub (GlobalIPv6Address t) (GlobalIPv6Address e) \<and>
     str_sub (EndpointMac t) (EndpointMac e) \<and> map_sub (DriverOpts t) (DriverOpts e)"

text \<open>Networks that the existing container is not attached to are not compared.\<close>

definition networks_cover ::
  "(string, 'i endpoint_settings option) go_map \<Rightarrow> (string, 'i endpoint_settings option) go_map \<Rightarrow> bool" where
  "networks_cover n1 n2 \<longleftrightarrow>
     (\<forall>(net, t) \<in> set n1. \<forall>e. map_of n2 net = Some e \<longrightarrow>
        t \<noteq> None \<and> e \<noteq> None \<and> endpoint_covers (the t) (the e))"

definition config_covers ::
  "'h container_config \<Rightarrow> 'h container_config \<Rightarrow> host_config \<Rightarrow> host_config \<Rightarrow>
     (string, 'i endpoint_settings option) go_map \<Rightarrow> (string, 'i endpoint_settings option) go_map \<Rightarrow> bool" where
  "config_covers c1 c2 h1 h2 n1 n2 \<longleftrightarrow> container_covers c1 c2 \<and> host_covers h1 h2 \<and> networks_cover n1 n2"

lemmas [sub_simps] = str_sub_def slice_sub_def seq_sub_def map_sub_def ptr_sub_def container_covers_def
  host_covers_def endpoint_covers_def networks_cover_def config_covers_def

lemmas check_None = str.check_None slice.check_None seqn.check_None maps.check_None ptr.check_None
lemmas sub_refl = str.sub_refl slice.sub_refl seqn.sub_refl maps.sub_refl ptr.sub_refl
lemmas sub_trans = str.sub_trans slice.sub_trans seqn.sub_trans maps.sub_trans ptr.sub_trans

context error_packages
begin

lemma equals_string: "equals p n (AString s) (AString t) = None \<longleftrightarrow> s = t"
  by (simp add: equals_def diff_string)

lemma equals_bool: "equals p n (ABool a) (ABool b) = None \<longleftrightarrow> a = b"
  by (simp add: equals_def diff_bool)

lemma container_check_None:
  "checkContainerConfigConsistency p (Some e) (Some t) = Inr None \<longleftrightarrow> container_covers t e"
  by (auto simp: checkContainerConfigConsistency_def combine_None check_None equals_string equals_bool
      container_covers_def)

lemma host_check_None: "checkHostConfigConsistency p (Some e) (Some t) = Inr None \<longleftrightarrow> host_covers t e"
  by (auto simp: checkHostConfigConsistency_def combine_None check_None equals_bool host_covers_def)

lemma endpoint_check_None: "endpoint_check p e t = None \<longleftrightarrow> endpoint_covers t e"
  by (auto simp: endpoint_check_def combine_None check_None equals_string endpoint_covers_def)

lemma endpoint_loop_None:
  "endpoint_loop p n2 n1 err = Inr None \<longleftrightarrow> err = None \<and> networks_cover n1 n2"
proof (induction n1 arbitrary: err)
  case (Cons a rest)
  obtain net t where a: "a = (net, t)" by (cases a)
  have "networks_cover (a # rest) n2 \<longleftrightarrow>
    (\<forall>e. map_of n2 net = Some e \<longrightarrow> t \<noteq> None \<and> e \<noteq> None \<and> endpoint_covers (the t) (the e)) \<and>
    networks_cover rest n2"
    by (auto simp: networks_cover_def a)
  then show ?case
    using Cons.IH by (auto simp: a append_None split: option.splits simp flip: endpoint_check_None)
qed (simp add: networks_cover_def)

lemma config_check_None:
  "checkConfigConsistency p (Some c1) (Some c2) (Some h1) (Some h2) n1 n2 = Inr None \<longleftrightarrow>
     config_covers c1 c2 h1 h2 n1 n2"
  using container_check_None [of c2 c1] host_check_None [of h2 h1] endpoint_loop_None [of n2 n1 None]
  by (auto simp: checkConfigConsistency_def checkEndpointSettingsConsistency_def config_covers_def
      split: sum.splits option.splits)

end

text \<open>Covering is a preorder: on proper configurations (maps with one binding per key) it is reflexive.\<close>

lemma container_covers_trans: "container_covers a b \<Longrightarrow> container_covers b c \<Longrightarrow> container_covers a c"
  unfolding container_covers_def by (auto intro: sub_trans)

lemma host_covers_trans: "host_covers a b \<Longrightarrow> host_covers b c \<Longrightarrow> host_covers a c"
  unfolding host_covers_def by (auto intro: sub_trans)

definition proper_config :: "'h container_config \<Rightarrow> host_config \<Rightarrow> bool" where
  "proper_config c h \<longleftrightarrow>
     distinct (map fst (ExposedPorts c)) \<and> distinct (map fst (Volumes c)) \<and> distinct (map fst (Labels c)) \<and>
     distinct (map fst (StorageOpt h)) \<and> distinct (map fst (Tmpfs h))"

lemma covers_refl: "proper_config c h \<Longrightarrow> container_covers c c \<and> host_covers h h"
  unfolding container_covers_def host_covers_def proper_config_def by (auto intro: sub_refl)

section \<open>Main properties\<close>

definition web_config :: "nat container_config" where
  "web_config =
     \<lparr>Hostname = '''', Domainname = '''', User = '''', ExposedPorts = [(''80/tcp'', ())],
      Env = [''A=1''], Cmd = [], Healthcheck = None, ArgsEscaped = False, Image = ''web'', Volumes = [],
      WorkingDir = '''', Entrypoint = [], MacAddress = '''', Labels = [], StopSignal = '''',
      StopTimeout = None, Shell = []\<rparr>"

definition web_host :: host_config where
  "web_host =
     \<lparr>Binds = [], NetworkMode = '''', RestartPolicyName = '''', VolumeDriver = '''', VolumesFrom = [],
      CapAdd = [], CapDrop = [], CgroupnsMode = '''', DNS = [], DNSOptions = [], DNSSearch = [],
      ExtraHosts = [], GroupAdd = [], IpcMode = '''', Cgroup = '''', HostLinks = [], PidMode = '''',
      Privileged = False, PublishAllPorts = False, ReadonlyRootfs = False, SecurityOpt = [],
      StorageOpt = [], Tmpfs = []\<rparr>"

text \<open>
  C12: The consistency check is exact. An existing container passes the check for a request exactly
  when it covers the request: every scalar the request sets has the same value, every list, map
  and pointer it gives is contained in the existing one, the compared flags are equal, and the
  same holds for each network both are attached to. Extra settings of the existing container do
  not matter.
\<close>

theorem config_check_exact:
  assumes "error_packages p"
  shows "checkConfigConsistency p (Some c1) (Some c2) (Some h1) (Some h2) n1 n2 = Inr None \<longleftrightarrow>
     config_covers c1 c2 h1 h2 n1 n2"
  using assms by (rule error_packages.config_check_None)

theorem config_check_exact_witness:
  "checkConfigConsistency (plain_pkgs :: (nat, nat) err_pkgs) (Some web_config)
     (Some (web_config\<lparr>Hostname := ''h'', Env := [''B=2'', ''A=1'']\<rparr>)) (Some web_host)
     (Some (web_host\<lparr>Binds := [''/a:/b'']\<rparr>)) [] [] = Inr None \<and>
   checkConfigConsistency (plain_pkgs :: (nat, nat) err_pkgs) (Some web_config)
     (Some (web_config\<lparr>Env := [''B=2'']\<rparr>)) (Some web_host) (Some web_host) [] [] \<noteq> Inr None"
  unfolding config_check_exact [OF plain.error_packages_axioms]
  by (simp add: sub_simps web_config_def web_host_def)

text \<open>
  A container passes the check for the configuration it was created from, and a configuration
  whose requests are all covered by another one is served by every container that serves the
  other: the check is reflexive and transitive on container and host settings.
\<close>

lemma config_check_preorder:
  assumes "error_packages p" and "proper_config c h"
    and "checkConfigConsistency p (Some c) (Some c2) (Some h) (Some h2) [] [] = Inr None"
    and "checkConfigConsistency p (Some c2) (Some c3) (Some h2) (Some h3) [] [] = Inr None"
  shows "checkConfigConsistency p (Some c) (Some c) (Some h) (Some h) [] [] = Inr None \<and>
         checkConfigConsistency p (Some c) (Some c3) (Some h) (Some h3) [] [] = Inr None"
proof -
  note covers = error_packages.config_check_None [OF assms(1)] config_covers_def
  have c: "container_covers c c2" "container_covers c2 c3" and h: "host_covers h h2" "host_covers h2 h3"
    using assms(3,4) by (simp_all only: covers)
  have n: "networks_cover [] []" by (simp add: networks_cover_def)
  show ?thesis
    using covers_refl [OF assms(2)] container_covers_trans [OF c] host_covers_trans [OF h] n
    by (simp only: covers)
qed

end
