(* ===== verification/Wait_Loop.thy ===== *)
theory Wait_Loop
  imports Confort_Prelude
begin

text \<open>
  wait/wait.go: repeated readiness checks of a container until the first success, an error, or the end
  of the context. The fetcher and the runtime's timers are parameters over a world \<open>'w\<close>; the locale
  \<open>wait_runtime\<close> states what the loop relies on: time does not go back, and a timer that fires in the
  select fires after the interval and only while the context was not done before.
\<close>

section \<open>Waiters\<close>

text \<open>Durations are nanoseconds.\<close>

datatype wait_option = WithInterval int | WithTimeout int

definition defaultInterval :: int where
  "defaultInterval = 500 * 1000000"

definition defaultTimeout :: int where
  "defaultTimeout = 30 * 1000000000"

type_synonym 'w check_func = "'w \<Rightarrow> (go_error + bool) \<times> 'w"

record 'w waiter =
  wt_interval :: int
  wt_timeout :: int
  wt_check :: "'w check_func"

fun apply_wait_option :: "wait_option \<Rightarrow> 'w waiter \<Rightarrow> 'w waiter" where
  "apply_wait_option (WithInterval d) w = w\<lparr>wt_interval := d\<rparr>"
| "apply_wait_option (WithTimeout d) w = w\<lparr>wt_timeout := d\<rparr>"

definition NewWaiter :: "'w check_func \<Rightarrow> wait_option list \<Rightarrow> 'w waiter" where
  "NewWaiter check opts =
     fold apply_wait_option opts \<lparr>wt_interval = defaultInterval, wt_timeout = defaultTimeout, wt_check = check\<rparr>"

section \<open>Checks\<close>

text \<open>
  \<open>utf8.RuneCount\<close> on bytes: the length of the rune at the front, which is 1 for an invalid or short
  encoding. A missing byte is read as 0, which never continues a rune.
\<close>

definition cont_byte :: "nat \<Rightarrow> nat \<Rightarrow> nat \<Rightarrow> bool" where
  "cont_byte lo hi b \<longleftrightarrow> lo \<le> b \<and> b \<le> hi"

definition rune_size :: "nat list \<Rightarrow> nat" where
  "rune_size bs =
     (let b = (\<lambda>i. if i < length bs then bs ! i else 0); b0 = b 0; b1 = b 1; b2 = b 2; b3 = b 3 in
      if 0xC2 \<le> b0 \<and> b0 \<le> 0xDF \<and> cont_byte 0x80 0xBF b1 then 2
      else if b0 = 0xE0 \<and> cont_byte 0xA0 0xBF b1 \<and> cont_byte 0x80 0xBF b2 then 3
      else if b0 = 0xED \<and> cont_byte 0x80 0x9F b1 \<and> cont_byte 0x80 0xBF b2 then 3
      else if 0xE1 \<le> b0 \<and> b0 \<le> 0xEF \<and> b0 \<noteq> 0xED \<and> cont_byte 0x80 0xBF b1 \<and> cont_byte 0x80 0xBF b2 then 3
      else if b0 = 0xF0 \<and> cont_byte 0x90 0xBF b1 \<and> cont_byte 0x80 0xBF b2 \<and> cont_byte 0x80 0xBF b3 then 4
      else if b0 = 0xF4 \<and> cont_byte 0x80 0x8F b1 \<and> cont_byte 0x80 0xBF b2 \<and> cont_byte 0x80 0xBF b3 then 4
      else if 0xF1 \<le> b0 \<and> b0 \<le> 0xF3 \<and> cont_byte 0x80 0xBF b1 \<and> cont_byte 0x80 0xBF b2 \<and> cont_byte 0x80 0xBF b3 then 4
      else 1)"

lemma rune_size_pos: "0 < rune_size bs"
  by (simp add: rune_size_def Let_def)

function rune_count :: "nat list \<Rightarrow> nat" where
  "rune_count [] = 0"
| "rune_count (b # bs) = Suc (rune_count (drop (rune_size (b # bs)) (b # bs)))"
  by pat_completeness auto

termination rune_count
proof (relation "measure length")
  fix b bs
  show "(drop (rune_size (b # bs)) (b # bs), b # bs) \<in> measure length"
    using rune_size_pos [of "b # bs"] by simp
qed simp

text \<open>\<open>bytes.Count\<close>: occurrences that do not overlap; for an empty separator one more than the runes.\<close>

function count_occurrences :: "'a list \<Rightarrow> 'a list \<Rightarrow> nat" where
  "count_occurrences [] data = 0"
| "count_occurrences (m # ms) [] = 0"
| "count_occurrences (m # ms) (d # ds) =
     (if take (length (m # ms)) (d # ds) = m # ms
      then Suc (count_occurrences (m # ms) (drop (length (m # ms)) (d # ds)))
      else count_occurrences (m # ms) ds)"
  by pat_completeness auto

termination count_occurrences
  by (relation "measure (length \<circ> snd)") (auto simp: less_Suc_eq_le)

definition bytes_Count :: "nat list \<Rightarrow> nat list \<Rightarrow> nat" where
  "bytes_Count data sep = (if sep = [] then rune_count data + 1 else count_occurrences sep data)"

text \<open>Ports of a container with their bindings on the host (\<open>nat.PortMap\<close>).\<close>

record port_binding =
  pb_HostIP :: string
  pb_HostPort :: string

type_synonym port_map = "(string, port_binding list) go_map"

text \<open>
  The fetcher of a container: its identifier and ports, its log (an error, or a reader whose content or read error comes with
  it), its health status (\<open>None\<close>: the container has no health check) and the execution of a command.
\<close>

record 'w fetcher =
  ft_ContainerID :: string
  ft_Ports :: port_map
  ft_Log :: "'w \<Rightarrow> (go_error + (go_error + nat list)) \<times> 'w"
  ft_Status :: "'w \<Rightarrow> (go_error + string option) \<times> 'w"
  ft_Exec :: "string list \<Rightarrow> 'w \<Rightarrow> (go_error + nat list) \<times> 'w"

definition CheckLogOccurrence :: "'w fetcher \<Rightarrow> nat list \<Rightarrow> int \<Rightarrow> 'w check_func" where
  "CheckLogOccurrence f message occurrence w =
     (case ft_Log f w of
        (Inl err, w') \<Rightarrow> (Inl err, w')
      | (Inr (Inl err), w') \<Rightarrow> (Inl err, w')
      | (Inr (Inr data), w') \<Rightarrow> (Inr (occurrence \<le> int (bytes_Count data message)), w'))"

definition CheckHealthy :: "'w fetcher \<Rightarrow> 'w check_func" where
  "CheckHealthy f w =
     (case ft_Status f w of
        (Inl err, w') \<Rightarrow> (Inl err, w')
      | (Inr health, w') \<Rightarrow> (Inr (health = Some ''healthy''), w'))"

text \<open>A command that fails is not ready yet; its error is not reported.\<close>

definition CheckCommandSucceeds :: "'w fetcher \<Rightarrow> string list \<Rightarrow> 'w check_func" where
  "CheckCommandSucceeds f cmd w =
     (case ft_Exec f cmd w of (r, w') \<Rightarrow> (Inr (case r of Inl _ \<Rightarrow> False | Inr _ \<Rightarrow> True), w'))"

definition LogContains :: "'w fetcher \<Rightarrow> nat list \<Rightarrow> int \<Rightarrow> wait_option list \<Rightarrow> 'w waiter" where
  "LogContains f message occurrence opts = NewWaiter (CheckLogOccurrence f message occurrence) opts"

definition Healthy :: "'w fetcher \<Rightarrow> wait_option list \<Rightarrow> 'w waiter" where
  "Healthy f opts = NewWaiter (CheckHealthy f) opts"

definition CommandSucceeds :: "'w fetcher \<Rightarrow> string list \<Rightarrow> wait_option list \<Rightarrow> 'w waiter" where
  "CommandSucceeds f cmd opts = NewWaiter (CheckCommandSucceeds f cmd) opts"

section \<open>The loop\<close>

text \<open>
  \<open>sel interval deadline\<close> is the select: \<open>Some err\<close> when the context is done, \<open>None\<close> when the timer fired.
  The loop has fuel, one unit per check; \<open>None\<close> means that it has not returned.
\<close>

fun wait_loop ::
  "'w check_func \<Rightarrow> ('w \<Rightarrow> go_error option \<times> 'w) \<Rightarrow> nat \<Rightarrow> 'w \<Rightarrow> (go_error option \<times> 'w) option" where
  "wait_loop check sel 0 w = None"
| "wait_loop check sel (Suc fuel) w =
     (case check w of
        (Inl err, w') \<Rightarrow> Some (Some err, w')
      | (Inr True, w') \<Rightarrow> Some (None, w')
      | (Inr False, w') \<Rightarrow>
          (case sel w' of
             (Some err, w'') \<Rightarrow> Some (Some err, w'')
           | (None, w'') \<Rightarrow> wait_loop check sel fuel w''))"

text \<open>\<open>Wait\<close> with a context whose deadline, if any, is \<open>parent\<close>: the loop runs under the earlier deadline.\<close>

definition Wait ::
  "('w \<Rightarrow> int) \<Rightarrow> (int \<Rightarrow> int \<Rightarrow> 'w \<Rightarrow> go_error option \<times> 'w) \<Rightarrow> 'w waiter \<Rightarrow> int option \<Rightarrow> nat \<Rightarrow> 'w \<Rightarrow>
     (go_error option \<times> 'w) option" where
  "Wait now sel wt parent fuel w =
     (let own = now w + wt_timeout wt;
          deadline = (case parent of None \<Rightarrow> own | Some d \<Rightarrow> min d own)
      in wait_loop (wt_check wt) (sel (wt_interval wt) deadline) fuel w)"

section \<open>The loop ends\<close>

lemma wait_loop_mono: "wait_loop check sel n w = Some r \<Longrightarrow> n \<le> m \<Longrightarrow> wait_loop check sel m w = Some r"
proof (induction n arbitrary: w m)
  case (Suc n)
  then obtain m' where m: "m = Suc m'" and le: "n \<le> m'" by (cases m) auto
  obtain c w1 where c: "check w = (c, w1)" by (cases "check w")
  obtain e w2 where e: "sel w1 = (e, w2)" by (cases "sel w1")
  have ih: "wait_loop check sel n w2 = Some r \<Longrightarrow> wait_loop check sel m' w2 = Some r" using Suc.IH le by blast
  show ?case
    using Suc.prems(1) ih by (auto simp: m c e split: sum.splits bool.splits option.splits)
qed simp

lemma mult_div_le_next:
  assumes "0 < (d :: int)"
  shows "n \<le> (n div d + 1) * d"
proof -
  have "n mod d < d" using assms by simp
  moreover have "n = n div d * d + n mod d" by simp
  ultimately have "n \<le> n div d * d + d" by linarith
  then show ?thesis by (simp add: distrib_right)
qed

locale wait_runtime =
  fixes now :: "'w \<Rightarrow> int" and check :: "'w check_func" and sel :: "int \<Rightarrow> int \<Rightarrow> 'w \<Rightarrow> go_error option \<times> 'w"
  assumes check_time: "now w \<le> now (snd (check w))"
    and tick_time: "sel iv dl w = (None, w') \<Longrightarrow> 0 < iv \<Longrightarrow> now w < dl \<and> now w + iv \<le> now w'"
begin

text \<open>A pass that does not return takes at least the interval, and happens only before the deadline.\<close>

lemma wait_loop_ends:
  assumes iv: "0 < iv" and left: "dl - now w \<le> int n * iv"
  shows "\<exists>r. wait_loop check (sel iv dl) (Suc n) w = Some r"
  using left
proof (induction n arbitrary: w)
  case 0
  obtain c w' where c: "check w = (c, w')" by (cases "check w")
  obtain e w'' where e: "sel iv dl w' = (e, w'')" by (cases "sel iv dl w'")
  have "e \<noteq> None" using 0 check_time [of w] tick_time [of iv dl w' w''] c e iv by auto
  then show ?case using c e by (auto split: sum.splits bool.splits)
next
  case (Suc n)
  obtain c w' where c: "check w = (c, w')" by (cases "check w")
  obtain e w'' where e: "sel iv dl w' = (e, w'')" by (cases "sel iv dl w'")
  have "\<exists>r. wait_loop check (sel iv dl) (Suc n) w'' = Some r" if "e = None"
  proof (rule Suc.IH)
    have "now w + iv \<le> now w''"
      using that check_time [of w] tick_time [of iv dl w' w''] c e iv by auto
    then show "dl - now w'' \<le> int n * iv" using Suc.prems by (simp add: algebra_simps)
  qed
  then show ?case using c e by (cases e) (auto split: sum.splits bool.splits simp del: wait_loop.simps(2) simp: wait_loop.simps(2) [of _ _ "Suc n"])
qed

lemma Wait_ends:
  assumes iv: "0 < wt_interval wt" and to: "0 \<le> wt_timeout wt" and ck: "wt_check wt = check"
    and fuel: "nat (wt_timeout wt div wt_interval wt) + 2 \<le> fuel"
  shows "\<exists>r. Wait now sel wt parent fuel w = Some r"
proof -
  let ?iv = "wt_interval wt" and ?own = "now w + wt_timeout wt"
  let ?dl = "case parent of None \<Rightarrow> ?own | Some d \<Rightarrow> min d ?own"
  let ?n = "Suc (nat (wt_timeout wt div ?iv))"
  have "?dl \<le> ?own" by (auto split: option.splits)
  moreover have "wt_timeout wt \<le> int ?n * ?iv"
    using iv to mult_div_le_next [of ?iv "wt_timeout wt"] by (simp add: pos_imp_zdiv_nonneg_iff add.commute)
  ultimately have "?dl - now w \<le> int ?n * ?iv" by simp
  from wait_loop_ends [OF iv this] obtain r where "wait_loop check (sel ?iv ?dl) (Suc ?n) w = Some r" by blast
  then have "wait_loop check (sel ?iv ?dl) fuel w = Some r" by (rule wait_loop_mono) (use fuel in simp)
  then show ?thesis by (simp add: Wait_def Let_def ck)
qed

end

text \<open>A clock that counts the nanoseconds, with a check that succeeds from a given time on.\<close>

definition clock_check :: "int \<Rightarrow> int check_func" where
  "clock_check ready w = (Inr (ready \<le> w), w)"

definition clock_select :: "int \<Rightarrow> int \<Rightarrow> int \<Rightarrow> go_error option \<times> int" where
  "clock_select iv dl w =
     (if w + iv < dl then (None, w + iv) else (Some (ErrorString ''context deadline exceeded''), max w dl))"

interpretation clock: wait_runtime id "clock_check ready" clock_select for ready
  by unfold_locales (auto simp: clock_check_def clock_select_def split: if_splits)

section \<open>Main properties\<close>

text \<open>
  C36: Waiting ends. With a positive interval, \<open>Wait\<close> returns after at most \<open>timeout / interval + 2\<close> checks:
  successfully, with the error of a check, or with the error of the context.
\<close>

theorem Wait_returns:
  assumes "wait_runtime now (wt_check wt) sel" and "0 < wt_interval wt" and "0 \<le> wt_timeout wt"
  shows "\<exists>r. Wait now sel wt parent (nat (wt_timeout wt div wt_interval wt) + 2) w = Some r"
  using wait_runtime.Wait_ends [OF assms(1-3)] by simp

theorem Wait_returns_witness:
  "\<exists>r. Wait id clock_select (NewWaiter (clock_check (2 * defaultInterval)) []) None 62 0 = Some r"
proof -
  let ?wt = "NewWaiter (clock_check (2 * defaultInterval)) []"
  have "wait_runtime id (wt_check ?wt) clock_select"
    using clock.wait_runtime_axioms by (simp add: NewWaiter_def)
  from Wait_returns [OF this, of None 0] show ?thesis
    by (simp add: NewWaiter_def defaultInterval_def defaultTimeout_def)
qed

end
