(* ===== verification/Container_Exec.thy ===== *)
theory Container_Exec
  imports Confort_Prelude
begin

text \<open>
  exec.go: running a command in a container. The docker client and \<open>stdcopy\<close> are parameters (record
  \<open>exec_client\<close>): attaching gives the demultiplexed output of the command as a list of chunks, each for
  stdout or stderr, and the error that ended the copy, if any. Writers are buffers in a store, so that
  \<open>CombinedOutput\<close>, which uses one buffer for both streams, shares it.
\<close>

section \<open>State\<close>

datatype exec_error = ExecError string | ClientError string | ExitError int

record exec_config =
  ec_Cmd :: "string list"
  ec_WorkingDir :: string
  ec_Env :: "string list"
  ec_AttachStdout :: bool
  ec_AttachStderr :: bool

text \<open>The calls of the docker client on its state \<open>'d\<close>. A chunk is \<open>(is_stderr, bytes)\<close>.\<close>

record 'd exec_client =
  cl_Inspect :: "string \<Rightarrow> 'd \<Rightarrow> exec_error option"
  cl_ExecCreate :: "string \<Rightarrow> exec_config \<Rightarrow> 'd \<Rightarrow> (exec_error + string) \<times> 'd"
  cl_ExecAttach :: "string \<Rightarrow> 'd \<Rightarrow> (exec_error + ((bool \<times> string) list \<times> exec_error option)) \<times> 'd"
  cl_ExecInspect :: "string \<Rightarrow> 'd \<Rightarrow> exec_error + int"

record container_exec =
  ex_container :: string
  ex_cmd :: "string list"
  ex_workingDir :: string
  ex_env :: "string list"
  ex_execID :: string
  ex_Stdout :: "nat option"
  ex_Stderr :: "nat option"

text \<open>The client's state, the buffers by their address, and the next free address.\<close>

record 'd exec_world =
  xw_docker :: 'd
  xw_bufs :: "nat \<Rightarrow> string"
  xw_next :: nat

section \<open>Operations\<close>

datatype exec_option = WithExecWorkingDir string | ExecEnv "string list"

definition WithExecEnv :: "(string, string) go_map \<Rightarrow> exec_option" where
  "WithExecEnv kv = ExecEnv (map (\<lambda>(k, v). k @ ''='' @ v) kv)"

fun apply_exec_options :: "exec_option list \<Rightarrow> string \<times> string list \<Rightarrow> string \<times> string list" where
  "apply_exec_options [] acc = acc"
| "apply_exec_options (WithExecWorkingDir d # opts) (wd, env) = apply_exec_options opts (d, env)"
| "apply_exec_options (ExecEnv e # opts) (wd, env) = apply_exec_options opts (wd, e)"

definition CreateExec ::
  "'d exec_client \<Rightarrow> string \<Rightarrow> string list \<Rightarrow> exec_option list \<Rightarrow> 'd exec_world \<Rightarrow> exec_error + container_exec" where
  "CreateExec cli cid cmd opts w =
     (let (workingDir, execEnv) = apply_exec_options opts ('''', []) in
      case cl_Inspect cli cid (xw_docker w) of
        Some err \<Rightarrow> Inl err
      | None \<Rightarrow>
          Inr \<lparr>ex_container = cid, ex_cmd = cmd, ex_workingDir = workingDir, ex_env = execEnv,
               ex_execID = '''', ex_Stdout = None, ex_Stderr = None\<rparr>)"

definition exec_config_of :: "container_exec \<Rightarrow> exec_config" where
  "exec_config_of e =
     (let out = (ex_Stdout e \<noteq> None); err = (ex_Stderr e \<noteq> None) in
      \<lparr>ec_Cmd = ex_cmd e, ec_WorkingDir = ex_workingDir e, ec_Env = ex_env e,
       ec_AttachStdout = (if \<not> out \<and> \<not> err then True else out), ec_AttachStderr = err\<rparr>)"

definition Start_exec ::
  "'d exec_client \<Rightarrow> container_exec \<Rightarrow> 'd exec_world \<Rightarrow> exec_error option \<times> container_exec \<times> 'd exec_world" where
  "Start_exec cli e w =
     (if ex_execID e \<noteq> '''' then (Some (ExecError ''confort: exec: already started''), e, w)
      else
        (case cl_ExecCreate cli (ex_container e) (exec_config_of e) (xw_docker w) of
           (Inl err, d) \<Rightarrow> (Some err, e, w\<lparr>xw_docker := d\<rparr>)
         | (Inr eid, d) \<Rightarrow> (None, e\<lparr>ex_execID := eid\<rparr>, w\<lparr>xw_docker := d\<rparr>)))"

text \<open>\<open>StdCopy\<close> writes each chunk to the writer of its stream; a nil writer is \<open>io.Discard\<close>.\<close>

fun std_copy :: "nat option \<Rightarrow> nat option \<Rightarrow> (bool \<times> 'b list) list \<Rightarrow> (nat \<Rightarrow> 'b list) \<Rightarrow> (nat \<Rightarrow> 'b list)" where
  "std_copy out err [] bufs = bufs"
| "std_copy out err ((is_err, bytes) # chunks) bufs =
     (case (if is_err then err else out) of
        None \<Rightarrow> std_copy out err chunks bufs
      | Some b \<Rightarrow> std_copy out err chunks (bufs(b := bufs b @ bytes)))"

definition Wait_exec ::
  "'d exec_client \<Rightarrow> container_exec \<Rightarrow> 'd exec_world \<Rightarrow> exec_error option \<times> 'd exec_world" where
  "Wait_exec cli e w =
     (if ex_execID e = '''' then (Some (ExecError ''confort: exec: not started''), w)
      else
        (case cl_ExecAttach cli (ex_execID e) (xw_docker w) of
           (Inl err, d) \<Rightarrow> (Some err, w\<lparr>xw_docker := d\<rparr>)
         | (Inr (chunks, copy_err), d) \<Rightarrow>
             (let w' = w\<lparr>xw_docker := d, xw_bufs := std_copy (ex_Stdout e) (ex_Stderr e) chunks (xw_bufs w)\<rparr> in
              case copy_err of
                Some err \<Rightarrow> (Some err, w')
              | None \<Rightarrow>
                  (case cl_ExecInspect cli (ex_execID e) (xw_docker w') of
                     Inl err \<Rightarrow> (Some err, w')
                   | Inr code \<Rightarrow> (if code \<noteq> 0 then Some (ExitError code) else None, w')))))"

definition Run_exec ::
  "'d exec_client \<Rightarrow> container_exec \<Rightarrow> 'd exec_world \<Rightarrow> exec_error option \<times> container_exec \<times> 'd exec_world" where
  "Run_exec cli e w =
     (case Start_exec cli e w of
        (Some err, e', w') \<Rightarrow> (Some err, e', w')
      | (None, e', w') \<Rightarrow> (case Wait_exec cli e' w' of (r, w'') \<Rightarrow> (r, e', w'')))"

definition new_buffer :: "'d exec_world \<Rightarrow> nat \<times> 'd exec_world" where
  "new_buffer w = (xw_next w, w\<lparr>xw_next := Suc (xw_next w), xw_bufs := (xw_bufs w)(xw_next w := '''')\<rparr>)"

definition Output ::
  "'d exec_client \<Rightarrow> container_exec \<Rightarrow> 'd exec_world \<Rightarrow> (string \<times> exec_error option) \<times> container_exec \<times> 'd exec_world" where
  "Output cli e w =
     (if ex_Stdout e \<noteq> None then (('''', Some (ExecError ''confort: exec: Stdout already set'')), e, w)
      else
        (let (b, w1) = new_buffer w in
         case Run_exec cli (e\<lparr>ex_Stdout := Some b\<rparr>) w1 of
           (err, e', w') \<Rightarrow> ((xw_bufs w' b, err), e', w')))"

definition CombinedOutput ::
  "'d exec_client \<Rightarrow> container_exec \<Rightarrow> 'd exec_world \<Rightarrow> (string \<times> exec_error option) \<times> container_exec \<times> 'd exec_world" where
  "CombinedOutput cli e w =
     (if ex_Stdout e \<noteq> None then (('''', Some (ExecError ''confort: exec: Stdout already set'')), e, w)
      else if ex_Stderr e \<noteq> None then (('''', Some (ExecError ''confort: exec: Stderr already set'')), e, w)
      else
        (let (b, w1) = new_buffer w in
         case Run_exec cli (e\<lparr>ex_Stdout := Some b, ex_Stderr := Some b\<rparr>) w1 of
           (err, e', w') \<Rightarrow> ((xw_bufs w' b, err), e', w')))"

section \<open>What the writers receive\<close>

text \<open>The bytes of the chunks that satisfy a condition on their stream, in order.\<close>

definition bytes_of :: "(bool \<Rightarrow> bool) \<Rightarrow> (bool \<times> 'b list) list \<Rightarrow> 'b list" where
  "bytes_of P chunks = concat (map snd (filter (\<lambda>c. P (fst c)) chunks))"

lemma std_copy_buffer:
  "std_copy out err chunks bufs b =
     bufs b @ bytes_of (\<lambda>is_err. (if is_err then err else out) = Some b) chunks"
proof (induction chunks arbitrary: bufs)
  case (Cons c chunks)
  obtain is_err bytes where c: "c = (is_err, bytes)" by (cases c)
  show ?case
    unfolding c by (cases "if is_err then err else out") (auto simp: Cons.IH bytes_of_def)
qed (simp add: bytes_of_def)

text \<open>A client whose calls succeed: the command writes the chunks and ends with the exit code.\<close>

definition runs_as :: "'d exec_client \<Rightarrow> container_exec \<Rightarrow> exec_config \<Rightarrow> 'd \<Rightarrow> (bool \<times> string) list \<Rightarrow> int \<Rightarrow> bool" where
  "runs_as cli e cfg d chunks code \<longleftrightarrow>
     (\<exists>eid d1 d2. eid \<noteq> '''' \<and> cl_ExecCreate cli (ex_container e) cfg d = (Inr eid, d1) \<and>
        cl_ExecAttach cli eid d1 = (Inr (chunks, None), d2) \<and> cl_ExecInspect cli eid d2 = Inr code)"

lemma Run_runs:
  assumes "runs_as cli e (exec_config_of e) (xw_docker w) chunks code" and "ex_execID e = ''''"
  shows "\<exists>e' w'. Run_exec cli e w = (if code = 0 then None else Some (ExitError code), e', w') \<and>
    xw_bufs w' = std_copy (ex_Stdout e) (ex_Stderr e) chunks (xw_bufs w)"
  using assms by (auto simp: runs_as_def Run_exec_def Start_exec_def Wait_exec_def Let_def)

lemma Output_Run:
  assumes "ex_Stdout e = None"
    and "Run_exec cli (e\<lparr>ex_Stdout := Some (xw_next w)\<rparr>) (snd (new_buffer w)) = (err, f, w')"
  shows "fst (Output cli e w) = (xw_bufs w' (xw_next w), err)"
  using assms by (simp add: Output_def new_buffer_def)

lemma CombinedOutput_Run:
  assumes "ex_Stdout e = None" and "ex_Stderr e = None"
    and "Run_exec cli (e\<lparr>ex_Stdout := Some (xw_next w), ex_Stderr := Some (xw_next w)\<rparr>) (snd (new_buffer w)) = (err, f, w')"
  shows "fst (CombinedOutput cli e w) = (xw_bufs w' (xw_next w), err)"
  using assms by (simp add: CombinedOutput_def new_buffer_def)

section \<open>Main properties\<close>

text \<open>
  C37: The output of a command. On a fresh exec, \<open>Output\<close> attaches stdout, returns exactly what the
  command wrote to stdout, and the error is nil for exit code zero and the \<open>ExitError\<close> of the code
  otherwise; \<open>CombinedOutput\<close> returns everything the command wrote, in the order of the stream.
\<close>

theorem exec_output_exact:
  assumes "ex_execID e = ''''" and "ex_Stdout e = None" and "ex_Stderr e = None"
    and "runs_as cli e \<lparr>ec_Cmd = ex_cmd e, ec_WorkingDir = ex_workingDir e, ec_Env = ex_env e,
           ec_AttachStdout = True, ec_AttachStderr = False\<rparr> (xw_docker w) chunks code"
    and "runs_as cli e \<lparr>ec_Cmd = ex_cmd e, ec_WorkingDir = ex_workingDir e, ec_Env = ex_env e,
           ec_AttachStdout = True, ec_AttachStderr = True\<rparr> (xw_docker w) chunks' code'"
  shows "fst (Output cli e w) = (bytes_of Not chunks, if code = 0 then None else Some (ExitError code)) \<and>
    fst (CombinedOutput cli e w) = (bytes_of (\<lambda>_. True) chunks', if code' = 0 then None else Some (ExitError code'))"
proof
  let ?b = "xw_next w" and ?w = "snd (new_buffer w)"
  have w: "xw_docker ?w = xw_docker w" "xw_bufs ?w ?b = ''''" by (simp_all add: new_buffer_def)
  let ?e1 = "e\<lparr>ex_Stdout := Some ?b\<rparr>"
  obtain f w' where r: "Run_exec cli ?e1 ?w = (if code = 0 then None else Some (ExitError code), f, w')"
    "xw_bufs w' = std_copy (Some ?b) None chunks (xw_bufs ?w)"
    using Run_runs [of cli ?e1 ?w chunks code] assms(1-4) w(1)
    by (auto simp: runs_as_def exec_config_of_def Let_def)
  have "(\<lambda>is_err. (if is_err then None else Some ?b) = Some ?b) = Not" by auto
  then show "fst (Output cli e w) = (bytes_of Not chunks, if code = 0 then None else Some (ExitError code))"
    unfolding Output_Run [OF assms(2) r(1)] by (simp add: r(2) w(2) std_copy_buffer)
  let ?e2 = "e\<lparr>ex_Stdout := Some ?b, ex_Stderr := Some ?b\<rparr>"
  obtain f w' where r: "Run_exec cli ?e2 ?w = (if code' = 0 then None else Some (ExitError code'), f, w')"
    "xw_bufs w' = std_copy (Some ?b) (Some ?b) chunks' (xw_bufs ?w)"
    using Run_runs [of cli ?e2 ?w chunks' code'] assms(1-3,5) w(1)
    by (auto simp: runs_as_def exec_config_of_def Let_def)
  show "fst (CombinedOutput cli e w) =
      (bytes_of (\<lambda>_. True) chunks', if code' = 0 then None else Some (ExitError code'))"
    unfolding CombinedOutput_Run [OF assms(2,3) r(1)] by (simp add: r(2) w(2) std_copy_buffer)
qed

text \<open>A client with one command that writes to both streams and fails.\<close>

definition shell_client :: "nat exec_client" where
  "shell_client =
     \<lparr>cl_Inspect = (\<lambda>_ _. None), cl_ExecCreate = (\<lambda>_ _ d. (Inr ''exec1'', Suc d)),
      cl_ExecAttach = (\<lambda>_ d. (Inr ([(False, ''a''), (True, ''b''), (False, ''c'')], None), d)),
      cl_ExecInspect = (\<lambda>_ _. Inr 2)\<rparr>"

definition shell_exec :: container_exec where
  "shell_exec =
     \<lparr>ex_container = ''c'', ex_cmd = [''sh''], ex_workingDir = '''', ex_env = [], ex_execID = '''',
      ex_Stdout = None, ex_Stderr = None\<rparr>"

theorem exec_output_exact_witness:
  "fst (Output shell_client shell_exec \<lparr>xw_docker = 0, xw_bufs = (\<lambda>_. ''''), xw_next = 0\<rparr>) =
     (''ac'', Some (ExitError 2)) \<and>
   fst (CombinedOutput shell_client shell_exec \<lparr>xw_docker = 0, xw_bufs = (\<lambda>_. ''''), xw_next = 0\<rparr>) =
     (''abc'', Some (ExitError 2))"
proof -
  let ?c = "[(False, ''a''), (True, ''b''), (False, ''c'')]"
  have "runs_as shell_client shell_exec cfg 0 ?c 2" for cfg
    by (simp add: runs_as_def shell_client_def)
  from exec_output_exact [of shell_exec shell_client
      "\<lparr>xw_docker = 0, xw_bufs = (\<lambda>_. ''''), xw_next = 0\<rparr>" ?c 2 ?c 2] this
  show ?thesis by (simp add: shell_exec_def bytes_of_def)
qed

text \<open>
  An exec runs at most once. After a \<open>Start\<close> that got an identifier, every further \<open>Start\<close>, and with
  it \<open>Run\<close>, is refused without any call of the docker client; \<open>Wait\<close> before \<open>Start\<close> is refused as well.
\<close>

lemma exec_started_once:
  assumes "Start_exec cli e w = (None, e', w')" and "ex_execID e' \<noteq> ''''"
  shows "Start_exec cli e' v = (Some (ExecError ''confort: exec: already started''), e', v) \<and>
    Run_exec cli e' v = (Some (ExecError ''confort: exec: already started''), e', v) \<and>
    Wait_exec cli e v = (Some (ExecError ''confort: exec: not started''), v)"
  using assms by (auto simp: Start_exec_def Run_exec_def Wait_exec_def split: if_splits prod.splits sum.splits)

end
