(* ===== verification/Docker_Backend.thy ===== *)
theory Docker_Backend
  imports Beacon_Env Config_Consistency Wait_Loop Container_Exec "HOL-Library.AList" "HOL-Library.Sublist"
begin

text \<open>
  backend.go: the docker backend, its namespaces (one docker network each) and their containers. The docker
  client is a parameter over its own state \<open>'d\<close> (record \<open>docker_client\<close>). Around it, the model keeps a log of the
  calls that change docker resources, in the order in which they are issued; the log is what the properties of
  the resource policies speak about. Closures that \<open>Release\<close> runs are values of the datatype \<open>terminator\<close>.

  Values of third-party types that the code only passes on (build contexts, mounts, credentials, pull options)
  have the type \<open>'x\<close>. A pointer that the code dereferences is an \<open>option\<close>; nil is a panic.
\<close>

section \<open>Docker client\<close>

record network_resource =
  nr_ID :: string
  nr_Name :: string
  nr_Gateways :: "string list"

record network_create =
  nc_Driver :: string
  nc_CheckDuplicate :: bool
  nc_Labels :: "(string, string) go_map"

record 'x docker_host = host_config +
  hc_PortBindings :: port_map
  hc_AutoRemove :: bool
  hc_Mounts :: "'x list"

record 'x build_options =
  bo_Tags :: "string list"
  bo_SuppressOutput :: bool
  bo_Remove :: bool
  bo_PullParent :: bool
  bo_Dockerfile :: string
  bo_BuildArgs :: "(string, string option) go_map"
  bo_AuthConfigs :: "(string, 'x) go_map"
  bo_Platform :: string

type_synonym 'i networks = "(string, 'i endpoint_settings option) go_map"

text \<open>A container in a list: the identifiers of its networks, behind two pointers.\<close>

record container_summary =
  cs_ID :: string
  cs_Names :: "string list"
  cs_Image :: string
  cs_State :: string
  cs_NetworkIDs :: "string option list option"

record ('h, 'i) container_json =
  cj_Config :: "'h container_config option"
  cj_HostConfig :: "host_config option"
  cj_NetworkSettings :: "('i networks \<times> port_map) option"
  cj_Health :: "string option"

datatype list_filter = NoFilter | NameFilter string | LabelFilter string

text \<open>
  A stream of JSON messages: what \<open>Decode\<close> gives until the end of the stream, each message by what \<open>Display\<close>
  writes and its error, and the error of closing the stream.
\<close>

type_synonym message_stream = "(go_error + (string \<times> go_error option)) list \<times> go_error option"

record ('d, 'h, 'i, 'x) docker_client =
  dc_DaemonHost :: string
  dc_NetworkList :: "list_filter \<Rightarrow> 'd \<Rightarrow> (go_error + network_resource list) \<times> 'd"
  dc_NetworkCreate :: "string \<Rightarrow> network_create \<Rightarrow> 'd \<Rightarrow> (go_error + string) \<times> 'd"
  dc_NetworkInspect :: "string \<Rightarrow> 'd \<Rightarrow> (go_error + network_resource) \<times> 'd"
  dc_NetworkRemove :: "string \<Rightarrow> 'd \<Rightarrow> go_error option \<times> 'd"
  dc_NetworkConnect :: "string \<Rightarrow> string \<Rightarrow> string \<times> string list \<Rightarrow> 'd \<Rightarrow> go_error option \<times> 'd"
  dc_NetworkDisconnect :: "string \<Rightarrow> string \<Rightarrow> bool \<Rightarrow> 'd \<Rightarrow> go_error option \<times> 'd"
  dc_ImageList :: "'d \<Rightarrow> (go_error + string list list) \<times> 'd"
  dc_ImageBuild :: "'x \<Rightarrow> 'x build_options \<Rightarrow> 'd \<Rightarrow> (go_error + message_stream) \<times> 'd"
  dc_ImagePull :: "string \<Rightarrow> 'x \<Rightarrow> 'd \<Rightarrow> (go_error + message_stream) \<times> 'd"
  dc_ContainerList :: "list_filter \<Rightarrow> 'd \<Rightarrow> (go_error + container_summary list) \<times> 'd"
  dc_ContainerInspect :: "string \<Rightarrow> 'd \<Rightarrow> (go_error + ('h, 'i) container_json) \<times> 'd"
  dc_ContainerCreate ::
    "'h container_config \<Rightarrow> 'x docker_host \<Rightarrow> 'i networks \<Rightarrow> string \<Rightarrow> 'd \<Rightarrow> (go_error + string) \<times> 'd"
  dc_ContainerStart :: "string \<Rightarrow> 'd \<Rightarrow> go_error option \<times> 'd"
  dc_ContainerRemove :: "string \<Rightarrow> 'd \<Rightarrow> go_error option \<times> 'd"
  dc_ContainerLogs :: "string \<Rightarrow> 'd \<Rightarrow> (go_error + (go_error + nat list)) \<times> 'd"
  dc_ExecCreate :: "string \<Rightarrow> string list \<Rightarrow> 'd \<Rightarrow> (go_error + string) \<times> 'd"
  dc_ExecAttach :: "string \<Rightarrow> 'd \<Rightarrow> (go_error + ((bool \<times> nat list) list \<times> go_error option)) \<times> 'd"
  dc_ExecInspect :: "string \<Rightarrow> 'd \<Rightarrow> (go_error + int) \<times> 'd"

text \<open>The calls that change something, with what a creating call returned.\<close>

datatype docker_call =
    NetworkCreateCall string "(string, string) go_map" "string option"
  | NetworkRemoveCall string
  | NetworkConnectCall string string "string list"
  | NetworkDisconnectCall string string
  | ImageBuildCall "string list"
  | ImagePullCall string
  | ContainerCreateCall string "(string, string) go_map" "string option"
  | ContainerStartCall string
  | ContainerRemoveCall string

record 'd docker_world =
  dk :: 'd
  calls :: "docker_call list"

text \<open>A call of the client, with the entries that it adds to the log.\<close>

definition api :: "('d \<Rightarrow> 'r \<times> 'd) \<Rightarrow> ('r \<Rightarrow> docker_call list) \<Rightarrow> 'd docker_world \<Rightarrow> 'r \<times> 'd docker_world" where
  "api f ev w = (case f (dk w) of (r, d) \<Rightarrow> (r, w\<lparr>dk := d, calls := calls w @ ev r\<rparr>))"

definition query :: "('d \<Rightarrow> 'r \<times> 'd) \<Rightarrow> 'd docker_world \<Rightarrow> 'r \<times> 'd docker_world" where
  "query f = api f (\<lambda>_. [])"

definition created_id :: "go_error + string \<Rightarrow> string option" where
  "created_id r = (case r of Inl _ \<Rightarrow> None | Inr i \<Rightarrow> Some i)"

section \<open>Ports\<close>

definition bindings_of :: "port_map \<Rightarrow> string \<Rightarrow> port_binding list" where
  "bindings_of p port = (case map_of p port of None \<Rightarrow> [] | Some bs \<Rightarrow> bs)"

definition Binding :: "port_map \<Rightarrow> string \<Rightarrow> port_binding" where
  "Binding p port =
     (case bindings_of p port of [] \<Rightarrow> \<lparr>pb_HostIP = '''', pb_HostPort = ''''\<rparr> | b # bs \<Rightarrow> b)"

definition HostPort :: "port_map \<Rightarrow> string \<Rightarrow> string" where
  "HostPort p port =
     (case bindings_of p port of [] \<Rightarrow> '''' | b # bs \<Rightarrow> pb_HostIP b @ '':'' @ pb_HostPort b)"

definition URL :: "port_map \<Rightarrow> string \<Rightarrow> string \<Rightarrow> string" where
  "URL p port scheme =
     (let scheme = (if scheme = '''' then ''http'' else scheme); s = HostPort p port in
      if s \<noteq> '''' then scheme @ ''://'' @ s else '''')"

section \<open>Backend\<close>

record docker_backend =
  db_policy :: string
  db_labels :: "(string, string) go_map"

text \<open>
  What \<open>resolveHostIP\<close> asks its surroundings: the parsed URL of the daemon (scheme, host name, and the URL as a
  string), whether \<open>/.dockerenv\<close> can be read, and the address of \<open>host.docker.internal\<close>.
\<close>

record host_env =
  he_ParseURL :: "string \<Rightarrow> go_error + (string \<times> string \<times> string)"
  he_DockerEnv :: bool
  he_HostInternal :: "string option"

definition resolveHostIP :: "host_env \<Rightarrow> string \<Rightarrow> string list \<Rightarrow> go_error + string" where
  "resolveHostIP h daemonHost gateways =
     (case he_ParseURL h daemonHost of
        Inl err \<Rightarrow> Inl err
      | Inr (scheme, hostname, url) \<Rightarrow>
          (if scheme \<in> {''http'', ''https'', ''tcp''} then Inr hostname
           else if scheme \<in> {''unix'', ''npipe''} then
             (if he_DockerEnv h then
                (case he_HostInternal h of
                   Some addr \<Rightarrow> Inr addr
                 | None \<Rightarrow>
                     (case List.find (\<lambda>g. g \<noteq> '''') gateways of
                        Some g \<Rightarrow> Inr g
                      | None \<Rightarrow> Inr ''localhost''))
              else Inr ''localhost'')
           else Inl (Errorf ''unknown scheme found in daemon host: %s'' [url])))"

datatype terminator =
    RemoveNetwork string
  | RemoveContainer string
  | DisconnectContainer string string

text \<open>A waiter gets the fetcher of the container it waits for.\<close>

record ('d, 'h, 'i, 'x) container_info =
  ci_containerID :: string
  ci_container :: "'h container_config"
  ci_host :: "'x docker_host"
  ci_network :: "'i networks"
  ci_ports :: port_map
  ci_wait :: "('d fetcher \<Rightarrow> 'd waiter) option"
  ci_running :: bool

record ('d, 'h, 'i, 'x) docker_namespace =
  dn_policy :: string
  dn_namespace :: string
  dn_network :: network_resource
  dn_hostIP :: string
  dn_labels :: "(string, string) go_map"
  dn_terminate :: "terminator list"
  dn_containers :: "string \<Rightarrow> ('d, 'h, 'i, 'x) container_info option"

definition namespace_Namespace :: "('d, 'h, 'i, 'x) docker_namespace \<Rightarrow> string" where
  "namespace_Namespace d = dn_namespace d"

definition namespace_Network :: "('d, 'h, 'i, 'x) docker_namespace \<Rightarrow> network_resource" where
  "namespace_Network d = dn_network d"

declare namespace_Namespace_def [simp] namespace_Network_def [simp]

text \<open>The network of the namespace: found in the list, or created; the flag says that it was created.\<close>

definition network_for ::
  "('d, 'h, 'i, 'x) docker_client \<Rightarrow> docker_backend \<Rightarrow> string \<Rightarrow> 'd docker_world \<Rightarrow>
     (go_error + (network_resource \<times> bool)) \<times> 'd docker_world" where
  "network_for cli b networkName w =
     (case query (dc_NetworkList cli NoFilter) w of
        (Inl err, w1) \<Rightarrow> (Inl err, w1)
      | (Inr nws, w1) \<Rightarrow>
          (case List.find (\<lambda>n. nr_Name n = networkName) nws of
             Some n \<Rightarrow>
               (if db_policy b = ResourcePolicyError
                then (Inl (Errorf ''dockerBackend: network %q already exists'' [networkName]), w1)
                else (Inr (n, False), w1))
           | None \<Rightarrow>
               (case api (dc_NetworkCreate cli networkName
                        \<lparr>nc_Driver = ''bridge'', nc_CheckDuplicate = True, nc_Labels = db_labels b\<rparr>)
                      (\<lambda>r. [NetworkCreateCall networkName (db_labels b) (created_id r)]) w1 of
                  (Inl err, w2) \<Rightarrow> (Inl err, w2)
                | (Inr nid, w2) \<Rightarrow>
                    (case query (dc_NetworkInspect cli nid) w2 of
                       (Inl err, w3) \<Rightarrow> (Inl err, w3)
                     | (Inr n, w3) \<Rightarrow> (Inr (n, True), w3)))))"

definition Namespace ::
  "host_env \<Rightarrow> ('d, 'h, 'i, 'x) docker_client \<Rightarrow> docker_backend \<Rightarrow> string \<Rightarrow> 'd docker_world \<Rightarrow>
     (go_error + ('d, 'h, 'i, 'x) docker_namespace) \<times> 'd docker_world" where
  "Namespace h cli b name w =
     (case network_for cli b name w of
        (Inl err, w') \<Rightarrow> (Inl err, w')
      | (Inr (nw, nwCreated), w') \<Rightarrow>
          (case resolveHostIP h (dc_DaemonHost cli) (nr_Gateways nw) of
             Inl err \<Rightarrow> (Inl (Wrapped ''failed to resolve docker host ip: '' err), w')
           | Inr hostIP \<Rightarrow>
               (Inr \<lparr>dn_policy = db_policy b, dn_namespace = name @ ''-'', dn_network = nw, dn_hostIP = hostIP,
                     dn_labels = db_labels b,
                     dn_terminate =
                       (if nwCreated \<and> db_policy b \<noteq> ResourcePolicyReusable \<or> db_policy b = ResourcePolicyTakeOver
                        then [RemoveNetwork (nr_ID nw)] else []),
                     dn_containers = Map.empty\<rparr>, w')))"

section \<open>Images\<close>

text \<open>Messages are written one by one; \<open>out\<close> is the writer.\<close>

fun handleJSONMessageStream ::
  "(string \<Rightarrow> 'd \<Rightarrow> go_error option \<times> 'd) \<Rightarrow> (go_error + (string \<times> go_error option)) list \<Rightarrow> 'd \<Rightarrow> go_error option \<times> 'd" where
  "handleJSONMessageStream out [] d = (None, d)"
| "handleJSONMessageStream out (Inl err # rest) d = (Some err, d)"
| "handleJSONMessageStream out (Inr (txt, Some err) # rest) d = (Some err, d)"
| "handleJSONMessageStream out (Inr (txt, None) # rest) d =
     (case out txt d of
        (Some err, d') \<Rightarrow> (Some err, d')
      | (None, d') \<Rightarrow> handleJSONMessageStream out rest d')"

definition BuildImage ::
  "('h, 'i) err_pkgs \<Rightarrow> ('d, 'h, 'i, 'x) docker_client \<Rightarrow> 'x \<Rightarrow> 'x build_options \<Rightarrow> bool \<Rightarrow>
     (string \<Rightarrow> 'd \<Rightarrow> go_error option \<times> 'd) \<Rightarrow> 'd docker_world \<Rightarrow> (go_panic + go_error option) \<times> 'd docker_world" where
  "BuildImage p cli buildContext buildOptions force buildOut w =
     (case bo_Tags buildOptions of
        [] \<Rightarrow> (Inl IndexOutOfRange, w)
      | img # _ \<Rightarrow>
          (case (if force then (Inr [], w) else query (dc_ImageList cli) w) of
             (Inl err, w1) \<Rightarrow> (Inr (Some err), w1)
           | (Inr summaries, w1) \<Rightarrow>
               (if list_ex (\<lambda>tags. img \<in> set tags) summaries then (Inr None, w1)
                else
                  (case api (dc_ImageBuild cli buildContext buildOptions)
                          (\<lambda>_. [ImageBuildCall (bo_Tags buildOptions)]) w1 of
                     (Inl err, w2) \<Rightarrow> (Inr (Some err), w2)
                   | (Inr (msgs, closeErr), w2) \<Rightarrow>
                       (case query (handleJSONMessageStream buildOut msgs) w2 of
                          (err, w3) \<Rightarrow> (Inr (Append p err closeErr), w3))))))"

text \<open>The packages behind \<open>createArchive\<close>.\<close>

record ('w, 'x) archive_api =
  ar_GetContext :: "string \<Rightarrow> string \<Rightarrow> 'w \<Rightarrow> (go_error + (string \<times> string)) \<times> 'w"
  ar_ReadDockerignore :: "string \<Rightarrow> 'w \<Rightarrow> (go_error + string list) \<times> 'w"
  ar_TrimBuildFiles :: "string list \<Rightarrow> string \<Rightarrow> bool \<Rightarrow> string list"
  ar_Validate :: "string \<Rightarrow> string list \<Rightarrow> 'w \<Rightarrow> go_error option \<times> 'w"
  ar_Tar :: "string \<Rightarrow> string list \<Rightarrow> 'w \<Rightarrow> (go_error + 'x) \<times> 'w"

definition createArchive ::
  "('w, 'x) archive_api \<Rightarrow> string \<Rightarrow> string \<Rightarrow> 'w \<Rightarrow> (go_error + ('x \<times> string)) \<times> 'w" where
  "createArchive ar ctxDir dockerfilePath w =
     (case ar_GetContext ar ctxDir dockerfilePath w of
        (Inl err, w1) \<Rightarrow> (Inl err, w1)
      | (Inr (absContextDir, relDockerfile), w1) \<Rightarrow>
          (case ar_ReadDockerignore ar absContextDir w1 of
             (Inl err, w2) \<Rightarrow> (Inl err, w2)
           | (Inr ignored, w2) \<Rightarrow>
               (let excludes = ar_TrimBuildFiles ar ignored relDockerfile False in
                case ar_Validate ar absContextDir excludes w2 of
                  (Some err, w3) \<Rightarrow> (Inl err, w3)
                | (None, w3) \<Rightarrow>
                    (case ar_Tar ar absContextDir excludes w3 of
                       (Inl err, w4) \<Rightarrow> (Inl err, w4)
                     | (Inr tarball, w4) \<Rightarrow> (Inr (tarball, relDockerfile), w4)))))"

definition pull ::
  "('h, 'i) err_pkgs \<Rightarrow> ('d, 'h, 'i, 'x) docker_client \<Rightarrow> string \<Rightarrow> 'x \<Rightarrow>
     (string \<Rightarrow> 'd \<Rightarrow> go_error option \<times> 'd) \<Rightarrow> 'd docker_world \<Rightarrow> go_error option \<times> 'd docker_world" where
  "pull p cli img pullOptions out w =
     (case api (dc_ImagePull cli img pullOptions) (\<lambda>_. [ImagePullCall img]) w of
        (Inl err, w1) \<Rightarrow> (Some err, w1)
      | (Inr (msgs, closeErr), w1) \<Rightarrow>
          (case query (handleJSONMessageStream out msgs) w1 of
             (err, w2) \<Rightarrow> (Append p err closeErr, w2)))"

section \<open>Containers\<close>

text \<open>Labels of the namespace win over labels of the request.\<close>

definition merge_labels :: "(string, string) go_map \<Rightarrow> (string, string) go_map \<Rightarrow> (string, string) go_map" where
  "merge_labels own ls = (if ls = [] then own else fold (\<lambda>(k, v). AList.update k v) own ls)"

definition containerNameConflict :: "string \<Rightarrow> string \<Rightarrow> string \<Rightarrow> go_error" where
  "containerNameConflict name wantImage gotImage =
     Errorf ''container name %q already exists but image is not %q(%q)'' [name, wantImage, gotImage]"

definition TrimPrefix :: "string \<Rightarrow> string \<Rightarrow> string" where
  "TrimPrefix s pre = (if prefix pre s then drop (length pre) s else s)"

text \<open>The loop over the networks of an existing container; the endpoint settings may be nil.\<close>

fun network_found :: "string \<Rightarrow> string option list \<Rightarrow> go_panic + bool" where
  "network_found nid [] = Inr False"
| "network_found nid (None # rest) = Inl NilDereference"
| "network_found nid (Some n # rest) = (if n = nid then Inr True else network_found nid rest)"

text \<open>
  Attaching an existing container: the result is its identifier and whether it was connected to the network.
\<close>

definition attach_existing ::
  "('d, 'h, 'i, 'x) docker_client \<Rightarrow> ('d, 'h, 'i, 'x) docker_namespace \<Rightarrow> string \<Rightarrow> container_summary \<Rightarrow>
     'd docker_world \<Rightarrow> (go_panic + (go_error + (string \<times> bool))) \<times> 'd docker_world" where
  "attach_existing cli d name existing w =
     (if cs_State existing \<in> {''running'', ''created''} then
        (case cs_NetworkIDs existing of
           None \<Rightarrow> (Inl NilDereference, w)
         | Some nids \<Rightarrow>
             (case network_found (nr_ID (dn_network d)) nids of
                Inl pn \<Rightarrow> (Inl pn, w)
              | Inr True \<Rightarrow> (Inr (Inr (cs_ID existing, False)), w)
              | Inr False \<Rightarrow>
                  (let nid = nr_ID (dn_network d); aliases = [TrimPrefix name (dn_namespace d)] in
                   case api (dc_NetworkConnect cli nid (cs_ID existing) (nid, aliases))
                          (\<lambda>_. [NetworkConnectCall nid (cs_ID existing) aliases]) w of
                     (Some err, w') \<Rightarrow> (Inr (Inl err), w')
                   | (None, w') \<Rightarrow> (Inr (Inr (cs_ID existing, True)), w'))))
      else if cs_State existing = ''paused'' then
        (Inr (Inl (Errorf ''dockerNamespace: cannot start %q, unpause is not supported'' [name])), w)
      else
        (Inr (Inl (Errorf ''dockerNamespace: cannot start %q, unexpected container state %q''
           [name, cs_State existing])), w))"

definition reuse_container ::
  "('h, 'i) err_pkgs \<Rightarrow> ('d, 'h, 'i, 'x) docker_client \<Rightarrow> ('d, 'h, 'i, 'x) docker_namespace \<Rightarrow> string \<Rightarrow>
     'h container_config \<Rightarrow> 'x docker_host \<Rightarrow> 'i networks \<Rightarrow> bool \<Rightarrow> container_summary \<Rightarrow>
     'd docker_world \<Rightarrow> (go_panic + (go_error + (string \<times> bool))) \<times> 'd docker_world" where
  "reuse_container p cli d name container host networking configConsistency existing w =
     (if dn_policy d = ResourcePolicyError
      then (Inr (Inl (Errorf ''dockerNamespace: container %q(%s) already exists'' [name, Image container])), w)
      else
        (case query (dc_ContainerInspect cli (cs_ID existing)) w of
           (Inl err, w1) \<Rightarrow> (Inr (Inl err), w1)
         | (Inr info, w1) \<Rightarrow>
             (if configConsistency then
                (case cj_NetworkSettings info of
                   None \<Rightarrow> (Inl NilDereference, w1)
                 | Some (nets, _) \<Rightarrow>
                     (case checkConfigConsistency p (Some container) (cj_Config info)
                             (Some (host_config.truncate host)) (cj_HostConfig info) networking nets of
                        Inl pn \<Rightarrow> (Inl pn, w1)
                      | Inr (Some err) \<Rightarrow> (Inr (Inl err), w1)
                      | Inr None \<Rightarrow> attach_existing cli d name existing w1))
              else attach_existing cli d name existing w1)))"

definition create_new ::
  "('h, 'i) err_pkgs \<Rightarrow> ('d, 'h, 'i, 'x) docker_client \<Rightarrow> string \<Rightarrow> 'h container_config \<Rightarrow> 'x docker_host \<Rightarrow>
     'i networks \<Rightarrow> 'x option \<Rightarrow> (string \<Rightarrow> 'd \<Rightarrow> go_error option \<times> 'd) \<Rightarrow>
     'd docker_world \<Rightarrow> (go_error + string) \<times> 'd docker_world" where
  "create_new p cli name container host networking pullOptions pullOut w =
     (case (case pullOptions of None \<Rightarrow> (None, w) | Some opts \<Rightarrow> pull p cli (Image container) opts pullOut w) of
        (Some err, w1) \<Rightarrow> (Inl err, w1)
      | (None, w1) \<Rightarrow>
          api (dc_ContainerCreate cli container host networking name)
            (\<lambda>r. [ContainerCreateCall name (Labels container) (created_id r)]) w1)"

text \<open>Entering a container into the namespace, with the terminator that the policy asks for.\<close>

definition register_container ::
  "('d, 'h, 'i, 'x) docker_namespace \<Rightarrow> string \<Rightarrow> string \<Rightarrow> bool \<Rightarrow> bool \<Rightarrow> 'h container_config \<Rightarrow> 'x docker_host \<Rightarrow>
     'i networks \<Rightarrow> ('d fetcher \<Rightarrow> 'd waiter) option \<Rightarrow> ('d, 'h, 'i, 'x) docker_namespace" where
  "register_container d name containerID existed connected container host networking wait =
     d\<lparr>dn_terminate := dn_terminate d @
         (if \<not> existed \<and> dn_policy d \<noteq> ResourcePolicyReusable \<or> dn_policy d = ResourcePolicyTakeOver
          then [RemoveContainer containerID]
          else if connected then [DisconnectContainer (nr_ID (dn_network d)) containerID]
          else []),
       dn_containers := (dn_containers d)(name \<mapsto>
         \<lparr>ci_containerID = containerID, ci_container = container, ci_host = host, ci_network = networking,
          ci_ports = [], ci_wait = wait, ci_running = False\<rparr>)\<rparr>"

text \<open>
  \<open>CreateContainer\<close>. The result is the identifier together with the error: a known container whose
  configuration differs gives both.
\<close>

definition CreateContainer ::
  "('h, 'i) err_pkgs \<Rightarrow> ('d, 'h, 'i, 'x) docker_client \<Rightarrow> string \<Rightarrow> 'h container_config \<Rightarrow> 'x docker_host \<Rightarrow>
     'i networks \<Rightarrow> bool \<Rightarrow> ('d fetcher \<Rightarrow> 'd waiter) option \<Rightarrow> 'x option \<Rightarrow>
     (string \<Rightarrow> 'd \<Rightarrow> go_error option \<times> 'd) \<Rightarrow> ('d, 'h, 'i, 'x) docker_namespace \<Rightarrow> 'd docker_world \<Rightarrow>
     (go_panic + (string \<times> go_error option)) \<times> ('d, 'h, 'i, 'x) docker_namespace \<times> 'd docker_world" where
  "CreateContainer p cli name container0 host networking configConsistency wait pullOptions pullOut d w =
     (let container = container0\<lparr>Labels := merge_labels (dn_labels d) (Labels container0)\<rparr>;
          fullName = ''/'' @ name
      in case dn_containers d name of
           Some c \<Rightarrow>
             ((if configConsistency then
                 (case checkConfigConsistency p (Some container) (Some (ci_container c))
                         (Some (host_config.truncate host)) (Some (host_config.truncate (ci_host c)))
                         networking (ci_network c) of
                    Inl pn \<Rightarrow> Inl pn
                  | Inr err \<Rightarrow> Inr (ci_containerID c, err))
               else Inr (ci_containerID c, None)), d, w)
         | None \<Rightarrow>
             (case query (dc_ContainerList cli (NameFilter name)) w of
                (Inl err, w1) \<Rightarrow> (Inr ('''', Some err), d, w1)
              | (Inr cs, w1) \<Rightarrow>
                  (case List.find (\<lambda>c. fullName \<in> set (cs_Names c)) cs of
                     Some existing \<Rightarrow>
                       (if cs_Image existing \<noteq> Image container
                        then (Inr ('''', Some (containerNameConflict name (Image container) (cs_Image existing))), d, w1)
                        else
                          (case reuse_container p cli d name container host networking configConsistency existing w1 of
                             (Inl pn, w2) \<Rightarrow> (Inl pn, d, w2)
                           | (Inr (Inl err), w2) \<Rightarrow> (Inr ('''', Some err), d, w2)
                           | (Inr (Inr (cid, connected)), w2) \<Rightarrow>
                               (Inr (cid, None),
                                register_container d name cid True connected container host networking wait, w2)))
                   | None \<Rightarrow>
                       (case create_new p cli name container host networking pullOptions pullOut w1 of
                          (Inl err, w2) \<Rightarrow> (Inr ('''', Some err), d, w2)
                        | (Inr cid, w2) \<Rightarrow>
                            (Inr (cid, None),
                             register_container d name cid False False container host networking wait, w2)))))"

section \<open>Starting and releasing\<close>

text \<open>
  The clock and the timers of the runtime: \<open>rt_select\<close> is the select of the waiter, \<open>rt_Continue\<close> the \<open>k\<close>-th call of
  \<open>backoff.Continue\<close> with an interval, a number of retries (0: no limit) and the deadline of the context.
\<close>

record 'd runtime =
  rt_now :: "'d \<Rightarrow> int"
  rt_select :: "int \<Rightarrow> int \<Rightarrow> 'd \<Rightarrow> go_error option \<times> 'd"
  rt_Continue :: "int \<Rightarrow> nat \<Rightarrow> int \<Rightarrow> nat \<Rightarrow> 'd \<Rightarrow> bool \<times> 'd"

definition ports_bound :: "(string, unit) go_map \<Rightarrow> port_map \<Rightarrow> bool" where
  "ports_bound required ports \<longleftrightarrow> list_all (\<lambda>(p, bs). p \<in> fst ` set required \<longrightarrow> bs \<noteq> []) ports"

definition set_host_ip :: "string \<Rightarrow> (string, unit) go_map \<Rightarrow> port_map \<Rightarrow> port_map" where
  "set_host_ip hostIP required ports =
     map (\<lambda>(p, bs). (p, if p \<in> fst ` set required then map (\<lambda>b. b\<lparr>pb_HostIP := hostIP\<rparr>) bs else bs)) ports"

text \<open>The retry loop, with fuel: the number of calls of \<open>Continue\<close>.\<close>

fun port_loop ::
  "'d runtime \<Rightarrow> ('d, 'h, 'i, 'x) docker_client \<Rightarrow> string \<Rightarrow> string \<Rightarrow> (string, unit) go_map \<Rightarrow> int \<Rightarrow> nat \<Rightarrow> nat \<Rightarrow>
     'd \<Rightarrow> ((go_panic + (go_error + port_map)) \<times> 'd) option" where
  "port_loop rt cli hostIP cid required dl 0 k d = None"
| "port_loop rt cli hostIP cid required dl (Suc fuel) k d =
     (case rt_Continue rt (200 * 1000000) 0 dl k d of
        (False, d') \<Rightarrow> Some (Inr (Inl (ErrorString ''cannot get endpoints'')), d')
      | (True, d') \<Rightarrow>
          (case dc_ContainerInspect cli cid d' of
             (Inl err, d'') \<Rightarrow> Some (Inr (Inl err), d'')
           | (Inr i, d'') \<Rightarrow>
               (case cj_NetworkSettings i of
                  None \<Rightarrow> Some (Inl NilDereference, d'')
                | Some (_, ports) \<Rightarrow>
                    (if ports_bound required ports then Some (Inr (Inr (set_host_ip hostIP required ports)), d'')
                     else port_loop rt cli hostIP cid required dl fuel (Suc k) d''))))"

definition containerPortMap ::
  "'d runtime \<Rightarrow> ('d, 'h, 'i, 'x) docker_client \<Rightarrow> string \<Rightarrow> int option \<Rightarrow> string \<Rightarrow> (string, unit) go_map \<Rightarrow> nat \<Rightarrow>
     'd \<Rightarrow> ((go_panic + (go_error + port_map)) \<times> 'd) option" where
  "containerPortMap rt cli hostIP deadline cid required fuel d =
     (if required = [] then Some (Inr (Inr []), d)
      else
        (let dl = (case deadline of Some t \<Rightarrow> t | None \<Rightarrow> rt_now rt d + 30 * 1000000000) in
         port_loop rt cli hostIP cid required dl fuel 0 d))"

definition fetcher_of :: "('d, 'h, 'i, 'x) docker_client \<Rightarrow> string \<Rightarrow> port_map \<Rightarrow> 'd fetcher" where
  "fetcher_of cli cid ports =
     \<lparr>ft_ContainerID = cid, ft_Ports = ports, ft_Log = dc_ContainerLogs cli cid,
      ft_Status = (\<lambda>d. case dc_ContainerInspect cli cid d of
         (Inl err, d') \<Rightarrow> (Inl err, d')
       | (Inr i, d') \<Rightarrow> (Inr (cj_Health i), d')),
      ft_Exec = (\<lambda>cmd d. case dc_ExecCreate cli cid cmd d of
         (Inl err, d1) \<Rightarrow> (Inl err, d1)
       | (Inr eid, d1) \<Rightarrow>
           (case dc_ExecAttach cli eid d1 of
              (Inl err, d2) \<Rightarrow> (Inl err, d2)
            | (Inr (chunks, Some err), d2) \<Rightarrow> (Inl err, d2)
            | (Inr (chunks, None), d2) \<Rightarrow>
                (let buf = std_copy (Some 0) (Some 0) chunks (\<lambda>_. []) 0 in
                 case dc_ExecInspect cli eid d2 of
                   (Inl err, d3) \<Rightarrow> (Inl err, d3)
                 | (Inr code, d3) \<Rightarrow>
                     (if code \<noteq> 0 then (Inl (ExitStatus code), d3) else (Inr buf, d3)))))\<rparr>"

text \<open>\<open>StartContainer\<close> under a context with the given deadline; \<open>None\<close>: a loop has not ended within the fuel.\<close>

definition StartContainer ::
  "'d runtime \<Rightarrow> ('d, 'h, 'i, 'x) docker_client \<Rightarrow> int option \<Rightarrow> nat \<Rightarrow> string \<Rightarrow> ('d, 'h, 'i, 'x) docker_namespace \<Rightarrow>
     'd docker_world \<Rightarrow>
     ((go_panic + (go_error + port_map)) \<times> ('d, 'h, 'i, 'x) docker_namespace \<times> 'd docker_world) option" where
  "StartContainer rt cli deadline fuel name d w =
     (case dn_containers d name of
        None \<Rightarrow> Some (Inr (Inl (Errorf ''dockerNamespace: container %q not found'' [name])), d, w)
      | Some c \<Rightarrow>
          (if ci_running c then Some (Inr (Inr (ci_ports c)), d, w)
           else
             (case api (dc_ContainerStart cli (ci_containerID c)) (\<lambda>_. [ContainerStartCall (ci_containerID c)]) w of
                (Some err, w1) \<Rightarrow> Some (Inr (Inl err), d, w1)
              | (None, w1) \<Rightarrow>
                  (case containerPortMap rt cli (dn_hostIP d) deadline (ci_containerID c)
                          (ExposedPorts (ci_container c)) fuel (dk w1) of
                     None \<Rightarrow> None
                   | Some (Inl pn, k) \<Rightarrow> Some (Inl pn, d, w1\<lparr>dk := k\<rparr>)
                   | Some (Inr (Inl err), k) \<Rightarrow> Some (Inr (Inl err), d, w1\<lparr>dk := k\<rparr>)
                   | Some (Inr (Inr ports), k) \<Rightarrow>
                       (case (case ci_wait c of
                                None \<Rightarrow> Some (None, k)
                              | Some wt \<Rightarrow>
                                  Wait (rt_now rt) (rt_select rt) (wt (fetcher_of cli (ci_containerID c) ports))
                                    deadline fuel k) of
                          None \<Rightarrow> None
                        | Some (Some err, k') \<Rightarrow> Some (Inr (Inl err), d, w1\<lparr>dk := k'\<rparr>)
                        | Some (None, k') \<Rightarrow>
                            Some (Inr (Inr ports),
                              d\<lparr>dn_containers := (dn_containers d)(name \<mapsto> c\<lparr>ci_running := True, ci_ports := ports\<rparr>)\<rparr>,
                              w1\<lparr>dk := k'\<rparr>))))))"

definition run_terminator ::
  "('d, 'h, 'i, 'x) docker_client \<Rightarrow> terminator \<Rightarrow> 'd docker_world \<Rightarrow> go_error option \<times> 'd docker_world" where
  "run_terminator cli t w =
     (case t of
        RemoveNetwork nid \<Rightarrow> api (dc_NetworkRemove cli nid) (\<lambda>_. [NetworkRemoveCall nid]) w
      | RemoveContainer cid \<Rightarrow> api (dc_ContainerRemove cli cid) (\<lambda>_. [ContainerRemoveCall cid]) w
      | DisconnectContainer nid cid \<Rightarrow>
          api (dc_NetworkDisconnect cli nid cid True) (\<lambda>_. [NetworkDisconnectCall nid cid]) w)"

text \<open>The loop of \<open>Release\<close> reads the terminators from the end: \<open>i\<close> counts from 0, \<open>last - i\<close> is the index.\<close>

fun release_loop ::
  "('h, 'i) err_pkgs \<Rightarrow> ('d, 'h, 'i, 'x) docker_client \<Rightarrow> terminator list \<Rightarrow> nat \<Rightarrow> go_error option \<Rightarrow>
     'd docker_world \<Rightarrow> go_error option \<times> 'd docker_world" where
  "release_loop p cli ts 0 err w = (err, w)"
| "release_loop p cli ts (Suc n) err w =
     (case run_terminator cli (ts ! n) w of (e, w') \<Rightarrow> release_loop p cli ts n (Append p err e) w')"

definition Release_namespace ::
  "('h, 'i) err_pkgs \<Rightarrow> ('d, 'h, 'i, 'x) docker_client \<Rightarrow> ('d, 'h, 'i, 'x) docker_namespace \<Rightarrow> 'd docker_world \<Rightarrow>
     go_error option \<times> 'd docker_world" where
  "Release_namespace p cli d w = release_loop p cli (dn_terminate d) (length (dn_terminate d)) None w"

end
