(* ===== verification/Docker_Policy.thy ===== *)
theory Docker_Policy
  imports Docker_Backend
begin

text \<open>
  What the docker backend does to docker: the calls of each operation, and what the resource policies
  (error, reuse, reusable, takeover) promise about the resources that exist when a namespace is released.
\<close>

section \<open>The log of calls\<close>

lemma api_calls: "api f ev w = (r, w') \<Longrightarrow> calls w' = calls w @ ev r"
  by (auto simp: api_def split: prod.splits)

lemma query_calls: "query f w = (r, w') \<Longrightarrow> calls w' = calls w"
  by (simp add: query_def api_calls)

fun term_call :: "terminator \<Rightarrow> docker_call" where
  "term_call (RemoveNetwork nid) = NetworkRemoveCall nid"
| "term_call (RemoveContainer cid) = ContainerRemoveCall cid"
| "term_call (DisconnectContainer nid cid) = NetworkDisconnectCall nid cid"

lemma run_terminator_calls: "run_terminator cli t w = (e, w') \<Longrightarrow> calls w' = calls w @ [term_call t]"
  by (cases t) (auto simp: run_terminator_def dest: api_calls)

lemma release_loop_calls:
  "n \<le> length ts \<Longrightarrow> release_loop p cli ts n err w = (e, w') \<Longrightarrow>
     calls w' = calls w @ map term_call (rev (take n ts))"
proof (induction n arbitrary: err w)
  case (Suc n)
  obtain x v where x: "run_terminator cli (ts ! n) w = (x, v)" by (cases "run_terminator cli (ts ! n) w")
  have "calls w' = calls v @ map term_call (rev (take n ts))"
    using Suc.IH [of "Append p err x" v] Suc.prems x by simp
  then show ?case
    using run_terminator_calls [OF x] Suc.prems(1) by (simp add: take_Suc_conv_app_nth)
qed simp

lemma release_calls:
  "Release_namespace p cli d w = (e, w') \<Longrightarrow> calls w' = calls w @ rev (map term_call (dn_terminate d))"
  unfolding Release_namespace_def by (drule release_loop_calls [OF order_refl]) (simp add: rev_map)

text \<open>The errors of the terminators, in the order in which they run.\<close>

fun term_errors ::
  "('d, 'h, 'i, 'x) docker_client \<Rightarrow> terminator list \<Rightarrow> 'd docker_world \<Rightarrow> go_error option list" where
  "term_errors cli [] w = []"
| "term_errors cli (t # ts) w = (case run_terminator cli t w of (e, w') \<Rightarrow> e # term_errors cli ts w')"

lemma release_loop_errors:
  "n \<le> length ts \<Longrightarrow>
     fst (release_loop p cli ts n err w) = foldl (Append p) err (term_errors cli (rev (take n ts)) w)"
proof (induction n arbitrary: err w)
  case (Suc n)
  then show ?case
    by (cases "run_terminator cli (ts ! n) w") (simp add: take_Suc_conv_app_nth)
qed simp

lemma release_errors:
  "fst (Release_namespace p cli d w) = foldl (Append p) None (term_errors cli (rev (dn_terminate d)) w)"
  unfolding Release_namespace_def by (simp add: release_loop_errors)

context error_packages
begin

lemma foldl_append_None: "foldl (Append p) err es = None \<longleftrightarrow> err = None \<and> (\<forall>e \<in> set es. e = None)"
  by (induction es arbitrary: err) (auto simp: append_None)

end

section \<open>Calls of the operations\<close>

text \<open>What the calls of a namespace have created.\<close>

definition created_containers :: "docker_call list \<Rightarrow> string set" where
  "created_containers cs = {cid. \<exists>n l. ContainerCreateCall n l (Some cid) \<in> set cs}"

definition created_networks :: "docker_call list \<Rightarrow> string set" where
  "created_networks cs = {nid. \<exists>n l. NetworkCreateCall n l (Some nid) \<in> set cs}"

lemma created_simps [simp]:
  "created_containers [] = {}" "created_networks [] = {}"
  "created_containers (cs @ ds) = created_containers cs \<union> created_containers ds"
  "created_networks (cs @ ds) = created_networks cs \<union> created_networks ds"
  "created_containers (ContainerCreateCall n l r # cs) = set_option r \<union> created_containers cs"
  "created_networks (NetworkCreateCall n l r # cs) = set_option r \<union> created_networks cs"
  "created_networks (ContainerCreateCall n l r # cs) = created_networks cs"
  "created_containers (NetworkCreateCall n l r # cs) = created_containers cs"
  "created_containers (NetworkConnectCall x y z # cs) = created_containers cs"
  "created_networks (NetworkConnectCall x y z # cs) = created_networks cs"
  "created_containers (ImagePullCall x # cs) = created_containers cs"
  "created_networks (ImagePullCall x # cs) = created_networks cs"
  "created_containers (ContainerStartCall x # cs) = created_containers cs"
  "created_networks (ContainerStartCall x # cs) = created_networks cs"
  by (auto simp: created_containers_def created_networks_def)

lemma pull_calls: "pull p cli img opts out w = (e, w') \<Longrightarrow> calls w' = calls w @ [ImagePullCall img]"
  unfolding pull_def by (auto split: prod.splits sum.splits dest!: api_calls query_calls)

lemma create_new_calls:
  assumes "create_new p cli name c host net po out w = (r, w')"
  shows "\<exists>pulls. set pulls \<subseteq> {ImagePullCall (Image c)} \<and>
    (calls w' = calls w @ pulls @ [ContainerCreateCall name (Labels c) (created_id r)] \<or>
     (\<exists>err. r = Inl err) \<and> calls w' = calls w @ pulls)"
proof -
  let ?pulled = "case po of None \<Rightarrow> (None, w) | Some opts \<Rightarrow> pull p cli (Image c) opts out w"
  obtain e w1 where e: "?pulled = (e, w1)" by (cases ?pulled)
  then have "\<exists>pulls. set pulls \<subseteq> {ImagePullCall (Image c)} \<and> calls w1 = calls w @ pulls"
    by (cases po) (auto dest: pull_calls)
  then obtain pulls where pulls: "set pulls \<subseteq> {ImagePullCall (Image c)}" "calls w1 = calls w @ pulls" by blast
  show ?thesis
  proof (cases e)
    case None
    then have "calls w' = calls w1 @ [ContainerCreateCall name (Labels c) (created_id r)]"
      using assms e by (auto simp: create_new_def dest: api_calls)
    then show ?thesis using pulls by auto
  next
    case (Some err)
    then show ?thesis using assms e pulls by (auto simp: create_new_def)
  qed
qed

lemma attach_calls:
  assumes "attach_existing cli d name c w = (r, w')"
  shows "(calls w' = calls w \<and> (\<forall>cid conn. r = Inr (Inr (cid, conn)) \<longrightarrow> cid = cs_ID c \<and> \<not> conn)) \<or>
    (calls w' = calls w @ [NetworkConnectCall (nr_ID (dn_network d)) (cs_ID c) [TrimPrefix name (dn_namespace d)]] \<and>
       (\<forall>cid conn. r = Inr (Inr (cid, conn)) \<longrightarrow> cid = cs_ID c \<and> conn))"
  using assms unfolding attach_existing_def
  by (auto simp: Let_def split: if_splits option.splits sum.splits bool.splits prod.splits dest: api_calls)

lemma reuse_calls:
  assumes "reuse_container p cli d name c host net consist x w = (r, w')"
  shows "(calls w' = calls w \<and> (\<forall>cid conn. r = Inr (Inr (cid, conn)) \<longrightarrow> cid = cs_ID x \<and> \<not> conn)) \<or>
    (calls w' = calls w @ [NetworkConnectCall (nr_ID (dn_network d)) (cs_ID x) [TrimPrefix name (dn_namespace d)]] \<and>
       (\<forall>cid conn. r = Inr (Inr (cid, conn)) \<longrightarrow> cid = cs_ID x \<and> conn))"
    and "dn_policy d = ResourcePolicyError \<Longrightarrow> \<exists>err. r = Inr (Inl err) \<and> calls w' = calls w"
proof -
  show "dn_policy d = ResourcePolicyError \<Longrightarrow> \<exists>err. r = Inr (Inl err) \<and> calls w' = calls w"
    using assms by (auto simp: reuse_container_def)
  obtain i w1 where i: "query (dc_ContainerInspect cli (cs_ID x)) w = (i, w1)" by (cases "query (dc_ContainerInspect cli (cs_ID x)) w")
  have "(calls w' = calls w \<and> (\<forall>y. r \<noteq> Inr (Inr y))) \<or> attach_existing cli d name x w1 = (r, w')"
    using assms query_calls [OF i] unfolding reuse_container_def
    by (auto simp: i split: if_splits option.splits sum.splits)
  then show "(calls w' = calls w \<and> (\<forall>cid conn. r = Inr (Inr (cid, conn)) \<longrightarrow> cid = cs_ID x \<and> \<not> conn)) \<or>
    (calls w' = calls w @ [NetworkConnectCall (nr_ID (dn_network d)) (cs_ID x) [TrimPrefix name (dn_namespace d)]] \<and>
       (\<forall>cid conn. r = Inr (Inr (cid, conn)) \<longrightarrow> cid = cs_ID x \<and> conn))"
    using attach_calls [of cli d name x w1 r w'] query_calls [OF i] by auto
qed

definition labelled :: "('d, 'h, 'i, 'x) docker_namespace \<Rightarrow> 'h container_config \<Rightarrow> 'h container_config" where
  "labelled d c = c\<lparr>Labels := merge_labels (dn_labels d) (Labels c)\<rparr>"

lemma labelled_Image [simp]: "Image (labelled d c) = Image c"
  by (simp add: labelled_def)

lemma created_pulls: "set pulls \<subseteq> {ImagePullCall x} \<Longrightarrow> created_containers pulls = {} \<and> created_networks pulls = {}"
  by (auto simp: created_containers_def created_networks_def)

text \<open>
  The four ways in which \<open>CreateContainer\<close> ends: the name is known, the call fails, an existing container is
  attached, or a container is created.
\<close>

lemma create_container_cases:
  assumes "CreateContainer p cli name c host net consist wt po out d w = (r, d', w')"
  obtains
    (known) info where "dn_containers d name = Some info" "d' = d" "w' = w"
      "\<And>cid e. r = Inr (cid, e) \<Longrightarrow> cid = ci_containerID info"
  | (failed) cs where "dn_containers d name = None" "d' = d" "calls w' = calls w @ cs"
      "created_containers cs = {}" "created_networks cs = {}" "\<And>cid. r \<noteq> Inr (cid, None)"
  | (reused) cid conn where "dn_containers d name = None" "dn_policy d \<noteq> ResourcePolicyError" "r = Inr (cid, None)"
      "d' = register_container d name cid True conn (labelled d c) host net wt"
      "calls w' = calls w @
         (if conn then [NetworkConnectCall (nr_ID (dn_network d)) cid [TrimPrefix name (dn_namespace d)]] else [])"
  | (created) cid pulls where "dn_containers d name = None" "r = Inr (cid, None)"
      "d' = register_container d name cid False False (labelled d c) host net wt"
      "set pulls \<subseteq> {ImagePullCall (Image c)}"
      "calls w' = calls w @ pulls @ [ContainerCreateCall name (Labels (labelled d c)) (Some cid)]"
proof (cases "dn_containers d name")
  case (Some info)
  then show ?thesis
    using assms by (intro known) (auto simp: CreateContainer_def split: if_splits sum.splits)
next
  case None
  obtain l w1 where l: "query (dc_ContainerList cli (NameFilter name)) w = (l, w1)"
    by (cases "query (dc_ContainerList cli (NameFilter name)) w")
  note w1 = query_calls [OF l]
  note unf = CreateContainer_def Let_def None l labelled_def [symmetric]
  show ?thesis
  proof (cases l)
    case (Inl err)
    show ?thesis by (rule failed [of "[]"]) (use assms w1 None in \<open>auto simp: unf Inl\<close>)
  next
    case (Inr cs)
    let ?found = "List.find (\<lambda>c. CHR ''/'' # name \<in> set (cs_Names c)) cs"
    show ?thesis
    proof (cases ?found)
      case (Some x)
      show ?thesis
      proof (cases "cs_Image x = Image c")
        case False
        show ?thesis
          by (rule failed [of "[]"]) (use assms w1 None False in \<open>auto simp: unf Inr Some\<close>)
      next
        case True': True
        obtain q w2 where q: "reuse_container p cli d name (labelled d c) host net consist x w1 = (q, w2)"
          by (cases "reuse_container p cli d name (labelled d c) host net consist x w1")
        note rc = reuse_calls [OF q]
        show ?thesis
        proof (cases "\<exists>cid conn. q = Inr (Inr (cid, conn))")
          case True
          then obtain cid conn where "q = Inr (Inr (cid, conn))" by blast
          then show ?thesis
            by (intro reused [of cid conn]) (use assms w1 rc None True' q in \<open>auto simp: unf Inr Some\<close>)
        next
          case False
          then have "w' = w2 \<and> d' = d \<and> (\<forall>cid. r \<noteq> Inr (cid, None))"
            using assms True' q by (auto simp: unf Inr Some split: sum.splits)
          then show ?thesis
            using rc(1) w1 None by (elim disjE conjE) (auto intro: failed)
        qed
      qed
    next
      case None': None
      obtain q w2 where q: "create_new p cli name (labelled d c) host net po out w1 = (q, w2)"
        by (cases "create_new p cli name (labelled d c) host net po out w1")
      obtain pulls where pulls: "set pulls \<subseteq> {ImagePullCall (Image (labelled d c))}"
        and w2: "calls w2 = calls w1 @ pulls @ [ContainerCreateCall name (Labels (labelled d c)) (created_id q)] \<or>
          (\<exists>err. q = Inl err) \<and> calls w2 = calls w1 @ pulls"
        using create_new_calls [OF q] by blast
      show ?thesis
      proof (cases q)
        case (Inl err)
        then have "w' = w2 \<and> d' = d \<and> (\<forall>cid. r \<noteq> Inr (cid, None))"
          using assms q by (auto simp: unf Inr None')
        then show ?thesis
          using w1 w2 None Inl created_pulls [OF pulls] by (auto simp: created_id_def intro: failed)
      next
        case (Inr cid)
        then show ?thesis
          by (intro created [of cid pulls])
            (use assms w1 w2 None q pulls \<open>l = Inr cs\<close> in \<open>auto simp: unf None' created_id_def\<close>)
      qed
    qed
  qed
qed

text \<open>Starting a container issues at most the start call and keeps everything else of the namespace.\<close>

lemma start_container_effect:
  assumes "StartContainer rt cli dl fuel name d w = Some (r, d', w')"
  shows "\<exists>cs. calls w' = calls w @ cs \<and> created_containers cs = {} \<and> created_networks cs = {}"
    and "dn_terminate d' = dn_terminate d \<and> dn_policy d' = dn_policy d \<and> dn_network d' = dn_network d \<and>
      dn_labels d' = dn_labels d"
    and "\<forall>n. map_option ci_containerID (dn_containers d' n) = map_option ci_containerID (dn_containers d n)"
proof -
  show "\<exists>cs. calls w' = calls w @ cs \<and> created_containers cs = {} \<and> created_networks cs = {}"
    using assms unfolding StartContainer_def
    by (auto split: option.splits if_splits prod.splits sum.splits dest!: api_calls
        intro: exI [of _ "[]"] exI [of _ "[ContainerStartCall x]" for x])
  show "dn_terminate d' = dn_terminate d \<and> dn_policy d' = dn_policy d \<and> dn_network d' = dn_network d \<and>
      dn_labels d' = dn_labels d"
    using assms unfolding StartContainer_def
    by (auto split: option.splits if_splits prod.splits sum.splits)
  show "\<forall>n. map_option ci_containerID (dn_containers d' n) = map_option ci_containerID (dn_containers d n)"
    using assms unfolding StartContainer_def
    by (auto split: option.splits if_splits prod.splits sum.splits)
qed

text \<open>A port map that the retry loop returns has a binding, with the host address, for every required port it lists.\<close>

lemma set_host_ip_bound:
  assumes "ports_bound req ports" and "(port, bs) \<in> set (set_host_ip ip req ports)" and "port \<in> fst ` set req"
  shows "bs \<noteq> [] \<and> (\<forall>b \<in> set bs. pb_HostIP b = ip)"
proof -
  obtain raw where raw: "(port, raw) \<in> set ports" and bs: "bs = map (\<lambda>b. b\<lparr>pb_HostIP := ip\<rparr>) raw"
    using assms(2) by (fastforce simp: set_host_ip_def assms(3))
  from assms(1) raw have "raw \<noteq> []" using assms(3) unfolding ports_bound_def list_all_iff by blast
  then show ?thesis using bs by simp
qed

lemma port_loop_bound:
  "port_loop rt cli ip cid req dl fuel k s = Some (Inr (Inr ports), s') \<Longrightarrow>
     \<exists>raw. ports_bound req raw \<and> ports = set_host_ip ip req raw"
  by (induction rt cli ip cid req dl fuel k s rule: port_loop.induct)
    (auto split: prod.splits bool.splits sum.splits option.splits if_splits)

lemma port_map_bound:
  assumes "containerPortMap rt cli ip dl cid req fuel k = Some (Inr (Inr ports), k')"
  shows "\<forall>(port, bs) \<in> set ports. port \<in> fst ` set req \<longrightarrow> bs \<noteq> [] \<and> (\<forall>b \<in> set bs. pb_HostIP b = ip)"
proof (cases "req = []")
  case False
  then obtain raw where "ports_bound req raw" "ports = set_host_ip ip req raw"
    using assms by (auto simp: containerPortMap_def Let_def dest: port_loop_bound)
  then show ?thesis using set_host_ip_bound by fastforce
qed simp

section \<open>Runs of a namespace\<close>

text \<open>
  A namespace is opened, then containers are created and started in any order; between two operations other
  users of docker may do anything to its state.
\<close>

inductive ns_run ::
  "host_env \<Rightarrow> ('h, 'i) err_pkgs \<Rightarrow> ('d, 'h, 'i, 'x) docker_client \<Rightarrow> docker_backend \<Rightarrow> 'd docker_world \<Rightarrow>
     ('d, 'h, 'i, 'x) docker_namespace \<Rightarrow> 'd docker_world \<Rightarrow> bool"
  for h p cli b w0 where
  opened: "Namespace h cli b name w0 = (Inr d, w) \<Longrightarrow> ns_run h p cli b w0 d w"
| created: "ns_run h p cli b w0 d w \<Longrightarrow>
    CreateContainer p cli name c host net consist wt po out d w = (r, d', w') \<Longrightarrow> ns_run h p cli b w0 d' w'"
| started: "ns_run h p cli b w0 d w \<Longrightarrow>
    StartContainer rt cli dl fuel name d w = Some (r, d', w') \<Longrightarrow> ns_run h p cli b w0 d' w'"
| elsewhere: "ns_run h p cli b w0 d w \<Longrightarrow> ns_run h p cli b w0 d (w\<lparr>dk := k\<rparr>)"

text \<open>What the terminators of a namespace are, given what its calls have created.\<close>

definition policy_inv :: "docker_backend \<Rightarrow> docker_call list \<Rightarrow> ('d, 'h, 'i, 'x) docker_namespace \<Rightarrow> bool" where
  "policy_inv b cs d \<longleftrightarrow>
     dn_policy d = db_policy b \<and> dn_labels d = db_labels b \<and>
     (\<forall>t \<in> set (tl (dn_terminate d)). \<forall>nid. t \<noteq> RemoveNetwork nid) \<and>
     (if db_policy b = ResourcePolicyReusable
      then \<forall>t \<in> set (dn_terminate d). \<exists>nid cid. t = DisconnectContainer nid cid
      else if db_policy b = ResourcePolicyTakeOver
      then RemoveNetwork (nr_ID (dn_network d)) \<in> set (dn_terminate d) \<and>
        (\<forall>n c. dn_containers d n = Some c \<longrightarrow> RemoveContainer (ci_containerID c) \<in> set (dn_terminate d))
      else {cid. RemoveContainer cid \<in> set (dn_terminate d)} = created_containers cs \<and>
        {nid. RemoveNetwork nid \<in> set (dn_terminate d)} = created_networks cs)"

lemma network_for_calls:
  assumes "network_for cli b name w = (Inr (n, c), w')"
    and "\<And>nid s m s'. dc_NetworkInspect cli nid s = (Inr m, s') \<Longrightarrow> nr_ID m = nid"
  shows "if c then calls w' = calls w @ [NetworkCreateCall name (db_labels b) (Some (nr_ID n))]
    else calls w' = calls w \<and> db_policy b \<noteq> ResourcePolicyError"
proof -
  obtain l w1 where l: "query (dc_NetworkList cli NoFilter) w = (l, w1)" by (cases "query (dc_NetworkList cli NoFilter) w")
  note w1 = query_calls [OF l]
  let ?nc = "\<lparr>nc_Driver = ''bridge'', nc_CheckDuplicate = True, nc_Labels = db_labels b\<rparr>"
  let ?mk = "api (dc_NetworkCreate cli name ?nc) (\<lambda>r. [NetworkCreateCall name (db_labels b) (created_id r)]) w1"
  obtain r w2 where r: "?mk = (r, w2)" by (cases ?mk)
  show ?thesis
  proof (cases c)
    case False
    then show ?thesis
      using assms(1) w1 unfolding network_for_def
      by (auto simp: l split: sum.splits option.splits if_splits prod.splits)
  next
    case True
    then obtain nid where nid: "r = Inr nid" and i: "query (dc_NetworkInspect cli nid) w2 = (Inr n, w')"
      using assms(1) unfolding network_for_def
      by (auto simp: l r split: sum.splits option.splits if_splits prod.splits)
    then have "nr_ID n = nid" using assms(2) by (auto simp: query_def api_def split: prod.splits)
    then show ?thesis using True nid w1 api_calls [OF r] query_calls [OF i] by (simp add: created_id_def)
  qed
qed

text \<open>The labels of the namespace are in every resource it creates.\<close>

lemma merge_labels_own:
  assumes "distinct (map fst own)" and "map_of own k = Some v"
  shows "map_of (merge_labels own ls) k = Some v"
proof -
  have "map_of (fold (\<lambda>(k, v). AList.update k v) own ls) k = Some v"
    using assms
  proof (induction own arbitrary: ls)
    case (Cons kv own)
    obtain k' v' where kv: "kv = (k', v')" by (cases kv)
    have keep: "k' \<notin> fst ` set own' \<Longrightarrow> map_of (fold (\<lambda>(k, v). AList.update k v) own' ms) k' = map_of ms k'" for own' ms
      by (induction own' arbitrary: ms) (auto simp: update_conv')
    show ?case
      using Cons.prems Cons.IH keep [of own "AList.update k' v' ls"] by (auto simp: kv update_conv' split: if_splits)
  qed simp
  then show ?thesis using assms by (simp add: merge_labels_def)
qed

definition labels_kept :: "docker_backend \<Rightarrow> docker_call list \<Rightarrow> bool" where
  "labels_kept b cs \<longleftrightarrow>
     (\<forall>n l cid k v. ContainerCreateCall n l (Some cid) \<in> set cs \<longrightarrow> map_of (db_labels b) k = Some v \<longrightarrow> map_of l k = Some v) \<and>
     (\<forall>n l nid. NetworkCreateCall n l (Some nid) \<in> set cs \<longrightarrow> l = db_labels b)"

lemma labels_kept_append [simp]: "labels_kept b (cs @ ds) \<longleftrightarrow> labels_kept b cs \<and> labels_kept b ds"
  unfolding labels_kept_def set_append by blast

lemma labels_kept_none: "created_containers cs = {} \<Longrightarrow> created_networks cs = {} \<Longrightarrow> labels_kept b cs"
  unfolding labels_kept_def created_containers_def created_networks_def by blast

lemma namespace_policy:
  assumes "Namespace h cli b name w = (Inr d, w')"
    and "\<And>nid s m s'. dc_NetworkInspect cli nid s = (Inr m, s') \<Longrightarrow> nr_ID m = nid"
  shows "\<exists>cs. calls w' = calls w @ cs \<and> policy_inv b cs d \<and> labels_kept b cs"
proof -
  obtain n c where nf: "network_for cli b name w = (Inr (n, c), w')"
    and d: "dn_policy d = db_policy b" "dn_labels d = db_labels b" "dn_network d = n" "dn_containers d = Map.empty"
      "dn_terminate d = (if c \<and> db_policy b \<noteq> ResourcePolicyReusable \<or> db_policy b = ResourcePolicyTakeOver
         then [RemoveNetwork (nr_ID n)] else [])"
    using assms(1) unfolding Namespace_def by (auto split: prod.splits sum.splits)
  from network_for_calls [OF nf assms(2)] d show ?thesis
    by (cases c) (auto simp: policy_inv_def policy_defs labels_kept_def)
qed

lemma register_policy:
  assumes "policy_inv b cs d" and "created_networks ds = {}" and "created_containers ds = (if existed then {} else {cid})"
    and "existed \<or> \<not> conn"
  shows "policy_inv b (cs @ ds) (register_container d name cid existed conn c host net wt)"
proof -
  let ?d = "register_container d name cid existed conn c host net wt"
  define ts where "ts = (if \<not> existed \<and> dn_policy d \<noteq> ResourcePolicyReusable \<or> dn_policy d = ResourcePolicyTakeOver
    then [RemoveContainer cid] else if conn then [DisconnectContainer (nr_ID (dn_network d)) cid] else [])"
  have d: "dn_policy ?d = dn_policy d" "dn_labels ?d = dn_labels d" "dn_network ?d = dn_network d"
    "dn_terminate ?d = dn_terminate d @ ts"
    "\<And>n c'. dn_containers ?d n = Some c' \<Longrightarrow> n = name \<and> ci_containerID c' = cid \<or> dn_containers d n = Some c'"
    by (auto simp: register_container_def ts_def split: if_splits)
  have "set (tl (dn_terminate d @ ts)) \<subseteq> set (tl (dn_terminate d)) \<union> set ts"
    by (cases "dn_terminate d"; cases ts) auto
  moreover have "RemoveNetwork nid \<notin> set ts" for nid by (simp add: ts_def)
  ultimately have tl: "\<forall>t \<in> set (tl (dn_terminate ?d)). \<forall>nid. t \<noteq> RemoveNetwork nid"
    using assms(1) by (auto simp: policy_inv_def d(4))
  consider (reusable) "db_policy b = ResourcePolicyReusable" | (takeover) "db_policy b = ResourcePolicyTakeOver"
    | (other) "db_policy b \<noteq> ResourcePolicyReusable" "db_policy b \<noteq> ResourcePolicyTakeOver" by blast
  then show ?thesis
  proof cases
    case reusable
    then have "set ts \<subseteq> {DisconnectContainer (nr_ID (dn_network d)) cid}"
      using assms(1) by (auto simp: ts_def policy_inv_def policy_defs)
    then show ?thesis using assms(1) tl reusable by (auto simp: policy_inv_def d)
  next
    case takeover
    then have "ts = [RemoveContainer cid]" using assms(1) by (auto simp: ts_def policy_inv_def)
    then show ?thesis
      using assms(1) tl takeover by (auto simp: policy_inv_def d(1-4) policy_defs dest!: d(5))
  next
    case other
    then have "{x. RemoveContainer x \<in> set ts} = created_containers ds" "{x. RemoveNetwork x \<in> set ts} = {}"
      using assms by (auto simp: ts_def policy_inv_def)
    then show ?thesis using assms(1,2) tl other by (auto simp: policy_inv_def d)
  qed
qed

text \<open>Every operation keeps the invariant.\<close>

lemma ns_run_policy:
  assumes "ns_run h p cli b w0 d w"
    and "\<And>nid s m s'. dc_NetworkInspect cli nid s = (Inr m, s') \<Longrightarrow> nr_ID m = nid"
  shows "\<exists>cs. calls w = calls w0 @ cs \<and> policy_inv b cs d \<and> (distinct (map fst (db_labels b)) \<longrightarrow> labels_kept b cs)"
  using assms(1)
proof (induction rule: ns_run.induct)
  case (opened name d w)
  then show ?case using namespace_policy assms(2) by blast
next
  case (created d w name c host net consist wt po out r d' w')
  then obtain cs where cs: "calls w = calls w0 @ cs" "policy_inv b cs d"
    and lk: "distinct (map fst (db_labels b)) \<Longrightarrow> labels_kept b cs" by blast
  from created.hyps(2) show ?case
  proof (cases rule: create_container_cases)
    case known
    then show ?thesis using cs lk by auto
  next
    case (failed ds)
    then have "policy_inv b (cs @ ds) d" using cs by (simp add: policy_inv_def)
    then show ?thesis using failed cs lk labels_kept_none [of ds b] by auto
  next
    case (reused cid conn)
    let ?ds = "if conn then [NetworkConnectCall (nr_ID (dn_network d)) cid [TrimPrefix name (dn_namespace d)]] else []"
    have "policy_inv b (cs @ ?ds) d'"
      unfolding reused(4) using cs by (intro register_policy) auto
    moreover have "labels_kept b ?ds" by (simp add: labels_kept_none)
    ultimately show ?thesis using reused(5) cs lk by auto
  next
    case (created cid pulls)
    let ?ds = "pulls @ [ContainerCreateCall name (Labels (labelled d c)) (Some cid)]"
    have "policy_inv b (cs @ ?ds) d'"
      unfolding created(3) using cs created_pulls [OF created(4)] by (intro register_policy) auto
    moreover have "labels_kept b ?ds" if "distinct (map fst (db_labels b))"
      using created_pulls [OF created(4)] merge_labels_own [OF that] cs(2)
      by (simp add: labels_kept_none) (simp add: labels_kept_def labelled_def policy_inv_def)
    ultimately show ?thesis using created(5) cs lk by auto
  qed
next
  case (started d w rt dl fuel name r d' w')
  then obtain cs where cs: "calls w = calls w0 @ cs" "policy_inv b cs d"
    and lk: "distinct (map fst (db_labels b)) \<Longrightarrow> labels_kept b cs" by blast
  note eff = start_container_effect [OF started.hyps(2)]
  obtain ds where ds: "calls w' = calls w @ ds" "created_containers ds = {}" "created_networks ds = {}"
    using eff(1) by blast
  have "\<exists>c. dn_containers d n = Some c \<and> ci_containerID c = ci_containerID c'" if "dn_containers d' n = Some c'" for n c'
    using eff(3) that by (metis map_option_eq_Some option.simps(9))
  then have "policy_inv b (cs @ ds) d'"
    using cs(2) eff(2) ds by (auto simp: policy_inv_def split: if_splits) metis
  then show ?case using cs lk ds labels_kept_none [of ds b] by auto
next
  case (elsewhere d w k)
  then show ?case by simp
qed

section \<open>A concrete docker\<close>

text \<open>
  A docker whose state is the list of its containers, each with its name and whether it runs. Identifiers are
  names with a prefix; every container has the port 80/tcp bound.
\<close>

definition plain_summary :: "string \<times> bool \<Rightarrow> container_summary" where
  "plain_summary c =
     \<lparr>cs_ID = ''id-'' @ fst c, cs_Names = [''/'' @ fst c], cs_Image = ''web'',
      cs_State = (if snd c then ''running'' else ''created''), cs_NetworkIDs = Some [Some ''n1'']\<rparr>"

definition plain_docker :: "((string \<times> bool) list, nat, nat, nat) docker_client" where
  "plain_docker =
     \<lparr>dc_DaemonHost = ''unix:///var/run/docker.sock'',
      dc_NetworkList = (\<lambda>_ s. (Inr [], s)),
      dc_NetworkCreate = (\<lambda>_ _ s. (Inr ''n1'', s)),
      dc_NetworkInspect = (\<lambda>nid s. (Inr \<lparr>nr_ID = nid, nr_Name = ''ns'', nr_Gateways = []\<rparr>, s)),
      dc_NetworkRemove = (\<lambda>_ s. (None, s)),
      dc_NetworkConnect = (\<lambda>_ _ _ s. (None, s)),
      dc_NetworkDisconnect = (\<lambda>_ _ _ s. (None, s)),
      dc_ImageList = (\<lambda>s. (Inr [], s)),
      dc_ImageBuild = (\<lambda>_ _ s. (Inr ([], None), s)),
      dc_ImagePull = (\<lambda>_ _ s. (Inr ([], None), s)),
      dc_ContainerList = (\<lambda>f s. (Inr (map plain_summary s), s)),
      dc_ContainerInspect = (\<lambda>_ s. (Inr \<lparr>cj_Config = None, cj_HostConfig = None,
         cj_NetworkSettings = Some ([], [(''80/tcp'', [\<lparr>pb_HostIP = ''0.0.0.0'', pb_HostPort = ''32768''\<rparr>])]),
         cj_Health = None\<rparr>, s)),
      dc_ContainerCreate = (\<lambda>_ _ _ name s. (Inr (''id-'' @ name), (name, False) # s)),
      dc_ContainerStart = (\<lambda>_ s. (None, s)),
      dc_ContainerRemove = (\<lambda>cid s. (None, filter (\<lambda>c. ''id-'' @ fst c \<noteq> cid) s)),
      dc_ContainerLogs = (\<lambda>_ s. (Inr (Inr []), s)),
      dc_ExecCreate = (\<lambda>_ _ s. (Inr ''e1'', s)),
      dc_ExecAttach = (\<lambda>_ s. (Inr ([], None), s)),
      dc_ExecInspect = (\<lambda>_ s. (Inr 0, s))\<rparr>"

definition plain_host_env :: host_env where
  "plain_host_env = \<lparr>he_ParseURL = (\<lambda>u. Inr (''unix'', '''', u)), he_DockerEnv = False, he_HostInternal = None\<rparr>"

definition plain_runtime :: "'d runtime" where
  "plain_runtime = \<lparr>rt_now = (\<lambda>_. 0), rt_select = (\<lambda>_ _ s. (Some (ErrorString ''done''), s)),
     rt_Continue = (\<lambda>_ _ _ k s. (k = 0, s))\<rparr>"

definition plain_backend :: "string \<Rightarrow> docker_backend" where
  "plain_backend policy = \<lparr>db_policy = policy, db_labels = [(LabelIdentifier, ''1'')]\<rparr>"

definition plain_host :: "nat docker_host" where
  "plain_host = host_config.extend web_host \<lparr>hc_PortBindings = [], hc_AutoRemove = True, hc_Mounts = []\<rparr>"

definition plain_world :: "(string \<times> bool) list \<Rightarrow> (string \<times> bool) list docker_world" where
  "plain_world s = \<lparr>dk = s, calls = []\<rparr>"

text \<open>The namespace of the concrete docker.\<close>

definition plain_ns :: "string \<Rightarrow> ((string \<times> bool) list, nat, nat, nat) docker_namespace" where
  "plain_ns policy =
     \<lparr>dn_policy = policy, dn_namespace = ''ns-'', dn_network = \<lparr>nr_ID = ''n1'', nr_Name = ''ns'', nr_Gateways = []\<rparr>,
      dn_hostIP = ''localhost'', dn_labels = [(LabelIdentifier, ''1'')],
      dn_terminate = (if policy \<noteq> ResourcePolicyReusable then [RemoveNetwork ''n1''] else []),
      dn_containers = Map.empty\<rparr>"

definition plain_opened :: "(string \<times> bool) list \<Rightarrow> (string \<times> bool) list docker_world" where
  "plain_opened s = \<lparr>dk = s, calls = [NetworkCreateCall ''ns'' [(LabelIdentifier, ''1'')] (Some ''n1'')]\<rparr>"

lemma plain_Namespace:
  "Namespace plain_host_env plain_docker (plain_backend policy) ''ns'' (plain_world s) =
     (Inr (plain_ns policy), plain_opened s)"
  by (simp add: Namespace_def network_for_def query_def api_def created_id_def resolveHostIP_def plain_docker_def
      plain_host_env_def plain_backend_def plain_world_def plain_ns_def plain_opened_def policy_defs)

lemma plain_inspect: "dc_NetworkInspect plain_docker nid s = (Inr m, s') \<Longrightarrow> nr_ID m = nid"
  by (auto simp: plain_docker_def)

text \<open>A request for the container \<open>ns-web\<close>, by the pull-less path and without a waiter.\<close>

abbreviation plain_create where
  "plain_create \<equiv>
     CreateContainer plain_pkgs plain_docker ''ns-web'' web_config plain_host [] False None None (\<lambda>_ s. (None, s))"

definition plain_web :: "((string \<times> bool) list, nat, nat, nat) container_info" where
  "plain_web =
     \<lparr>ci_containerID = ''id-ns-web'', ci_container = web_config\<lparr>Labels := [(LabelIdentifier, ''1'')]\<rparr>,
      ci_host = plain_host, ci_network = [], ci_ports = [], ci_wait = None, ci_running = False\<rparr>"

definition plain_ns_web :: "((string \<times> bool) list, nat, nat, nat) docker_namespace" where
  "plain_ns_web = (plain_ns ResourcePolicyReuse)\<lparr>dn_terminate := [RemoveNetwork ''n1'', RemoveContainer ''id-ns-web''],
     dn_containers := [''ns-web'' \<mapsto> plain_web]\<rparr>"

definition plain_created :: "(string \<times> bool) list docker_world" where
  "plain_created = \<lparr>dk = [(''ns-web'', False), (''other'', True)],
     calls = [NetworkCreateCall ''ns'' [(LabelIdentifier, ''1'')] (Some ''n1''),
              ContainerCreateCall ''ns-web'' [(LabelIdentifier, ''1'')] (Some ''id-ns-web'')]\<rparr>"

lemma plain_CreateContainer:
  "plain_create (plain_ns ResourcePolicyReuse) (plain_opened [(''other'', True)]) =
     (Inr (''id-ns-web'', None), plain_ns_web, plain_created)"
  by (simp add: CreateContainer_def create_new_def register_container_def query_def api_def created_id_def
      plain_docker_def plain_summary_def plain_ns_def plain_opened_def plain_ns_web_def plain_web_def plain_created_def
      web_config_def merge_labels_def policy_defs)

section \<open>Main properties\<close>

text \<open>The removals in a list of calls.\<close>

definition removed_containers :: "docker_call list \<Rightarrow> string set" where
  "removed_containers cs = {cid. ContainerRemoveCall cid \<in> set cs}"

definition removed_networks :: "docker_call list \<Rightarrow> string set" where
  "removed_networks cs = {nid. NetworkRemoveCall nid \<in> set cs}"

lemma term_call_inverse:
  "ContainerRemoveCall cid = term_call t \<longleftrightarrow> t = RemoveContainer cid"
  "NetworkRemoveCall nid = term_call t \<longleftrightarrow> t = RemoveNetwork nid"
  by (cases t; auto)+

lemma release_policy:
  assumes "ns_run h p cli b w0 d w"
    and "\<forall>nid s m s'. dc_NetworkInspect cli nid s = (Inr m, s') \<longrightarrow> nr_ID m = nid"
    and "error_packages p" and "Release_namespace p cli d w = (e, w')"
  shows "\<exists>cs rs. calls w = calls w0 @ cs \<and> calls w' = calls w @ rs \<and> removed_networks (butlast rs) = {} \<and>
    (db_policy b \<in> {ResourcePolicyError, ResourcePolicyReuse} \<longrightarrow>
       removed_containers rs = created_containers cs \<and> removed_networks rs = created_networks cs) \<and>
    (db_policy b = ResourcePolicyReusable \<longrightarrow> removed_containers rs = {} \<and> removed_networks rs = {}) \<and>
    (db_policy b = ResourcePolicyTakeOver \<longrightarrow> nr_ID (dn_network d) \<in> removed_networks rs \<and>
       (\<forall>c \<in> ran (dn_containers d). ci_containerID c \<in> removed_containers rs)) \<and>
    length rs = length (dn_terminate d) \<and>
    (e = None \<longleftrightarrow> (\<forall>x \<in> set (term_errors cli (rev (dn_terminate d)) w). x = None))"
proof -
  let ?ts = "dn_terminate d" and ?rs = "rev (map term_call (dn_terminate d))"
  obtain cs where cs: "calls w = calls w0 @ cs" and inv: "policy_inv b cs d"
    using ns_run_policy [OF assms(1)] assms(2) by blast
  have rc: "removed_containers ?rs = {cid. RemoveContainer cid \<in> set ?ts}"
    "removed_networks ?rs = {nid. RemoveNetwork nid \<in> set ?ts}"
    by (auto simp: removed_containers_def removed_networks_def image_iff term_call_inverse)
  have "butlast ?rs = rev (map term_call (tl ?ts))" by (cases ?ts) auto
  then have "removed_networks (butlast ?rs) = {}"
    using inv by (auto simp: removed_networks_def image_iff term_call_inverse policy_inv_def)
  moreover have "e = None \<longleftrightarrow> (\<forall>x \<in> set (term_errors cli (rev ?ts) w). x = None)"
    using release_errors [of p cli d w] error_packages.foldl_append_None [OF assms(3)] assms(4) by simp
  moreover have "(db_policy b \<in> {ResourcePolicyError, ResourcePolicyReuse} \<longrightarrow>
      removed_containers ?rs = created_containers cs \<and> removed_networks ?rs = created_networks cs) \<and>
    (db_policy b = ResourcePolicyReusable \<longrightarrow> removed_containers ?rs = {} \<and> removed_networks ?rs = {}) \<and>
    (db_policy b = ResourcePolicyTakeOver \<longrightarrow> nr_ID (dn_network d) \<in> removed_networks ?rs \<and>
       (\<forall>c \<in> ran (dn_containers d). ci_containerID c \<in> removed_containers ?rs))"
    using inv unfolding rc by (auto simp: policy_inv_def policy_defs ran_def)
  ultimately show ?thesis
    using cs release_calls [OF assms(4)] by (intro exI [of _ cs] exI [of _ ?rs]) simp
qed

text \<open>
  C11: Resource policies. Let a namespace be opened and used by any creations and starts of containers, while
  others use docker too. \<open>Release\<close> then issues the calls \<open>rs\<close>: with the policies error and reuse it removes exactly
  the containers and networks that the namespace has created, and never one it has found; with reusable it
  removes nothing; with takeover it removes the network and every container of the namespace, found or created.
  The network is only ever removed by the last call, after its containers. Every terminator runs, whatever the
  others return, and the error is nil exactly when all of them succeed.
\<close>

theorem release_follows_policy:
  assumes "ns_run h p cli b w0 d w"
    and "\<forall>nid s m s'. dc_NetworkInspect cli nid s = (Inr m, s') \<longrightarrow> nr_ID m = nid"
    and "error_packages p" and "Release_namespace p cli d w = (e, w')"
  shows "\<exists>cs rs. calls w = calls w0 @ cs \<and> calls w' = calls w @ rs \<and> removed_networks (butlast rs) = {} \<and>
    (db_policy b \<in> {ResourcePolicyError, ResourcePolicyReuse} \<longrightarrow>
       removed_containers rs = created_containers cs \<and> removed_networks rs = created_networks cs) \<and>
    (db_policy b = ResourcePolicyReusable \<longrightarrow> removed_containers rs = {} \<and> removed_networks rs = {}) \<and>
    (db_policy b = ResourcePolicyTakeOver \<longrightarrow> nr_ID (dn_network d) \<in> removed_networks rs \<and>
       (\<forall>c \<in> ran (dn_containers d). ci_containerID c \<in> removed_containers rs)) \<and>
    length rs = length (dn_terminate d) \<and>
    (e = None \<longleftrightarrow> (\<forall>x \<in> set (term_errors cli (rev (dn_terminate d)) w). x = None))"
  using assms by (rule release_policy)

theorem release_follows_policy_witness:
  "\<exists>rs. calls (snd (Release_namespace plain_pkgs plain_docker plain_ns_web plain_created)) = calls plain_created @ rs \<and>
     removed_containers rs = {''id-ns-web''} \<and> removed_networks rs = {''n1''}"
proof -
  have o: "ns_run plain_host_env plain_pkgs plain_docker (plain_backend ResourcePolicyReuse)
      (plain_world [(''other'', True)]) (plain_ns ResourcePolicyReuse) (plain_opened [(''other'', True)])"
    by (rule ns_run.opened, rule plain_Namespace)
  note run = ns_run.created [OF o plain_CreateContainer]
  have cs: "calls plain_created = calls (plain_world [(''other'', True)]) @ cs \<Longrightarrow>
      created_containers cs = {''id-ns-web''} \<and> created_networks cs = {''n1''}" for cs
    by (auto simp: plain_created_def plain_world_def)
  have b: "db_policy (plain_backend ResourcePolicyReuse) = ResourcePolicyReuse" by (simp add: plain_backend_def)
  show ?thesis
    using release_follows_policy [OF run _ plain.error_packages_axioms surjective_pairing] plain_inspect cs b by fastforce
qed

text \<open>
  C26: What \<open>CreateContainer\<close> does to docker. When it succeeds for a new name, it has either created one container,
  labelled with the labels of the namespace, after at most pulling its image, or attached an existing one, which
  the policy error excludes, with at most one call that connects it to the network; the container is then
  registered, not running. When it fails it has created nothing and the namespace is as before. A registered
  name is answered without any call, with the registered identifier.
\<close>

theorem create_container_effect:
  assumes "CreateContainer p cli name c host net consist wt po out d w = (r, d', w')"
  shows "case dn_containers d name of
      Some info \<Rightarrow> d' = d \<and> w' = w \<and> (\<forall>cid e. r = Inr (cid, e) \<longrightarrow> cid = ci_containerID info)
    | None \<Rightarrow>
        \<exists>cs. calls w' = calls w @ cs \<and>
          (case r of
             Inr (cid, None) \<Rightarrow>
               ((\<exists>pulls. set pulls \<subseteq> {ImagePullCall (Image c)} \<and>
                    cs = pulls @ [ContainerCreateCall name (merge_labels (dn_labels d) (Labels c)) (Some cid)]) \<or>
                dn_policy d \<noteq> ResourcePolicyError \<and>
                (cs = [] \<or> cs = [NetworkConnectCall (nr_ID (dn_network d)) cid [TrimPrefix name (dn_namespace d)]])) \<and>
               (\<exists>info. dn_containers d' = (dn_containers d)(name \<mapsto> info) \<and> ci_containerID info = cid \<and> \<not> ci_running info) \<and>
               fst (CreateContainer p cli name c2 host2 net2 False wt2 po2 out2 d' v) = Inr (cid, None) \<and>
               snd (CreateContainer p cli name c2 host2 net2 False wt2 po2 out2 d' v) = (d', v)
           | _ \<Rightarrow> d' = d \<and> created_containers cs = {} \<and> created_networks cs = {})"
  using assms
proof (cases rule: create_container_cases)
  case known
  then show ?thesis by simp
next
  case (failed cs)
  then show ?thesis by (auto split: sum.splits option.splits)
next
  case (reused cid conn)
  then show ?thesis by (auto simp: register_container_def CreateContainer_def)
next
  case (created cid pulls)
  then show ?thesis
    by (auto simp: register_container_def CreateContainer_def labelled_def intro!: exI [of _ pulls])
qed

theorem create_container_effect_witness:
  "\<exists>cs. calls plain_created = calls (plain_opened [(''other'', True)]) @ cs \<and>
     fst (plain_create plain_ns_web plain_created) = Inr (''id-ns-web'', None)"
  using create_container_effect [OF plain_CreateContainer, of web_config plain_host "[]" None None "\<lambda>_ s. (None, s)" plain_created]
  by (auto simp: plain_ns_def)

text \<open>
  C27: A container is started once, and its ports are usable. When \<open>StartContainer\<close> succeeds for a container that was
  not running, it has issued one start call; every published port that the configuration exposes has at least one
  binding, and all its bindings carry the host address of the namespace, the other ports being as docker reports
  them. Every further \<open>StartContainer\<close> returns the same ports without touching docker. After an error the
  container is still not running, so that the next call starts it again.
\<close>

theorem start_container_once:
  assumes "dn_containers d name = Some c" and "\<not> ci_running c"
    and "StartContainer rt cli dl fuel name d w = Some (Inr r, d', w')"
  shows "calls w' = calls w @ [ContainerStartCall (ci_containerID c)] \<and>
    (case r of
       Inl err \<Rightarrow> d' = d
     | Inr ports \<Rightarrow>
         (\<forall>(port, bs) \<in> set ports. port \<in> fst ` set (ExposedPorts (ci_container c)) \<longrightarrow>
            bs \<noteq> [] \<and> (\<forall>b \<in> set bs. pb_HostIP b = dn_hostIP d)) \<and>
         StartContainer rt2 cli dl2 fuel2 name d' v = Some (Inr (Inr ports), d', v))"
proof -
  let ?req = "ExposedPorts (ci_container c)" and ?start = "[ContainerStartCall (ci_containerID c)]"
  have ports: "\<forall>(port, bs) \<in> set ports. port \<in> fst ` set ?req \<longrightarrow> bs \<noteq> [] \<and> (\<forall>b \<in> set bs. pb_HostIP b = dn_hostIP d)"
    if "containerPortMap rt cli (dn_hostIP d) dl (ci_containerID c) ?req fuel k = Some (Inr (Inr ports), k')" for k ports k'
    using that by (rule port_map_bound)
  obtain e w1 where e: "api (dc_ContainerStart cli (ci_containerID c)) (\<lambda>_. ?start) w = (e, w1)"
    by (cases "api (dc_ContainerStart cli (ci_containerID c)) (\<lambda>_. ?start) w")
  show ?thesis
  proof (cases r)
    case (Inl err)
    then show ?thesis
      using assms api_calls [OF e] unfolding StartContainer_def
      by (auto simp: e split: option.splits sum.splits)
  next
    case (Inr ports')
    then obtain k where "containerPortMap rt cli (dn_hostIP d) dl (ci_containerID c) ?req fuel (dk w1) = Some (Inr (Inr ports'), k)"
      and d': "d' = d\<lparr>dn_containers := (dn_containers d)(name \<mapsto> c\<lparr>ci_running := True, ci_ports := ports'\<rparr>)\<rparr>"
      and w': "calls w' = calls w1"
      using assms unfolding StartContainer_def by (auto simp: e split: option.splits sum.splits)
    then show ?thesis
      using Inr ports api_calls [OF e] by (simp add: StartContainer_def)
  qed
qed

theorem start_container_once_witness:
  "\<exists>d' w'. StartContainer plain_runtime plain_docker None 1 ''ns-web'' plain_ns_web plain_created =
      Some (Inr (Inr [(''80/tcp'', [\<lparr>pb_HostIP = ''localhost'', pb_HostPort = ''32768''\<rparr>])]), d', w') \<and>
    StartContainer plain_runtime plain_docker None 0 ''ns-web'' d' w' =
      Some (Inr (Inr [(''80/tcp'', [\<lparr>pb_HostIP = ''localhost'', pb_HostPort = ''32768''\<rparr>])]), d', w')"
proof -
  let ?p = "[(''80/tcp'', [\<lparr>pb_HostIP = ''localhost'', pb_HostPort = ''32768''\<rparr>])]"
  have c: "dn_containers plain_ns_web ''ns-web'' = Some plain_web" "\<not> ci_running plain_web"
    by (simp_all add: plain_ns_web_def plain_web_def)
  have "\<exists>d' w'. StartContainer plain_runtime plain_docker None 1 ''ns-web'' plain_ns_web plain_created = Some (Inr (Inr ?p), d', w')"
    by (simp add: StartContainer_def c api_def containerPortMap_def plain_docker_def plain_runtime_def plain_web_def
        web_config_def ports_bound_def set_host_ip_def plain_ns_web_def plain_ns_def eval_nat_numeral)
  then obtain d' w' where s:
    "StartContainer plain_runtime plain_docker None 1 ''ns-web'' plain_ns_web plain_created = Some (Inr (Inr ?p), d', w')"
    by blast
  from start_container_once [OF c s, of plain_runtime None 0 w'] show ?thesis using s by auto
qed

end
