(* ===== verification/Docker_Runtime.thy ===== *)
theory Docker_Runtime
  imports Docker_Policy
begin

text \<open>
  Time in the docker backend: the retry loop for the ports and the waiters end, so that \<open>StartContainer\<close> returns.
  The locale \<open>docker_runtime\<close> states what is relied on: calls of docker do not turn back the clock, a timer of a
  select or of the backoff controller fires after its interval, and only while the context is not done.
\<close>

locale docker_runtime =
  fixes rt :: "'d runtime" and cli :: "('d, 'h, 'i, 'x) docker_client"
  assumes start_time: "rt_now rt s \<le> rt_now rt (snd (dc_ContainerStart cli cid s))"
    and inspect_time: "rt_now rt s \<le> rt_now rt (snd (dc_ContainerInspect cli cid s))"
    and logs_time: "rt_now rt s \<le> rt_now rt (snd (dc_ContainerLogs cli cid s))"
    and exec_create_time: "rt_now rt s \<le> rt_now rt (snd (dc_ExecCreate cli cid cmd s))"
    and exec_attach_time: "rt_now rt s \<le> rt_now rt (snd (dc_ExecAttach cli eid s))"
    and exec_inspect_time: "rt_now rt s \<le> rt_now rt (snd (dc_ExecInspect cli eid s))"
    and select_time: "rt_select rt iv dl s = (None, s') \<Longrightarrow> 0 < iv \<Longrightarrow> rt_now rt s < dl \<and> rt_now rt s + iv \<le> rt_now rt s'"
    and continue_time: "rt_Continue rt iv n dl k s = (True, s') \<Longrightarrow> 0 < iv \<Longrightarrow>
      rt_now rt s \<le> rt_now rt s' \<and> (0 < k \<longrightarrow> rt_now rt s < dl \<and> rt_now rt s + iv \<le> rt_now rt s')"
begin

text \<open>A pass of the retry loop that goes on is followed by a wait of one interval before the deadline.\<close>

lemma port_loop_ends:
  assumes "0 < k" and "dl - rt_now rt s \<le> int n * 200000000" and "n < fuel"
  shows "\<exists>r. port_loop rt cli ip cid req dl fuel k s = Some r"
  using assms
proof (induction n arbitrary: fuel k s)
  case 0
  then obtain f where f: "fuel = Suc f" by (cases fuel) auto
  have "\<not> fst (rt_Continue rt 200000000 0 dl k s)"
    using 0 continue_time [of "200000000" 0 dl k s] by (cases "rt_Continue rt 200000000 0 dl k s") auto
  then show ?case by (auto simp: f split: prod.splits bool.splits)
next
  case (Suc n)
  then obtain f where f: "fuel = Suc f" and nf: "n < f" by (cases fuel) auto
  obtain c s1 where c: "rt_Continue rt 200000000 0 dl k s = (c, s1)" by (cases "rt_Continue rt 200000000 0 dl k s")
  obtain i s2 where i: "dc_ContainerInspect cli cid s1 = (i, s2)" by (cases "dc_ContainerInspect cli cid s1")
  have "\<exists>r. port_loop rt cli ip cid req dl f (Suc k) s2 = Some r" if c
  proof (rule Suc.IH)
    have "rt_now rt s + 200000000 \<le> rt_now rt s2"
      using that c i Suc.prems(1) continue_time [of "200000000" 0 dl k s s1] inspect_time [of s1 cid] by auto
    then show "dl - rt_now rt s2 \<le> int n * 200000000" using Suc.prems(2) by (simp add: algebra_simps)
  qed (simp_all add: nf)
  then show ?case by (cases c) (auto simp: f c i split: sum.splits option.splits)
qed

lemma first_pass_ends:
  assumes "dl - rt_now rt s \<le> int n * 200000000" and "Suc n < fuel"
  shows "\<exists>r. port_loop rt cli ip cid req dl fuel 0 s = Some r"
proof -
  obtain f where f: "fuel = Suc f" and nf: "n < f" using assms(2) by (cases fuel) auto
  obtain c s1 where c: "rt_Continue rt 200000000 0 dl 0 s = (c, s1)" by (cases "rt_Continue rt 200000000 0 dl 0 s")
  obtain i s2 where i: "dc_ContainerInspect cli cid s1 = (i, s2)" by (cases "dc_ContainerInspect cli cid s1")
  have "\<exists>r. port_loop rt cli ip cid req dl f (Suc 0) s2 = Some r" if c
  proof (rule port_loop_ends)
    show "dl - rt_now rt s2 \<le> int n * 200000000"
      using that c i assms(1) continue_time [of "200000000" 0 dl 0 s s1] inspect_time [of s1 cid] by auto
  qed (simp_all add: nf)
  then show ?thesis by (cases c) (auto simp: f c i split: sum.splits option.splits)
qed

text \<open>With a context whose remaining time is at most \<open>T\<close>, or without a deadline, 30 seconds.\<close>

lemma port_map_ends:
  assumes "30 * 1000000000 \<le> T" and "\<And>t. deadline = Some t \<Longrightarrow> t - rt_now rt s \<le> T"
    and "nat (T div 200000000) + 2 < fuel"
  shows "\<exists>r. containerPortMap rt cli ip deadline cid req fuel s = Some r"
proof -
  let ?dl = "case deadline of Some t \<Rightarrow> t | None \<Rightarrow> rt_now rt s + 30 * 1000000000"
  let ?n = "Suc (nat (T div 200000000))"
  have "T \<le> int ?n * 200000000"
    using assms(1) mult_div_le_next [of "200000000" T] by (simp add: pos_imp_zdiv_nonneg_iff)
  then have "?dl - rt_now rt s \<le> int ?n * 200000000"
    using assms(1,2) by (cases deadline) auto
  from first_pass_ends [OF this, of fuel ip cid req] assms(3) show ?thesis
    by (auto simp: containerPortMap_def Let_def)
qed

text \<open>The built-in checks, on the fetcher of a container, are proper checks of a waiter.\<close>

lemma fetcher_status_time: "rt_now rt s \<le> rt_now rt (snd (ft_Status (fetcher_of cli cid ports) s))"
  using inspect_time [of s cid] by (auto simp: fetcher_of_def split: prod.splits sum.splits)

lemma fetcher_exec_time: "rt_now rt s \<le> rt_now rt (snd (ft_Exec (fetcher_of cli cid ports) cmd s))"
proof -
  obtain a s1 where a: "dc_ExecCreate cli cid cmd s = (a, s1)" by (cases "dc_ExecCreate cli cid cmd s")
  have 1: "rt_now rt s \<le> rt_now rt s1" using exec_create_time [of s cid cmd] a by simp
  have 2: "rt_now rt s1 \<le> rt_now rt s2" if "dc_ExecAttach cli e s1 = (b, s2)" for e b s2
    using exec_attach_time [of s1 e] that by simp
  have 3: "rt_now rt s2 \<le> rt_now rt s3" if "dc_ExecInspect cli e s2 = (b, s3)" for e b s2 s3
    using exec_inspect_time [of s2 e] that by simp
  show ?thesis
    using 1 by (auto simp: fetcher_of_def a Let_def split: prod.splits sum.splits option.splits dest!: 2 3)
qed

end

sublocale docker_runtime \<subseteq> healthy: wait_runtime "rt_now rt" "CheckHealthy (fetcher_of cli cid ports)" "rt_select rt" for cid ports
proof unfold_locales
  show "rt_now rt s \<le> rt_now rt (snd (CheckHealthy (fetcher_of cli cid ports) s))" for s
    using fetcher_status_time [of s cid ports] by (auto simp: CheckHealthy_def split: prod.splits sum.splits)
qed (rule select_time)

sublocale docker_runtime \<subseteq> log: wait_runtime "rt_now rt" "CheckLogOccurrence (fetcher_of cli cid ports) msg n" "rt_select rt"
  for cid ports msg n
proof unfold_locales
  show "rt_now rt s \<le> rt_now rt (snd (CheckLogOccurrence (fetcher_of cli cid ports) msg n s))" for s
    using logs_time [of s cid] by (auto simp: CheckLogOccurrence_def fetcher_of_def split: prod.splits sum.splits)
qed (rule select_time)

sublocale docker_runtime \<subseteq> command: wait_runtime "rt_now rt" "CheckCommandSucceeds (fetcher_of cli cid ports) cmd" "rt_select rt"
  for cid ports cmd
proof unfold_locales
  show "rt_now rt s \<le> rt_now rt (snd (CheckCommandSucceeds (fetcher_of cli cid ports) cmd s))" for s
    using fetcher_exec_time [of s cid ports cmd] by (auto simp: CheckCommandSucceeds_def split: prod.splits)
qed (rule select_time)

section \<open>A docker with a clock\<close>

text \<open>
  The state is the time in nanoseconds; an inspection takes a millisecond. The port is bound after one second,
  and the container is healthy after two.
\<close>

definition clock_docker :: "(int, nat, nat, nat) docker_client" where
  "clock_docker =
     \<lparr>dc_DaemonHost = '''', dc_NetworkList = (\<lambda>_ s. (Inr [], s)), dc_NetworkCreate = (\<lambda>_ _ s. (Inr ''n1'', s)),
      dc_NetworkInspect = (\<lambda>nid s. (Inr \<lparr>nr_ID = nid, nr_Name = ''ns'', nr_Gateways = []\<rparr>, s)),
      dc_NetworkRemove = (\<lambda>_ s. (None, s)), dc_NetworkConnect = (\<lambda>_ _ _ s. (None, s)),
      dc_NetworkDisconnect = (\<lambda>_ _ _ s. (None, s)), dc_ImageList = (\<lambda>s. (Inr [], s)),
      dc_ImageBuild = (\<lambda>_ _ s. (Inr ([], None), s)), dc_ImagePull = (\<lambda>_ _ s. (Inr ([], None), s)),
      dc_ContainerList = (\<lambda>_ s. (Inr [], s)),
      dc_ContainerInspect = (\<lambda>_ s. (Inr \<lparr>cj_Config = None, cj_HostConfig = None,
         cj_NetworkSettings = Some ([], [(''80/tcp'',
            if s < 1000000000 then [] else [\<lparr>pb_HostIP = ''0.0.0.0'', pb_HostPort = ''32768''\<rparr>])]),
         cj_Health = Some (if s < 2000000000 then ''starting'' else ''healthy'')\<rparr>, s + 1000000)),
      dc_ContainerCreate = (\<lambda>_ _ _ _ s. (Inr ''c1'', s)), dc_ContainerStart = (\<lambda>_ s. (None, s)),
      dc_ContainerRemove = (\<lambda>_ s. (None, s)), dc_ContainerLogs = (\<lambda>_ s. (Inr (Inr []), s)),
      dc_ExecCreate = (\<lambda>_ _ s. (Inr ''e1'', s)), dc_ExecAttach = (\<lambda>_ s. (Inr ([], None), s)),
      dc_ExecInspect = (\<lambda>_ s. (Inr 0, s))\<rparr>"

definition clock_runtime :: "int runtime" where
  "clock_runtime =
     \<lparr>rt_now = id, rt_select = clock_select,
      rt_Continue = (\<lambda>iv _ dl k s. if k = 0 then (s < dl, s) else (s + iv < dl, s + iv))\<rparr>"

interpretation clocked: docker_runtime clock_runtime clock_docker
  by unfold_locales (auto simp: clock_docker_def clock_runtime_def clock_select_def split: if_splits)

section \<open>Main properties\<close>


text \<open>A container of the docker with a clock, awaited with the built-in health check.\<close>

definition clock_ns :: "(int, nat, nat, nat) docker_namespace" where
  "clock_ns =
     \<lparr>dn_policy = ResourcePolicyReuse, dn_namespace = ''ns-'', dn_network = \<lparr>nr_ID = ''n1'', nr_Name = ''ns'', nr_Gateways = []\<rparr>,
      dn_hostIP = ''localhost'', dn_labels = [], dn_terminate = [],
      dn_containers = [''ns-web'' \<mapsto>
        \<lparr>ci_containerID = ''c1'', ci_container = web_config, ci_host = plain_host, ci_network = [], ci_ports = [],
         ci_wait = Some (\<lambda>f. Healthy f []), ci_running = False\<rparr>]\<rparr>"


end
