(* ===== verification/Confort_Api.thy ===== *)
theory Confort_Api
  imports Beacon_Server Docker_Runtime
begin

text \<open>
  confort.go: the API of the library. \<open>New\<close> reads the environment and its options, connects to the beacon server,
  opens the namespace under the namespace lock and yields a \<open>Confort\<close>; \<open>Build\<close> and \<open>Run\<close> work under the build and
  setup locks; \<open>Use\<close> and \<open>Acquire\<close> hand over to the exclusion control; \<open>Close\<close> releases.

  The packages and the surroundings are parameters (record \<open>deps\<close>). \<open>exclusion.Control\<close> is an interface: record
  \<open>control\<close>, with the in-process one built from the Locker (\<open>NewControl\<close>). Values of third-party types that are
  only passed on have the type \<open>'x\<close>. Debug and info messages are left out.
\<close>

section \<open>State\<close>

text \<open>
  A context: its deadline, whether it is done, and the error that a call interrupted by it returns. The lock
  operations get whether the context is done.
\<close>

record go_ctx =
  cx_deadline :: "int option"
  cx_done :: bool
  cx_err :: go_error

record 'l control =
  ct_LockForNamespace :: "'l \<Rightarrow> 'l outcome"
  ct_UnlockNamespace :: "'l \<Rightarrow> go_panic + 'l"
  ct_LockForBuild :: "bool \<Rightarrow> 'l \<Rightarrow> string \<Rightarrow> 'l outcome"
  ct_UnlockBuild :: "'l \<Rightarrow> string \<Rightarrow> go_panic + 'l"
  ct_LockForContainerSetup :: "bool \<Rightarrow> 'l \<Rightarrow> string \<Rightarrow> 'l outcome"
  ct_UnlockContainerSetup :: "'l \<Rightarrow> string \<Rightarrow> go_panic + 'l"
  ct_LockForContainerUse :: "(string, use_param) go_map \<Rightarrow> 'l \<Rightarrow> ((go_error + nat) \<times> 'l) option"
  ct_UnlockContainerUse :: "nat \<Rightarrow> 'l \<Rightarrow> go_panic + 'l"

text \<open>
  \<open>exclusion.NewControl\<close>: the locks of the Locker. Acquisitions of containers go through its transition system,
  given by the two last arguments.
\<close>

definition NewControl ::
  "'s sem_ops \<Rightarrow> ((string, use_param) go_map \<Rightarrow> ('s, 'o) locker \<Rightarrow> ((go_error + nat) \<times> ('s, 'o) locker) option) \<Rightarrow>
     (nat \<Rightarrow> ('s, 'o) locker \<Rightarrow> go_panic + ('s, 'o) locker) \<Rightarrow> ('s, 'o) locker control" where
  "NewControl so acquire release =
     \<lparr>ct_LockForNamespace = LockForNamespace, ct_UnlockNamespace = UnlockNamespace,
      ct_LockForBuild = LockForBuild so, ct_UnlockBuild = UnlockBuild so,
      ct_LockForContainerSetup = LockForContainerSetup so, ct_UnlockContainerSetup = UnlockContainerSetup so,
      ct_LockForContainerUse = acquire, ct_UnlockContainerUse = release\<rparr>"

record ('w, 'c, 'd, 'h, 'i, 'x, 'l) deps =
  dp_os :: "'w file_api"
  dp_grpc :: "('w, 'c) grpc_api"
  dp_env :: environment
  dp_hash :: "string \<Rightarrow> string"
  dp_host :: host_env
  dp_pkgs :: "('h, 'i) err_pkgs"
  dp_FromEnv :: 'x
  dp_NewClient :: "'x list \<Rightarrow> go_error + ('d, 'h, 'i, 'x) docker_client"
  dp_NewControl :: "'l control"
  dp_NewBeaconControl :: "'c \<Rightarrow> 'l control"
  dp_archive :: "('w, 'x) archive_api"
  dp_ParsePortSpecs :: "string list \<Rightarrow> go_error + ((string, unit) go_map \<times> port_map)"
  dp_runtime :: "'d runtime"

text \<open>The surroundings of a process: operating system, docker, the locks of the control, and the log level.\<close>

record ('w, 'd, 'l) api_world =
  aw_os :: 'w
  aw_docker :: "'d docker_world"
  aw_locks :: 'l
  aw_log :: log_state

record ('c, 'd, 'h, 'i, 'x, 'l) confort =
  cf_backend :: docker_backend
  cf_namespace :: "('d, 'h, 'i, 'x) docker_namespace"
  cf_cli :: "('d, 'h, 'i, 'x) docker_client"
  cf_defaultTimeout :: int
  cf_ex :: "'l control"
  cf_beaconConn :: "'c connection option"
  cf_skipDeletion :: bool

definition APIClient :: "('c, 'd, 'h, 'i, 'x, 'l) confort \<Rightarrow> ('d, 'h, 'i, 'x) docker_client" where
  "APIClient cft = cf_cli cft"

definition confort_Namespace :: "('c, 'd, 'h, 'i, 'x, 'l) confort \<Rightarrow> string" where
  "confort_Namespace cft = namespace_Namespace (cf_namespace cft)"

definition confort_Network :: "('c, 'd, 'h, 'i, 'x, 'l) confort \<Rightarrow> network_resource" where
  "confort_Network cft = namespace_Network (cf_namespace cft)"

declare confort_Namespace_def [simp] confort_Network_def [simp]

definition applyTimeout :: "int \<Rightarrow> go_ctx \<Rightarrow> int \<Rightarrow> go_ctx" where
  "applyTimeout now ctx timeout =
     (if timeout = 0 then ctx
      else
        (case cx_deadline ctx of
           Some _ \<Rightarrow> ctx
         | None \<Rightarrow> ctx\<lparr>cx_deadline := Some (now + timeout)\<rparr>))"

definition clock_of :: "('w, 'c, 'd, 'h, 'i, 'x, 'l) deps \<Rightarrow> ('w, 'd, 'l) api_world \<Rightarrow> int" where
  "clock_of dp w = rt_now (dp_runtime dp) (dk (aw_docker w))"

text \<open>
  The pattern of the lock users: take the lock, return the wrapped error of a refused lock, otherwise run the rest
  with the deferred unlock. \<open>None\<close>: the call has not returned.
\<close>

definition with_lock ::
  "('l \<Rightarrow> 'l outcome) \<Rightarrow> ('l \<Rightarrow> go_panic + 'l) \<Rightarrow> 'r \<Rightarrow> (go_panic \<Rightarrow> 'r \<Rightarrow> 'r) \<Rightarrow>
     (('w, 'd, 'l) api_world \<Rightarrow> ('r \<times> ('w, 'd, 'l) api_world) option) \<Rightarrow>
     ('w, 'd, 'l) api_world \<Rightarrow> ('r \<times> ('w, 'd, 'l) api_world) option" where
  "with_lock lock unlock refused panics body w =
     (case lock (aw_locks w) of
        Waits l \<Rightarrow> None
      | CtxErr l \<Rightarrow> Some (refused, w\<lparr>aw_locks := l\<rparr>)
      | Granted l \<Rightarrow>
          (case body (w\<lparr>aw_locks := l\<rparr>) of
             None \<Rightarrow> None
           | Some (r, w') \<Rightarrow>
               (case unlock (aw_locks w') of
                  Inl pn \<Rightarrow> Some (panics pn r, w')
                | Inr l' \<Rightarrow> Some (r, w'\<lparr>aw_locks := l'\<rparr>))))"

definition confort_err :: "go_error \<Rightarrow> go_error" where
  "confort_err e = Wrapped ''confort: '' e"

section \<open>New and Close\<close>

datatype 'x new_option =
    WithClientOptions "'x list"
  | WithNamespace string bool
  | WithDefaultTimeout int
  | WithResourcePolicy string
  | WithBeacon

text \<open>The variables that the options set.\<close>

record ('c, 'x, 'l) new_vars =
  nv_skipDeletion :: bool
  nv_beaconConn :: "'c connection option"
  nv_ex :: "'l control"
  nv_clientOps :: "'x list"
  nv_namespace :: string
  nv_timeout :: int
  nv_policy :: string

fun new_options ::
  "('w, 'c, 'd, 'h, 'i, 'x, 'l) deps \<Rightarrow> nat \<Rightarrow> 'x new_option list \<Rightarrow> ('c, 'x, 'l) new_vars \<Rightarrow> 'w \<Rightarrow>
     ((go_error + ('c, 'x, 'l) new_vars) \<times> 'w) option" where
  "new_options dp fuel [] v os = Some (Inr v, os)"
| "new_options dp fuel (WithClientOptions opts # rest) v os =
     new_options dp fuel rest (v\<lparr>nv_clientOps := opts\<rparr>) os"
| "new_options dp fuel (WithNamespace ns force # rest) v os =
     new_options dp fuel rest (if nv_namespace v = '''' \<or> force then v\<lparr>nv_namespace := ns\<rparr> else v) os"
| "new_options dp fuel (WithDefaultTimeout d # rest) v os =
     new_options dp fuel rest (v\<lparr>nv_timeout := d\<rparr>) os"
| "new_options dp fuel (WithResourcePolicy s # rest) v os =
     new_options dp fuel rest (v\<lparr>nv_policy := s\<rparr>) os"
| "new_options dp fuel (WithBeacon # rest) v os =
     (case connect (dp_os dp) (dp_grpc dp) (dp_env dp) fuel os of
        None \<Rightarrow> None
      | Some (Inl err, os') \<Rightarrow> Some (Inl err, os')
      | Some (Inr conn, os') \<Rightarrow>
          new_options dp fuel rest
            (case Conn conn of
               None \<Rightarrow> v
             | Some cc \<Rightarrow> v\<lparr>nv_ex := dp_NewBeaconControl dp cc, nv_skipDeletion := True, nv_beaconConn := Some conn\<rparr>) os')"

definition new_defaults :: "('w, 'c, 'd, 'h, 'i, 'x, 'l) deps \<Rightarrow> ('c, 'x, 'l) new_vars" where
  "new_defaults dp =
     \<lparr>nv_skipDeletion = False, nv_beaconConn = None, nv_ex = dp_NewControl dp, nv_clientOps = [dp_FromEnv dp],
      nv_namespace = Getenv (dp_env dp) NamespaceEnv, nv_timeout = 60 * 1000000000,
      nv_policy = Getenv (dp_env dp) ResourcePolicyEnv\<rparr>"

text \<open>The deferred close of the connection when \<open>New\<close> fails.\<close>

definition close_beacon ::
  "('w, 'c, 'd, 'h, 'i, 'x, 'l) deps \<Rightarrow> 'c connection option \<Rightarrow> 'w \<Rightarrow> 'w" where
  "close_beacon dp conn os = (case conn of None \<Rightarrow> os | Some c \<Rightarrow> snd (Close_connection (dp_grpc dp) c os))"

definition open_namespace ::
  "('w, 'c, 'd, 'h, 'i, 'x, 'l) deps \<Rightarrow> go_ctx \<Rightarrow> ('c, 'x, 'l) new_vars \<Rightarrow> string \<Rightarrow> ('d, 'h, 'i, 'x) docker_client \<Rightarrow>
     ('w, 'd, 'l) api_world \<Rightarrow>
     ((go_panic + (go_error + ('c, 'd, 'h, 'i, 'x, 'l) confort)) \<times> ('w, 'd, 'l) api_world) option" where
  "open_namespace dp ctx v policy cli w =
     (let beaconAddr = (case nv_beaconConn v of Some c \<Rightarrow> if Conn c \<noteq> None then Addr c else '''' | None \<Rightarrow> '''');
          backend = \<lparr>db_policy = policy, db_labels = [(LabelIdentifier, Identifier (dp_hash dp) (dp_env dp) beaconAddr)]\<rparr>
      in with_lock (ct_LockForNamespace (nv_ex v)) (ct_UnlockNamespace (nv_ex v))
           (Inr (Inl (confort_err (cx_err ctx)))) (\<lambda>pn _. Inl pn)
           (\<lambda>w. case Namespace (dp_host dp) cli backend (nv_namespace v) (aw_docker w) of
              (Inl err, dw) \<Rightarrow> Some (Inr (Inl (confort_err err)), w\<lparr>aw_docker := dw\<rparr>)
            | (Inr ns, dw) \<Rightarrow>
                Some (Inr (Inr \<lparr>cf_backend = backend, cf_namespace = ns, cf_cli = cli, cf_defaultTimeout = nv_timeout v,
                  cf_ex = nv_ex v, cf_beaconConn = nv_beaconConn v, cf_skipDeletion = nv_skipDeletion v\<rparr>),
                  w\<lparr>aw_docker := dw\<rparr>)) w)"

definition New_confort ::
  "('w, 'c, 'd, 'h, 'i, 'x, 'l) deps \<Rightarrow> go_ctx \<Rightarrow> nat \<Rightarrow> 'x new_option list \<Rightarrow> ('w, 'd, 'l) api_world \<Rightarrow>
     ((go_panic + (go_error + ('c, 'd, 'h, 'i, 'x, 'l) confort)) \<times> ('w, 'd, 'l) api_world) option" where
  "New_confort dp ctx fuel opts w0 =
     (let w = w0\<lparr>aw_log := lazyInit (dp_env dp) (aw_log w0)\<rparr> in
      case new_options dp fuel opts (new_defaults dp) (aw_os w) of
        None \<Rightarrow> None
      | Some (Inl err, os) \<Rightarrow> Some (Inr (Inl err), w\<lparr>aw_os := os\<rparr>)
      | Some (Inr v, os) \<Rightarrow>
          (let w1 = w\<lparr>aw_os := os\<rparr>;
               failed = (\<lambda>e w. Some (Inr (Inl e), w\<lparr>aw_os := close_beacon dp (nv_beaconConn v) (aw_os w)\<rparr>));
               policy = (if nv_policy v = '''' then ResourcePolicyReuse else nv_policy v)
           in if nv_namespace v = '''' then failed (ErrorString ''confort: empty namespace'') w1
              else if \<not> ValidResourcePolicy policy
              then failed (Errorf ''confort: invalid resource policy: %s'' [policy]) w1
              else
                (case dp_NewClient dp (nv_clientOps v) of
                   Inl err \<Rightarrow> failed (confort_err err) w1
                 | Inr cli \<Rightarrow>
                     (case open_namespace dp (applyTimeout (clock_of dp w1) ctx (nv_timeout v)) v policy cli w1 of
                        None \<Rightarrow> None
                      | Some (Inr (Inl e), w2) \<Rightarrow> failed e w2
                      | Some (r, w2) \<Rightarrow> Some (r, w2)))))"

text \<open>\<open>Close\<close> runs the closure \<open>term\<close> of \<open>New\<close>.\<close>

definition Close_confort ::
  "('w, 'c, 'd, 'h, 'i, 'x, 'l) deps \<Rightarrow> ('c, 'd, 'h, 'i, 'x, 'l) confort \<Rightarrow> ('w, 'd, 'l) api_world \<Rightarrow>
     (go_panic + go_error option) \<times> ('w, 'd, 'l) api_world" where
  "Close_confort dp cft w =
     (case (case cf_beaconConn cft of
              Some c \<Rightarrow> if Conn c \<noteq> None then Close_connection (dp_grpc dp) c (aw_os w) else (Inr None, aw_os w)
            | None \<Rightarrow> (Inr None, aw_os w)) of
        (Inl pn, os) \<Rightarrow> (Inl pn, w\<lparr>aw_os := os\<rparr>)
      | (Inr err, os) \<Rightarrow>
          (if cf_skipDeletion cft then (Inr err, w\<lparr>aw_os := os\<rparr>)
           else
             (case Release_namespace (dp_pkgs dp) (cf_cli cft) (cf_namespace cft) (aw_docker w) of
                (e, dw) \<Rightarrow> (Inr (Append (dp_pkgs dp) err e), w\<lparr>aw_os := os, aw_docker := dw\<rparr>))))"

section \<open>Build\<close>

text \<open>Writers: \<open>io.Discard\<close> or another one; a nil writer is \<open>None\<close>.\<close>

datatype 'd writer = Discard | Writer "string \<Rightarrow> 'd \<Rightarrow> go_error option \<times> 'd"

primrec write_to :: "'d writer \<Rightarrow> string \<Rightarrow> 'd \<Rightarrow> go_error option \<times> 'd" where
  "write_to Discard s d = (None, d)"
| "write_to (Writer f) s d = f s d"

definition is_discard :: "'d writer \<Rightarrow> bool" where
  "is_discard out = (case out of Discard \<Rightarrow> True | Writer _ \<Rightarrow> False)"

datatype ('d, 'x) build_option =
    WithImageBuildOptions "('x build_options \<Rightarrow> 'x build_options) option"
  | WithForceBuild
  | WithBuildOutput "'d writer option"

fun build_opts ::
  "('d, 'x) build_option list \<Rightarrow> ('x build_options \<Rightarrow> 'x build_options) option \<times> bool \<times> 'd writer \<Rightarrow>
     ('x build_options \<Rightarrow> 'x build_options) option \<times> bool \<times> 'd writer" where
  "build_opts [] v = v"
| "build_opts (WithImageBuildOptions f # rest) (g, force, out) = build_opts rest (f, force, out)"
| "build_opts (WithForceBuild # rest) (g, force, out) = build_opts rest (g, True, out)"
| "build_opts (WithBuildOutput dst # rest) (g, force, out) =
     build_opts rest (g, force, case dst of None \<Rightarrow> out | Some o' \<Rightarrow> o')"

record 'x build_params =
  bp_Image :: string
  bp_Dockerfile :: string
  bp_ContextDir :: string
  bp_BuildArgs :: "(string, string option) go_map"
  bp_RegistryAuth :: "(string, 'x) go_map"
  bp_Platform :: string

definition Build ::
  "('w, 'c, 'd, 'h, 'i, 'x, 'l) deps \<Rightarrow> ('c, 'd, 'h, 'i, 'x, 'l) confort \<Rightarrow> go_ctx \<Rightarrow> 'x build_params \<Rightarrow>
     ('d, 'x) build_option list \<Rightarrow> ('w, 'd, 'l) api_world \<Rightarrow>
     ((go_panic + go_error option) \<times> ('w, 'd, 'l) api_world) option" where
  "Build dp cft ctx0 b opts w =
     (let ctx = applyTimeout (clock_of dp w) ctx0 (cf_defaultTimeout cft);
          (modify, force, buildOut) = build_opts opts (None, False, Discard)
      in case createArchive (dp_archive dp) (bp_ContextDir b) (bp_Dockerfile b) (aw_os w) of
           (Inl err, os) \<Rightarrow> Some (Inr (Some (confort_err err)), w\<lparr>aw_os := os\<rparr>)
         | (Inr (tarball, relDockerfile), os) \<Rightarrow>
             (let w1 = w\<lparr>aw_os := os\<rparr>;
                  option0 = \<lparr>bo_Tags = [bp_Image b], bo_SuppressOutput = is_discard buildOut, bo_Remove = True,
                    bo_PullParent = True, bo_Dockerfile = relDockerfile, bo_BuildArgs = bp_BuildArgs b,
                    bo_AuthConfigs = bp_RegistryAuth b, bo_Platform = bp_Platform b\<rparr>;
                  buildOption = (case modify of None \<Rightarrow> option0 | Some f \<Rightarrow> f option0)
              in case bo_Tags buildOption of
                   [] \<Rightarrow> Some (Inr (Some (ErrorString ''confort: image tag not specified'')), w1)
                 | tag # _ \<Rightarrow>
                     with_lock (\<lambda>l. ct_LockForBuild (cf_ex cft) (cx_done ctx) l tag) (\<lambda>l. ct_UnlockBuild (cf_ex cft) l tag)
                       (Inr (Some (confort_err (cx_err ctx)))) (\<lambda>pn _. Inl pn)
                       (\<lambda>w. case BuildImage (dp_pkgs dp) (cf_cli cft) tarball buildOption force (write_to buildOut) (aw_docker w) of
                          (r, dw) \<Rightarrow> Some (map_sum id (map_option confort_err) r, w\<lparr>aw_docker := dw\<rparr>)) w1))"

section \<open>Run\<close>

datatype ('d, 'h, 'i, 'x) run_option =
    WithContainerConfig "('h container_config \<Rightarrow> 'h container_config) option"
  | WithHostConfig "('x docker_host \<Rightarrow> 'x docker_host) option"
  | WithNetworkingConfig "('i networks \<Rightarrow> 'i networks) option"
  | WithConfigConsistency bool
  | WithPullOptions "'x option" "'d writer option"

record ('d, 'h, 'i, 'x) run_vars =
  rv_container :: "('h container_config \<Rightarrow> 'h container_config) option"
  rv_host :: "('x docker_host \<Rightarrow> 'x docker_host) option"
  rv_networking :: "('i networks \<Rightarrow> 'i networks) option"
  rv_consistency :: bool
  rv_pullOpts :: "'x option"
  rv_pullOut :: "'d writer"

fun run_opts :: "('d, 'h, 'i, 'x) run_option list \<Rightarrow> ('d, 'h, 'i, 'x) run_vars \<Rightarrow> ('d, 'h, 'i, 'x) run_vars" where
  "run_opts [] v = v"
| "run_opts (WithContainerConfig f # rest) v = run_opts rest (v\<lparr>rv_container := f\<rparr>)"
| "run_opts (WithHostConfig f # rest) v = run_opts rest (v\<lparr>rv_host := f\<rparr>)"
| "run_opts (WithNetworkingConfig f # rest) v = run_opts rest (v\<lparr>rv_networking := f\<rparr>)"
| "run_opts (WithConfigConsistency b # rest) v = run_opts rest (v\<lparr>rv_consistency := b\<rparr>)"
| "run_opts (WithPullOptions opts out # rest) v =
     run_opts rest (v\<lparr>rv_pullOpts := opts, rv_pullOut := (case out of None \<Rightarrow> rv_pullOut v | Some o' \<Rightarrow> o')\<rparr>)"

record ('d, 'x) container_params =
  cp_Name :: string
  cp_Image :: string
  cp_Env :: "(string, string) go_map"
  cp_Entrypoint :: "string list"
  cp_Cmd :: "string list"
  cp_WorkingDir :: string
  cp_ExposedPorts :: "string list"
  cp_StopTimeout :: "int option"
  cp_Mounts :: "'x list"
  cp_Waiter :: "('d fetcher \<Rightarrow> 'd waiter) option"

definition modified :: "('a \<Rightarrow> 'a) option \<Rightarrow> 'a \<Rightarrow> 'a" where
  "modified f x = (case f of None \<Rightarrow> x | Some g \<Rightarrow> g x)"

text \<open>The three configurations before the user's functions are applied; all other fields have their zero values.\<close>

definition base_container :: "('d, 'x) container_params \<Rightarrow> (string, unit) go_map \<Rightarrow> 'h container_config" where
  "base_container c portSet =
     \<lparr>Hostname = '''', Domainname = '''', User = '''', ExposedPorts = portSet,
      Env = map (\<lambda>(k, v). k @ ''='' @ v) (cp_Env c), Cmd = cp_Cmd c, Healthcheck = None, ArgsEscaped = False,
      Image = cp_Image c, Volumes = [], WorkingDir = cp_WorkingDir c, Entrypoint = cp_Entrypoint c, MacAddress = '''',
      Labels = [], StopSignal = '''', StopTimeout = cp_StopTimeout c, Shell = []\<rparr>"

definition base_host :: "('d, 'x) container_params \<Rightarrow> port_map \<Rightarrow> 'x docker_host" where
  "base_host c portBindings =
     \<lparr>Binds = [], NetworkMode = '''', RestartPolicyName = '''', VolumeDriver = '''', VolumesFrom = [],
      CapAdd = [], CapDrop = [], CgroupnsMode = '''', DNS = [], DNSOptions = [], DNSSearch = [],
      ExtraHosts = [], GroupAdd = [], IpcMode = '''', Cgroup = '''', HostLinks = [], PidMode = '''',
      Privileged = False, PublishAllPorts = False, ReadonlyRootfs = False, SecurityOpt = [],
      StorageOpt = [], Tmpfs = [],
      hc_PortBindings = portBindings, hc_AutoRemove = True, hc_Mounts = cp_Mounts c\<rparr>"

definition base_networking :: "network_resource \<Rightarrow> string \<Rightarrow> 'i networks" where
  "base_networking nw alias =
     [(nr_Name nw, Some \<lparr>IPAMConfig = None, Links = [], Aliases = [alias], NetworkID = nr_ID nw, Gateway = '''',
        IPAddress = '''', IPv6Gateway = '''', GlobalIPv6Address = '''', EndpointMac = '''', DriverOpts = []\<rparr>)]"

definition createContainer ::
  "('w, 'c, 'd, 'h, 'i, 'x, 'l) deps \<Rightarrow> ('c, 'd, 'h, 'i, 'x, 'l) confort \<Rightarrow> string \<Rightarrow> string \<Rightarrow> ('d, 'x) container_params \<Rightarrow>
     ('d, 'h, 'i, 'x) run_option list \<Rightarrow> 'd docker_world \<Rightarrow>
     (go_panic + (string \<times> go_error option)) \<times> ('d, 'h, 'i, 'x) docker_namespace \<times> 'd docker_world" where
  "createContainer dp cft name alias c opts dw =
     (let v = run_opts opts \<lparr>rv_container = None, rv_host = None, rv_networking = None, rv_consistency = False,
            rv_pullOpts = None, rv_pullOut = Discard\<rparr>;
          ns = cf_namespace cft
      in case dp_ParsePortSpecs dp (cp_ExposedPorts c) of
           Inl err \<Rightarrow> (Inr ('''', Some err), ns, dw)
         | Inr (portSet, portBindings) \<Rightarrow>
             CreateContainer (dp_pkgs dp) (cf_cli cft) name
               (modified (rv_container v) (base_container c portSet))
               (modified (rv_host v) (base_host c portBindings))
               (modified (rv_networking v) (base_networking (namespace_Network ns) alias))
               (rv_consistency v) (cp_Waiter c) (rv_pullOpts v) (write_to (rv_pullOut v)) ns dw)"

record 'l container =
  cn_ex :: "'l control"
  cn_id :: string
  cn_name :: string
  cn_alias :: string
  cn_ports :: port_map

definition container_ID :: "'l container \<Rightarrow> string" where "container_ID c = cn_id c"

definition container_Name :: "'l container \<Rightarrow> string" where "container_Name c = cn_name c"

definition container_Alias :: "'l container \<Rightarrow> string" where "container_Alias c = cn_alias c"

text \<open>The part of \<open>Run\<close> under the setup lock.\<close>

definition run_locked ::
  "('w, 'c, 'd, 'h, 'i, 'x, 'l) deps \<Rightarrow> ('c, 'd, 'h, 'i, 'x, 'l) confort \<Rightarrow> go_ctx \<Rightarrow> nat \<Rightarrow> string \<Rightarrow> string \<Rightarrow>
     ('d, 'x) container_params \<Rightarrow> ('d, 'h, 'i, 'x) run_option list \<Rightarrow> ('w, 'd, 'l) api_world \<Rightarrow>
     (((go_panic + (go_error + 'l container)) \<times> ('c, 'd, 'h, 'i, 'x, 'l) confort) \<times> ('w, 'd, 'l) api_world) option" where
  "run_locked dp cft ctx fuel name alias c opts w =
     (case createContainer dp cft name alias c opts (aw_docker w) of
        (Inl pn, ns, dw) \<Rightarrow> Some ((Inl pn, cft\<lparr>cf_namespace := ns\<rparr>), w\<lparr>aw_docker := dw\<rparr>)
      | (Inr (cid, Some err), ns, dw) \<Rightarrow>
          Some ((Inr (Inl (confort_err err)), cft\<lparr>cf_namespace := ns\<rparr>), w\<lparr>aw_docker := dw\<rparr>)
      | (Inr (cid, None), ns, dw) \<Rightarrow>
          (case StartContainer (dp_runtime dp) (cf_cli cft) (cx_deadline ctx) fuel name ns dw of
             None \<Rightarrow> None
           | Some (Inl pn, ns', dw') \<Rightarrow> Some ((Inl pn, cft\<lparr>cf_namespace := ns'\<rparr>), w\<lparr>aw_docker := dw'\<rparr>)
           | Some (Inr (Inl err), ns', dw') \<Rightarrow>
               Some ((Inr (Inl (confort_err err)), cft\<lparr>cf_namespace := ns'\<rparr>), w\<lparr>aw_docker := dw'\<rparr>)
           | Some (Inr (Inr ports), ns', dw') \<Rightarrow>
               Some ((Inr (Inr \<lparr>cn_ex = cf_ex cft, cn_id = cid, cn_name = name, cn_alias = alias, cn_ports = ports\<rparr>),
                      cft\<lparr>cf_namespace := ns'\<rparr>), w\<lparr>aw_docker := dw'\<rparr>)))"

definition Run_container ::
  "('w, 'c, 'd, 'h, 'i, 'x, 'l) deps \<Rightarrow> ('c, 'd, 'h, 'i, 'x, 'l) confort \<Rightarrow> go_ctx \<Rightarrow> nat \<Rightarrow> ('d, 'x) container_params \<Rightarrow>
     ('d, 'h, 'i, 'x) run_option list \<Rightarrow> ('w, 'd, 'l) api_world \<Rightarrow>
     (((go_panic + (go_error + 'l container)) \<times> ('c, 'd, 'h, 'i, 'x, 'l) confort) \<times> ('w, 'd, 'l) api_world) option" where
  "Run_container dp cft ctx0 fuel c opts w =
     (let alias = cp_Name c; name = confort_Namespace cft @ cp_Name c;
          ctx = applyTimeout (clock_of dp w) ctx0 (cf_defaultTimeout cft)
      in with_lock (\<lambda>l. ct_LockForContainerSetup (cf_ex cft) (cx_done ctx) l name)
           (\<lambda>l. ct_UnlockContainerSetup (cf_ex cft) l name)
           (Inr (Inl (confort_err (cx_err ctx))), cft) (\<lambda>pn r. (Inl pn, snd r))
           (run_locked dp cft ctx fuel name alias c opts) w)"

section \<open>Use and Acquire\<close>

text \<open>An \<open>InitFunc\<close> gets the ports of the container; the last option wins, nil included.\<close>

datatype use_option = WithInitFunc "(port_map \<Rightarrow> init_outcome) option"

fun init_func :: "use_option list \<Rightarrow> (port_map \<Rightarrow> init_outcome) option \<Rightarrow> (port_map \<Rightarrow> init_outcome) option" where
  "init_func [] f = f"
| "init_func (WithInitFunc g # rest) f = init_func rest g"

definition use_param_of :: "'l container \<Rightarrow> bool \<Rightarrow> use_option list \<Rightarrow> use_param" where
  "use_param_of c exclusive opts =
     \<lparr>up_exclusive = exclusive, up_init = map_option (\<lambda>f. f (cn_ports c)) (init_func opts None)\<rparr>"

text \<open>The result holds the ports and the handle of the locks, which the release function gives back.\<close>

definition Use_container ::
  "'l container \<Rightarrow> bool \<Rightarrow> use_option list \<Rightarrow> 'l \<Rightarrow> ((go_error + (port_map \<times> nat)) \<times> 'l) option" where
  "Use_container c exclusive opts l =
     (case ct_LockForContainerUse (cn_ex c) [(cn_name c, use_param_of c exclusive opts)] l of
        None \<Rightarrow> None
      | Some (Inl err, l') \<Rightarrow> Some (Inl (confort_err err), l')
      | Some (Inr h, l') \<Rightarrow> Some (Inr (cn_ports c, h), l'))"

definition UseExclusive :: "'l container \<Rightarrow> use_option list \<Rightarrow> 'l \<Rightarrow> ((go_error + (port_map \<times> nat)) \<times> 'l) option" where
  "UseExclusive c opts l = Use_container c True opts l"

definition UseShared :: "'l container \<Rightarrow> use_option list \<Rightarrow> 'l \<Rightarrow> ((go_error + (port_map \<times> nat)) \<times> 'l) option" where
  "UseShared c opts l = Use_container c False opts l"

record 'l api_acquirer =
  aq_targets :: "'l container list"
  aq_params :: "(string, use_param) go_map"

definition Acquire_api :: "'l api_acquirer" where
  "Acquire_api = \<lparr>aq_targets = [], aq_params = []\<rparr>"

definition Acquirer_Use :: "'l api_acquirer \<Rightarrow> 'l container \<Rightarrow> bool \<Rightarrow> use_option list \<Rightarrow> 'l api_acquirer" where
  "Acquirer_Use a c exclusive opts =
     a\<lparr>aq_targets := aq_targets a @ [c], aq_params := AList.update (cn_name c) (use_param_of c exclusive opts) (aq_params a)\<rparr>"

definition Acquirer_UseExclusive :: "'l api_acquirer \<Rightarrow> 'l container \<Rightarrow> use_option list \<Rightarrow> 'l api_acquirer" where
  "Acquirer_UseExclusive a c opts = Acquirer_Use a c True opts"

definition Acquirer_UseShared :: "'l api_acquirer \<Rightarrow> 'l container \<Rightarrow> use_option list \<Rightarrow> 'l api_acquirer" where
  "Acquirer_UseShared a c opts = Acquirer_Use a c False opts"

definition Acquirer_Do ::
  "'l api_acquirer \<Rightarrow> 'l \<Rightarrow> ((go_error + (('l container \<times> port_map) list \<times> nat)) \<times> 'l) option" where
  "Acquirer_Do a l =
     (case aq_targets a of
        [] \<Rightarrow> Some (Inl (ErrorString ''no targets''), l)
      | c # _ \<Rightarrow>
          (case ct_LockForContainerUse (cn_ex c) (aq_params a) l of
             None \<Rightarrow> None
           | Some (Inl err, l') \<Rightarrow> Some (Inl err, l')
           | Some (Inr h, l') \<Rightarrow> Some (Inr (map (\<lambda>c. (c, cn_ports c)) (aq_targets a), h), l')))"

end
