(* ===== verification/Inprocess_Control.thy ===== *)
theory Inprocess_Control
  imports Confort_Api
begin

text \<open>
  The in-process control (\<open>NewControl\<close> of internal/exclusion/control.go) as a whole, and the calls \<open>Use\<close> and \<open>Acquire\<close>
  of confort.go on it. \<open>LockForContainerUse\<close> runs on the transition system of the Locker, together with the steps of all
  other calls: a schedule says which steps are taken until this call has returned, and in which orders it goes through
  its maps. The other locks of the Locker do not concern the acquisitions of containers: steps commute with them.
\<close>

section \<open>The control\<close>

record ('s, 'o) schedule =
  sd_steps :: "nat \<Rightarrow> ('s, 'o) sys \<Rightarrow> label list"
  sd_loop :: "nat \<Rightarrow> ('s, 'o) sys \<Rightarrow> string list"
  sd_release :: "nat \<Rightarrow> ('s, 'o) sys \<Rightarrow> string list"

text \<open>\<open>None\<close>: the call has not returned with this schedule. The result is an error or the request that holds the locks.\<close>

definition LockForContainerUse ::
  "'s sem_ops \<Rightarrow> 'o once_ops \<Rightarrow> ('s, 'o) schedule \<Rightarrow> go_error \<Rightarrow> (string, use_param) go_map \<Rightarrow> ('s, 'o) sys \<Rightarrow>
     ((go_error + nat) \<times> ('s, 'o) sys) option" where
  "LockForContainerUse so oo sd ctxErr params s =
     (case use_begin so oo params s of
        Some (Inr s1) \<Rightarrow>
          (let r = ac_next (ctl s) in
           case run so oo (sd_steps sd r s1) s1 of
             None \<Rightarrow> None
           | Some s2 \<Rightarrow>
               (case map_option rq_phase (sy_reqs s2 r) of
                  Some PFailed \<Rightarrow> Some (Inl ctxErr, s2)
                | Some PHeld \<Rightarrow>
                    (case use_finish so oo r params (sd_loop sd r s2) (sd_release sd r s2) s2 of
                       Inl p \<Rightarrow> None
                     | Inr (s3, None, _) \<Rightarrow> Some (Inr r, s3)
                     | Inr (s3, Some err, _) \<Rightarrow> Some (Inl err, s3))
                | _ \<Rightarrow> None))
      | _ \<Rightarrow> None)"

text \<open>The returned function; a second call of it is outside the model.\<close>

definition UnlockContainerUse ::
  "'s sem_ops \<Rightarrow> 'o once_ops \<Rightarrow> ('s, 'o) schedule \<Rightarrow> nat \<Rightarrow> ('s, 'o) sys \<Rightarrow> go_panic + ('s, 'o) sys" where
  "UnlockContainerUse so oo sd r s =
     (case step so oo (ReleaseAll r (sd_release sd r s)) s of Some x \<Rightarrow> x | None \<Rightarrow> Inl SemaphorePanic)"

text \<open>The operations on the other locks.\<close>

definition lock_sys :: "(('s, 'o) locker \<Rightarrow> ('s, 'o) locker outcome) \<Rightarrow> ('s, 'o) sys \<Rightarrow> ('s, 'o) sys outcome" where
  "lock_sys f s = map_outcome (\<lambda>l. s\<lparr>sy_locker := l\<rparr>) (f (sy_locker s))"

definition unlock_sys ::
  "(('s, 'o) locker \<Rightarrow> go_panic + ('s, 'o) locker) \<Rightarrow> ('s, 'o) sys \<Rightarrow> go_panic + ('s, 'o) sys" where
  "unlock_sys f s = map_sum id (\<lambda>l. s\<lparr>sy_locker := l\<rparr>) (f (sy_locker s))"

definition inprocess_control ::
  "'s sem_ops \<Rightarrow> 'o once_ops \<Rightarrow> ('s, 'o) schedule \<Rightarrow> go_error \<Rightarrow> ('s, 'o) sys control" where
  "inprocess_control so oo sd ctxErr =
     \<lparr>ct_LockForNamespace = lock_sys LockForNamespace,
      ct_UnlockNamespace = unlock_sys UnlockNamespace,
      ct_LockForBuild = (\<lambda>d s k. lock_sys (\<lambda>l. LockForBuild so d l k) s),
      ct_UnlockBuild = (\<lambda>s k. unlock_sys (\<lambda>l. UnlockBuild so l k) s),
      ct_LockForContainerSetup = (\<lambda>d s k. lock_sys (\<lambda>l. LockForContainerSetup so d l k) s),
      ct_UnlockContainerSetup = (\<lambda>s k. unlock_sys (\<lambda>l. UnlockContainerSetup so l k) s),
      ct_LockForContainerUse = LockForContainerUse so oo sd ctxErr,
      ct_UnlockContainerUse = UnlockContainerUse so oo sd\<rparr>"

section \<open>Steps do not depend on the other locks\<close>

text \<open>The state with the other locks as they are in a new Locker.\<close>

definition core_locker :: "('s, 'o) locker \<Rightarrow> ('s, 'o) locker" where
  "core_locker l = l\<lparr>lk_namespace := False, lk_build := NewKeyedLock, lk_containerSetup := NewKeyedLock\<rparr>"

definition core :: "('s, 'o) sys \<Rightarrow> ('s, 'o) sys" where
  "core s = s\<lparr>sy_locker := core_locker (sy_locker s)\<rparr>"

lemma core_simps [simp]:
  "sy_locker (core s) = core_locker (sy_locker s)" "sy_reqs (core s) = sy_reqs s"
  "lk_acquirer (core_locker l) = lk_acquirer l" "lk_containerUse (core_locker l) = lk_containerUse l"
  "lk_once (core_locker l) = lk_once l"
  "core_locker (l\<lparr>lk_acquirer := c\<rparr>) = (core_locker l)\<lparr>lk_acquirer := c\<rparr>"
  "core_locker (l\<lparr>lk_containerUse := k\<rparr>) = (core_locker l)\<lparr>lk_containerUse := k\<rparr>"
  "core_locker (l\<lparr>lk_once := ox\<rparr>) = (core_locker l)\<lparr>lk_once := ox\<rparr>"
  by (simp_all add: core_def core_locker_def)

lemma core_set_req: "core (set_req r q l s) = set_req r q (core_locker l) (core s)"
  by (simp add: core_def set_req_def)

lemma hold_core [simp]: "hold (core s) = hold s"
  by (simp add: hold_def fun_eq_iff)

lemma lock_of_core [simp]: "lock_of (core s) = lock_of s"
  by (simp add: lock_of_def fun_eq_iff)

lemma Release_core: "Release so (core_locker l) cl = map_sum id core_locker (Release so l cl)"
  by (simp add: Release_def sum.map_comp comp_def id_def)

lemma unlock_all_core: "unlock_all so (core_locker l) go ns = map_sum id core_locker (unlock_all so l go ns)"
  by (induction so l go ns rule: unlock_all.induct)
    (auto simp: Release_core map_sum_def split: goroutine.splits sum.splits)

lemma SetInitResult_core:
  "SetInitResult so oo (core_locker l) cl ok = map_sum id (map_prod core_locker id) (SetInitResult so oo l cl ok)"
  by (auto simp: SetInitResult_def split: sum.splits)

lemma lock_enter_core: "lock_enter oo (core_locker l) k p = map_prod id core_locker (lock_enter oo l k p)"
  by (auto simp: lock_enter_def split: prod.splits)

lemma map_outcome_comp: "map_outcome f (map_outcome g x) = map_outcome (f \<circ> g) x"
  by (cases x) simp_all

lemma lock_try_core: "lock_try so oo d (core_locker l) k p i = map_outcome core_locker (lock_try so oo d l k p i)"
  by (auto simp: lock_try_def map_outcome_comp comp_def split: outcome.splits)

lemma map_sum_core:
  "map_sum id (\<lambda>l. set_req r q l (core s)) (map_sum id core_locker x) = map_sum id core (map_sum id (\<lambda>l. set_req r q l s) x)"
  by (cases x) (simp_all add: core_set_req)

lemma with_req_core:
  assumes "\<And>q. sy_reqs s r = Some q \<Longrightarrow> f q = map_option (map_sum id core) (g q)"
  shows "with_req r (core s) f = map_option (map_sum id core) (with_req r s g)"
  using assms by (auto simp: with_req_def split: option.splits)

lemma step_core: "step so oo a (core s) = map_option (map_sum id core) (step so oo a s)"
proof (cases a)
  case (Accept es)
  then show ?thesis by (simp add: do_accept_def Let_def core_set_req split: prod.splits)
next
  case (Start r)
  then show ?thesis by (auto simp: do_start_def core_set_req intro!: with_req_core)
next
  case (Cancel r)
  then show ?thesis by (auto simp: do_cancel_def core_set_req intro!: with_req_core)
next
  case (Enter r k)
  then show ?thesis
    by (auto simp: do_enter_def lock_enter_core core_set_req intro!: with_req_core split: option.splits prod.splits)
next
  case (Try r k d)
  then show ?thesis
    by (auto simp: do_try_def Let_def lock_try_core core_set_req intro!: with_req_core split: option.splits outcome.splits)
next
  case (WaitOk r)
  then show ?thesis by (auto simp: do_wait_ok_def core_set_req intro!: with_req_core)
next
  case (WaitErr r ns)
  have "unlock_all so ((core_locker (sy_locker s))\<lparr>lk_acquirer := c\<rparr>) go ns =
      map_sum id core_locker (unlock_all so ((sy_locker s)\<lparr>lk_acquirer := c\<rparr>) go ns)" for c go
    by (simp flip: unlock_all_core)
  then show ?thesis
    unfolding WaitErr step.simps by (intro with_req_core) (simp add: do_wait_err_def Let_def map_sum_core)
next
  case (InitResult r k ok)
  have "map_sum id (\<lambda>(l, cl'). set_req r (set_go q k (GLocked cl')) l (core s)) (map_sum id (map_prod core_locker id) x) =
      map_sum id core (map_sum id (\<lambda>(l, cl'). set_req r (set_go q k (GLocked cl')) l s) x)" for q and x :: "go_panic + ('a, 'b) locker \<times> container_lock"
    by (cases x) (auto simp: core_set_req)
  then show ?thesis
    unfolding InitResult step.simps
    by (intro with_req_core) (simp add: do_init_result_def SetInitResult_core split: goroutine.splits)
next
  case (ReleaseAll r ns)
  show ?thesis
    unfolding ReleaseAll step.simps
    by (intro with_req_core) (simp add: do_release_def unlock_all_core map_sum_core)
qed

lemma run_core: "run so oo as (core s) = map_option core (run so oo as s)"
  by (induction as arbitrary: s) (auto simp: step_core split: option.splits sum.splits)

lemma use_init_loop_core:
  "use_init_loop so oo r params ns (core s) e c = map_sum id (map_prod core id) (use_init_loop so oo r params ns s e c)"
proof (induction ns arbitrary: s e c)
  case (Cons n ns)
  then show ?case
    by (auto simp: step_core Let_def simp del: step.simps split: option.splits sum.splits prod.splits)
qed simp

lemma use_finish_core:
  "use_finish so oo r params ns ns' (core s) = map_sum id (map_prod core id) (use_finish so oo r params ns ns' s)"
  by (auto simp: use_finish_def use_init_loop_core step_core simp del: step.simps split: option.splits sum.splits prod.splits)

section \<open>A call of LockForContainerUse\<close>

text \<open>The orders of a schedule are iteration orders of the maps.\<close>

definition fair_orders :: "('s, 'o) schedule \<Rightarrow> bool" where
  "fair_orders sd \<longleftrightarrow>
     (\<forall>r s q. sy_reqs s r = Some q \<longrightarrow>
        set (sd_loop sd r s) = keys_of q \<and> distinct (sd_release sd r s) \<and> set (sd_release sd r s) = keys_of q)"

lemma step_entries:
  assumes "struct_inv s" and "sy_reqs s r = Some q" and "step so oo a s = Some (Inr s')"
  shows "\<exists>q'. sy_reqs s' r = Some q' \<and> rq_entries q' = rq_entries q"
  using assms(3)
proof (cases a)
  case (Accept es)
  have "r \<noteq> ac_next (ctl s)" using struct_invD(3) [OF assms(1,2)] by simp
  then show ?thesis
    using assms(2,3) Accept by (auto simp: do_accept_def Let_def case_prod_beta adm.enter_ticket split: if_splits)
next
  case (Try r' k d)
  then obtain q0 where "sy_reqs s r' = Some q0" and t: "do_try so oo r' q0 k d s = Some s'"
    using assms(3) by (auto simp: with_req_def split: option.splits)
  then show ?thesis using assms(2) by (cases "r = r'") (auto elim!: do_try_cases)
qed (use assms(2) in \<open>auto simp: with_req_def do_start_def do_cancel_def do_enter_def do_wait_ok_def do_wait_err_def
    do_release_def Let_def map_sum_Inr split: option.splits if_splits prod.splits elim!: do_init_result_Inr\<close>)

lemma run_entries:
  assumes "sys_reach so oo s" and "sy_reqs s r = Some q" and "run so oo as s = Some s'"
  shows "\<exists>q'. sy_reqs s' r = Some q' \<and> rq_entries q' = rq_entries q"
  using assms
proof (induction as arbitrary: s q)
  case (Cons a as)
  then obtain t where t: "step so oo a s = Some (Inr t)" "run so oo as t = Some s'"
    by (auto split: option.splits sum.splits)
  obtain qt where "sy_reqs t r = Some qt" "rq_entries qt = rq_entries q"
    using step_entries [OF sys_reach_struct_inv [OF Cons.prems(1)] Cons.prems(2) t(1)] by blast
  then show ?case using Cons.IH [OF sys_reach.step [OF Cons.prems(1) t(1)] _ t(2)] by fastforce
qed simp

lemma use_begin_request:
  assumes "use_begin so oo params s = Some (Inr s1)"
  shows "distinct (map fst params) \<and> (\<exists>q. sy_reqs s1 (ac_next (ctl s)) = Some q \<and> rq_entries q = use_entries params)"
  using assms
  by (auto simp: use_begin_def do_accept_def Let_def case_prod_beta adm.enter_ticket split: if_splits)

context weighted_semaphore
begin

text \<open>What a call that has returned has done.\<close>

lemma use_returned:
  assumes re: "sys_reach so oo (core s)" and fo: "fair_orders sd"
    and call: "LockForContainerUse so oo sd ctxErr params s = Some (res, s')"
  shows "sys_reach so oo (core s') \<and> distinct (map fst params) \<and>
    (case res of
       Inl e \<Rightarrow> \<forall>k. hold s' (ac_next (ctl s)) k = None
     | Inr h \<Rightarrow> h = ac_next (ctl s) \<and> held_use so oo (core s') h params \<and>
         (\<forall>k p. map_of params k = Some p \<longrightarrow> hold s' h k = Some (up_exclusive p)))"
proof -
  let ?r = "ac_next (ctl s)"
  obtain s1 s2 where b: "use_begin so oo params s = Some (Inr s1)"
    and s2: "run so oo (sd_steps sd ?r s1) s1 = Some s2"
    using call by (auto simp: LockForContainerUse_def Let_def split: option.splits sum.splits)
  have "step so oo (Accept (use_entries params)) (core s) = Some (Inr (core s1))"
    using b by (simp add: use_begin_def step_core del: step.simps)
  then have re1: "sys_reach so oo (core s1)" by (rule sys_reach.step [OF re])
  have run2: "run so oo (sd_steps sd ?r s1) (core s1) = Some (core s2)" using s2 by (simp add: run_core)
  have re2: "sys_reach so oo (core s2)" by (rule run_reach [OF re1 run2])
  obtain q where d: "distinct (map fst params)" and q: "sy_reqs s2 ?r = Some q" "rq_entries q = use_entries params"
    using use_begin_request [OF b] run_entries [OF re1 _ run2] by fastforce
  have keys: "keys_of q = set (map fst params)" by (simp add: keys_of_def q(2))
  show ?thesis
  proof (cases "rq_phase q")
    case PFailed
    then have "res = Inl ctxErr" "s' = s2" using call b s2 q(1) by (simp_all add: LockForContainerUse_def Let_def)
    moreover have "locked_keys q = {}"
      using struct_invD(2) [OF sys_reach_struct_inv [OF re2]] q(1) PFailed by (auto simp: req_ok_def req_shape_def)
    ultimately show ?thesis using re2 d q(1) by (auto simp: hold_def mode_None locked_keys_def)
  next
    case PHeld
    then have h: "held_use so oo (core s2) ?r params" using re2 q by (simp add: held_use_def)
    define lo where "lo = sd_loop sd ?r s2"
    define ro where "ro = sd_release sd ?r s2"
    have o: "set lo = set (map fst params)" "distinct ro" "set ro = set (map fst params)"
      using fo q(1) keys by (auto simp: fair_orders_def lo_def ro_def)
    let ?P = "list_all (init_succeeds params) (filter (acquired (core s2) ?r) lo)"
    obtain v e c where f: "use_finish so oo ?r params lo ro (core s2) = Inr (v, e, c)"
      and v: "sys_reach so oo v" "e = None \<longrightarrow> held_use so oo v ?r params \<and> (\<forall>k p. map_of params k = Some p \<longrightarrow> hold v ?r k = Some (up_exclusive p))"
        "e \<noteq> None \<longrightarrow> (\<forall>k. hold v ?r k = None)"
    proof (cases ?P)
      case True
      from use_finish_ok [OF h o(1) True, of ro] that show thesis by (auto simp: held_use_def)
    next
      case False
      from use_finish_err [OF h o False] that show thesis by blast
    qed
    obtain s3 where s3: "use_finish so oo ?r params lo ro s2 = Inr (s3, e, c)" "v = core s3"
      using f by (auto simp: use_finish_core map_sum_Inr)
    have "s' = s3 \<and> res = (case e of None \<Rightarrow> Inr ?r | Some err \<Rightarrow> Inl err)"
      using call b s2 q(1) PHeld s3(1) by (auto simp: LockForContainerUse_def Let_def lo_def ro_def split: option.splits)
    then show ?thesis using v d s3(2) by (cases e) auto
  qed (use call b s2 q(1) in \<open>simp_all add: LockForContainerUse_def Let_def\<close>)
qed

lemma unlock_returned:
  assumes h: "held_use so oo (core s) r params" and fo: "fair_orders sd"
  shows "\<exists>s'. UnlockContainerUse so oo sd r s = Inr s' \<and> sys_reach so oo (core s') \<and> (\<forall>k. hold s' r k = None)"
proof -
  obtain q where q: "sy_reqs s r = Some q" "rq_entries q = use_entries params" using h by (auto simp: held_use_def)
  have o: "distinct (sd_release sd r s)" "set (sd_release sd r s) = set (map fst params)"
    using fo q(1) by (simp_all add: fair_orders_def keys_of_def q(2) flip: use_entries_keys set_map)
  obtain v where v: "step so oo (ReleaseAll r (sd_release sd r s)) (core s) = Some (Inr v)" "sys_reach so oo v"
    "\<forall>k. hold v r k = None"
    using release_step [OF h o] by blast
  then obtain s' where "step so oo (ReleaseAll r (sd_release sd r s)) s = Some (Inr s')" "v = core s'"
    by (auto simp: step_core map_sum_Inr simp del: step.simps)
  then show ?thesis using v(2,3) by (auto simp: UnlockContainerUse_def simp del: step.simps)
qed

lemma core_exclusion:
  "sys_reach so oo (core s) \<Longrightarrow> hold s i k = Some True \<Longrightarrow> hold s j k \<noteq> None \<Longrightarrow> j = i"
  using reach_exclusion [of oo "core s"] by simp

end

section \<open>Chains of uses\<close>

text \<open>\<open>Acquire().Use(...)...\<close>, a chain of \<open>Use\<close> calls.\<close>

definition acquirer_of :: "('l container \<times> bool \<times> use_option list) list \<Rightarrow> 'l api_acquirer" where
  "acquirer_of us = fold (\<lambda>(c, exclusive, opts) a. Acquirer_Use a c exclusive opts) us Acquire_api"

definition last_modes :: "('l container \<times> bool \<times> use_option list) list \<Rightarrow> string \<Rightarrow> bool option" where
  "last_modes us = map_of (rev (map (\<lambda>(c, exclusive, opts). (cn_name c, exclusive)) us))"

lemma acquirer_of_params:
  "aq_targets (acquirer_of us) = map fst us \<and>
     map_option up_exclusive (map_of (aq_params (acquirer_of us)) k) = last_modes us k"
proof (induction us rule: rev_induct)
  case Nil
  show ?case by (simp add: acquirer_of_def Acquire_api_def last_modes_def)
next
  case (snoc u us)
  obtain c x opts where u: "u = (c, x, opts)" by (cases u)
  have "acquirer_of (us @ [u]) = Acquirer_Use (acquirer_of us) c x opts" by (simp add: acquirer_of_def u)
  then show ?case
    using snoc.IH by (simp add: Acquirer_Use_def update_conv' last_modes_def u use_param_of_def)
qed

lemma acquirer_of_targets:
  assumes "us \<noteq> []"
  shows "aq_targets (acquirer_of us) \<noteq> []" and "hd (aq_targets (acquirer_of us)) = fst (hd us)"
  using acquirer_of_params [of us] assms by (simp_all add: hd_map)

lemma last_modes_used:
  assumes "(c, y) \<in> set us"
  shows "\<exists>m. last_modes us (cn_name c) = Some m"
proof -
  have "cn_name c \<in> fst ` set (rev (map (\<lambda>(c, exclusive, opts). (cn_name c, exclusive)) us))"
    using assms by (cases y) force
  then have "last_modes us (cn_name c) \<noteq> None" unfolding last_modes_def map_of_eq_None_iff by blast
  then show ?thesis by blast
qed

section \<open>The contract of a control\<close>

text \<open>
  What \<open>Use\<close> and \<open>Acquire\<close> rely on: the control hands out locks of containers that exclude each other, in the modes
  that were asked for; a refused call holds nothing; and the function that a call returns gives its locks back.
  \<open>ticket\<close> is the identity of the next call, and \<open>owns l h params\<close> says that call \<open>h\<close> has returned with its locks. A
  control need not do this for all calls: \<open>usable\<close> are the parameters it promises something for.
\<close>

locale use_control =
  fixes acquire :: "(string, use_param) go_map \<Rightarrow> 'l \<Rightarrow> ((go_error + nat) \<times> 'l) option"
    and release :: "nat \<Rightarrow> 'l \<Rightarrow> go_panic + 'l"
    and inv :: "'l \<Rightarrow> bool"
    and ticket :: "'l \<Rightarrow> nat"
    and holds_of :: "'l \<Rightarrow> nat \<Rightarrow> string \<Rightarrow> bool option"
    and owns :: "'l \<Rightarrow> nat \<Rightarrow> (string, use_param) go_map \<Rightarrow> bool"
    and usable :: "(string, use_param) go_map \<Rightarrow> bool"
  assumes excludes: "inv l \<Longrightarrow> holds_of l i k = Some True \<Longrightarrow> holds_of l j k \<noteq> None \<Longrightarrow> j = i"
    and granted: "inv l \<Longrightarrow> acquire params l = Some (Inr h, l') \<Longrightarrow> usable params \<Longrightarrow>
      inv l' \<and> h = ticket l \<and> owns l' h params \<and> (\<forall>k p. map_of params k = Some p \<longrightarrow> holds_of l' h k = Some (up_exclusive p))"
    and refused: "inv l \<Longrightarrow> acquire params l = Some (Inl e, l') \<Longrightarrow> usable params \<Longrightarrow>
      inv l' \<and> (\<forall>k. holds_of l' (ticket l) k = None)"
    and released: "owns l h params \<Longrightarrow> \<exists>l'. release h l = Inr l' \<and> inv l' \<and> (\<forall>k. holds_of l' h k = None)"
begin

definition gives_back :: "'l \<Rightarrow> nat \<Rightarrow> bool" where
  "gives_back l h \<longleftrightarrow> (\<exists>l'. release h l = Inr l' \<and> inv l' \<and> (\<forall>k. holds_of l' h k = None))"

text \<open>The mode that one call asks for decides what others can have.\<close>

lemma others:
  assumes "inv l" and "holds_of l h k = Some x" and "j \<noteq> h"
  shows "holds_of l j k = None \<or> \<not> x \<and> holds_of l j k = Some False"
proof (cases "holds_of l j k")
  case (Some y)
  then have "\<not> y" using excludes [OF assms(1), of j k h] assms(2,3) by (cases y) auto
  moreover have "\<not> x" using excludes [OF assms(1), of h k j] assms(2,3) Some by (cases x) auto
  ultimately show ?thesis using Some by simp
qed simp

lemma Use_granted:
  assumes ex: "ct_LockForContainerUse (cn_ex c) = acquire" and l: "inv l"
    and use: "Use_container c exclusive opts l = Some (Inr (ports, h), l')"
    and ok: "usable [(cn_name c, use_param_of c exclusive opts)]"
  shows "inv l' \<and> ports = cn_ports c \<and> holds_of l' h (cn_name c) = Some exclusive \<and> gives_back l' h"
proof -
  have acq: "acquire [(cn_name c, use_param_of c exclusive opts)] l = Some (Inr h, l')" and "ports = cn_ports c"
    using use ex by (auto simp: Use_container_def split: option.splits prod.splits sum.splits)
  then show ?thesis using granted [OF l acq ok] released by (auto simp: use_param_of_def gives_back_def)
qed

lemma Use_refused:
  assumes ex: "ct_LockForContainerUse (cn_ex c) = acquire" and l: "inv l"
    and use: "Use_container c exclusive opts l = Some (Inl e, l')"
    and ok: "usable [(cn_name c, use_param_of c exclusive opts)]"
  shows "inv l' \<and> (\<forall>k. holds_of l' (ticket l) k = None)"
proof -
  obtain e' where "acquire [(cn_name c, use_param_of c exclusive opts)] l = Some (Inl e', l')"
    using use ex by (auto simp: Use_container_def split: option.splits prod.splits sum.splits)
  then show ?thesis using ok by (rule refused [OF l])
qed

lemma Do_granted:
  assumes ex: "ct_LockForContainerUse (cn_ex (hd (aq_targets a))) = acquire" and l: "inv l"
    and run: "Acquirer_Do a l = Some (Inr (ports, h), l')" and ok: "usable (aq_params a)"
  shows "inv l' \<and> ports = map (\<lambda>c. (c, cn_ports c)) (aq_targets a) \<and> gives_back l' h \<and>
    (\<forall>k p. map_of (aq_params a) k = Some p \<longrightarrow> holds_of l' h k = Some (up_exclusive p))"
proof -
  have acq: "acquire (aq_params a) l = Some (Inr h, l')" and "ports = map (\<lambda>c. (c, cn_ports c)) (aq_targets a)"
    using run ex by (auto simp: Acquirer_Do_def split: list.splits option.splits prod.splits sum.splits)
  then show ?thesis using granted [OF l acq ok] released by (auto simp: gives_back_def)
qed

lemma Do_refused:
  assumes ex: "ct_LockForContainerUse (cn_ex (hd (aq_targets a))) = acquire" and l: "inv l"
    and run: "Acquirer_Do a l = Some (Inl e, l')" and ok: "usable (aq_params a)"
  shows "inv l' \<and> (l' = l \<and> aq_targets a = [] \<or> (\<forall>k. holds_of l' (ticket l) k = None))"
proof (cases "aq_targets a")
  case Nil
  then show ?thesis using run l by (simp add: Acquirer_Do_def)
next
  case (Cons c cs)
  then have "acquire (aq_params a) l = Some (Inl e, l')"
    using run ex by (auto simp: Acquirer_Do_def split: option.splits prod.splits sum.splits)
  then show ?thesis using refused [OF l _ ok] by blast
qed

lemma Chain_granted:
  assumes us: "us \<noteq> []" and ex: "ct_LockForContainerUse (cn_ex (fst (hd us))) = acquire" and l: "inv l"
    and run: "Acquirer_Do (acquirer_of us) l = Some (Inr (ports, h), l')" and ok: "usable (aq_params (acquirer_of us))"
  shows "inv l' \<and> ports = map (\<lambda>(c, _). (c, cn_ports c)) us \<and> gives_back l' h \<and>
    (\<forall>(c, _) \<in> set us. \<exists>x. last_modes us (cn_name c) = Some x \<and> holds_of l' h (cn_name c) = Some x \<and>
       (\<forall>j. j \<noteq> h \<longrightarrow> holds_of l' j (cn_name c) = None \<or> \<not> x \<and> holds_of l' j (cn_name c) = Some False))"
proof -
  note g = Do_granted [OF _ l run ok, unfolded acquirer_of_targets [OF us], OF ex]
  then have inv: "inv l'" by simp
  have "\<exists>m. last_modes us (cn_name c) = Some m \<and> holds_of l' h (cn_name c) = Some m \<and>
      (\<forall>j. j \<noteq> h \<longrightarrow> holds_of l' j (cn_name c) = None \<or> \<not> m \<and> holds_of l' j (cn_name c) = Some False)"
    if mem: "(c, y) \<in> set us" for c y
  proof -
    obtain m where m: "last_modes us (cn_name c) = Some m" using last_modes_used [OF mem] by blast
    then have "holds_of l' h (cn_name c) = Some m" using g acquirer_of_params [of us "cn_name c"] by auto
    with others [OF inv this] m show ?thesis by blast
  qed
  then show ?thesis using g acquirer_of_params [of us] by (auto simp: comp_def case_prod_beta)
qed

lemma Chain_refused:
  assumes us: "us \<noteq> []" and ex: "ct_LockForContainerUse (cn_ex (fst (hd us))) = acquire" and l: "inv l"
    and run: "Acquirer_Do (acquirer_of us) l = Some (Inl e, l')" and ok: "usable (aq_params (acquirer_of us))"
  shows "inv l' \<and> (\<forall>k. holds_of l' (ticket l) k = None)"
  using Do_refused [OF _ l run ok, unfolded acquirer_of_targets [OF us], OF ex] acquirer_of_targets(1) [OF us] by blast

end

text \<open>The in-process control keeps the contract, for every schedule.\<close>

locale scheduled_semaphore = weighted_semaphore so cur size_of
  for so :: "'s sem_ops" and cur :: "'s \<Rightarrow> int" and size_of :: "'s \<Rightarrow> int" +
  fixes oo :: "'o once_ops"
    and sd :: "('s, 'o) schedule"
  assumes orders: "fair_orders sd"

sublocale scheduled_semaphore \<subseteq> inproc: use_control "LockForContainerUse so oo sd ctxErr" "UnlockContainerUse so oo sd"
  "\<lambda>s. sys_reach so oo (core s)" "\<lambda>s. ac_next (ctl s)" hold "\<lambda>s. held_use so oo (core s)" "\<lambda>_. True"
proof
  fix l l' :: "('s, 'o) sys" and i j h k params e
  show "j = i" if "sys_reach so oo (core l)" "hold l i k = Some True" "hold l j k \<noteq> None"
    using that by (rule core_exclusion)
  show "sys_reach so oo (core l') \<and> h = ac_next (ctl l) \<and> held_use so oo (core l') h params \<and>
      (\<forall>k p. map_of params k = Some p \<longrightarrow> hold l' h k = Some (up_exclusive p))"
    if "sys_reach so oo (core l)" "LockForContainerUse so oo sd ctxErr params l = Some (Inr h, l')"
    using use_returned [OF that(1) orders that(2), unfolded sum.case] by blast
  show "sys_reach so oo (core l') \<and> (\<forall>k. hold l' (ac_next (ctl l)) k = None)"
    if "sys_reach so oo (core l)" "LockForContainerUse so oo sd ctxErr params l = Some (Inl e, l')"
    using use_returned [OF that(1) orders that(2)] by simp
  show "\<exists>l'. UnlockContainerUse so oo sd h l = Inr l' \<and> sys_reach so oo (core l') \<and> (\<forall>k. hold l' h k = None)"
    if "held_use so oo (core l) h params"
    using unlock_returned [OF that orders] .
qed

context scheduled_semaphore
begin

lemmas use_granted = inproc.Use_granted [OF _ _ _ TrueI] and use_refused = inproc.Use_refused [OF _ _ _ TrueI]
  and chain_granted = inproc.Chain_granted [OF _ _ _ _ TrueI] and chain_refused = inproc.Chain_refused [OF _ _ _ _ TrueI] and other_holders = inproc.others
  and gives_back = inproc.gives_back_def

end

section \<open>A schedule that serves one call at once\<close>

definition greedy :: "('s, 'o) schedule" where
  "greedy =
     \<lparr>sd_steps = (\<lambda>r s. case sy_reqs s r of
        None \<Rightarrow> []
      | Some q \<Rightarrow> Start r # map (Enter r) (map fst (rq_entries q)) @ map (\<lambda>k. Try r k False) (map fst (rq_entries q)) @ [WaitOk r]),
      sd_loop = (\<lambda>r s. case sy_reqs s r of None \<Rightarrow> [] | Some q \<Rightarrow> map fst (rq_entries q)),
      sd_release = (\<lambda>r s. case sy_reqs s r of None \<Rightarrow> [] | Some q \<Rightarrow> remdups (map fst (rq_entries q)))\<rparr>"

lemma greedy_orders: "fair_orders greedy"
  by (simp add: fair_orders_def greedy_def keys_of_def)

interpretation gsem: scheduled_semaphore counting_sem fst snd list_once greedy
  by unfold_locales (rule greedy_orders)

section \<open>Main properties\<close>


definition web_container :: "(int \<times> int, string list) sys container" where
  "web_container =
     \<lparr>cn_ex = inprocess_control counting_sem list_once greedy (ErrorString ''context canceled''), cn_id = ''1'', cn_name = ''ns-web'',
      cn_alias = ''web'', cn_ports = []\<rparr>"

lemma core_new: "core (NewSys oo) = NewSys oo"
  by (simp add: core_def core_locker_def NewSys_def NewLocker_def)


section \<open>Acquire\<close>

text \<open>
  C5: \<open>Acquire\<close> takes all or nothing. With the in-process control and any interleaving with other calls, a successful
  \<open>Do\<close> returns the ports of all its containers and holds every one of them, in the mode of its last \<open>Use\<close>, against all
  other calls; the returned function gives all of them back. A failed \<open>Do\<close> holds none of them.
\<close>

theorem acquirer_all_or_nothing:
  assumes "weighted_semaphore so cur size_of" and "fair_orders sd" and "us \<noteq> []"
    and "cn_ex (fst (hd us)) = inprocess_control so oo sd ctxErr"
    and "sys_reach so oo (core s)" and "Acquirer_Do (acquirer_of us) s = Some (res, s')"
  shows "sys_reach so oo (core s') \<and>
    (case res of
       Inl e \<Rightarrow> \<forall>k. hold s' (ac_next (ctl s)) k = None
     | Inr (ports, h) \<Rightarrow> ports = map (\<lambda>(c, _). (c, cn_ports c)) us \<and>
         (\<forall>(c, _) \<in> set us. \<exists>x. last_modes us (cn_name c) = Some x \<and> hold s' h (cn_name c) = Some x \<and>
            (\<forall>j. j \<noteq> h \<longrightarrow> hold s' j (cn_name c) = None \<or> \<not> x \<and> hold s' j (cn_name c) = Some False)) \<and>
         (\<exists>s''. ct_UnlockContainerUse (cn_ex (fst (hd us))) h s' = Inr s'' \<and> (\<forall>k. hold s'' h k = None)))"
proof -
  have sem: "scheduled_semaphore so cur size_of sd"
    using assms(1,2) by (simp add: scheduled_semaphore_def scheduled_semaphore_axioms_def)
  have ex: "ct_LockForContainerUse (cn_ex (fst (hd us))) = LockForContainerUse so oo sd ctxErr"
    "ct_UnlockContainerUse (cn_ex (fst (hd us))) = UnlockContainerUse so oo sd"
    by (simp_all add: assms(4) inprocess_control_def)
  show ?thesis
  proof (cases res)
    case (Inl e)
    from scheduled_semaphore.chain_refused [OF sem assms(3) ex(1) assms(5) assms(6) [unfolded Inl]] show ?thesis
      by (simp add: Inl)
  next
    case (Inr x)
    obtain ports h where x: "x = (ports, h)" by (cases x)
    from scheduled_semaphore.chain_granted [OF sem assms(3) ex(1) assms(5) assms(6) [unfolded Inr x]] show ?thesis
      by (auto simp: Inr x ex(2) scheduled_semaphore.gives_back [OF sem])
  qed
qed

theorem acquirer_all_or_nothing_witness:
  "\<exists>s'. Acquirer_Do (acquirer_of [(web_container, True, []), (web_container\<lparr>cn_name := ''ns-db''\<rparr>, False, [])]) (NewSys list_once) =
       Some (Inr ([(web_container, []), (web_container\<lparr>cn_name := ''ns-db''\<rparr>, [])], 0), s') \<and>
     hold s' 0 ''ns-web'' = Some True \<and> hold s' 0 ''ns-db'' = Some False"
proof -
  let ?s = "NewSys list_once :: (int \<times> int, string list) sys"
  let ?us = "[(web_container, True, []), (web_container\<lparr>cn_name := ''ns-db''\<rparr>, False, [])]"
  have "map_option (\<lambda>(r, _). map_sum id snd r) (Acquirer_Do (acquirer_of ?us) ?s) = Some (Inr 0)"
    by code_simp
  then obtain ports s' where u: "Acquirer_Do (acquirer_of ?us) ?s = Some (Inr (ports, 0), s')"
    by (auto simp: Some_eq_map_option map_sum_Inr)
  have ex: "cn_ex (fst (hd ?us)) = inprocess_control counting_sem list_once greedy (ErrorString ''context canceled'')"
    by (simp add: web_container_def)
  have "sys_reach counting_sem list_once (core ?s)" by (simp add: core_new sys_reach.start)
  from acquirer_all_or_nothing [OF csem.weighted_semaphore_axioms greedy_orders _ ex this u] u show ?thesis
    by (auto simp: web_container_def last_modes_def)
qed

end
