(* ===== verification/Beacon_Use.thy ===== *)
theory Beacon_Use
  imports Beacon_Client Inprocess_Control
begin

text \<open>
  \<open>Use\<close> and \<open>Acquire\<close> of confort.go through a beacon server: the client call of control.go, on a stub that is the server
  itself (\<open>served\<close>). A message that the client sends is received by the handler of its stream; while the client waits
  for the answer, the server goes on with any other streams and goroutines, as a schedule says. Streams of this client
  have even numbers, those of other clients odd ones.
\<close>

section \<open>The server behind the stub\<close>

record ('s, 'o) beacon_schedule =
  bs_events :: "nat \<Rightarrow> ('s, 'o) server \<Rightarrow> server_event list"
  bs_release :: "nat \<Rightarrow> ('s, 'o) server \<Rightarrow> string list"

text \<open>The server, the number of streams that the client has opened, and the requests its streams have made.\<close>

record ('s, 'o) beacon_world =
  bw_server :: "('s, 'o) server"
  bw_next :: nat
  bw_req :: "nat \<Rightarrow> nat option"

definition started_call :: "nat \<Rightarrow> ('s, 'o) server \<Rightarrow> (nat \<Rightarrow> nat option) \<Rightarrow> nat \<Rightarrow> nat option" where
  "started_call i v f = (case sv_streams v i of Some (Acquiring r) \<Rightarrow> f(i \<mapsto> r) | _ \<Rightarrow> f)"

definition answer_of :: "('s, 'o) server \<Rightarrow> nat \<Rightarrow> go_error + (string, lock_state \<times> bool) go_map" where
  "answer_of v r =
     (case sy_reqs (sv_sys v) r of
        Some q \<Rightarrow>
          if rq_phase q = PHeld then Inr (acquire_results (sv_sys v) r (rq_entries q)) else Inl (ErrorString ''context canceled'')
      | None \<Rightarrow> Inl (ErrorString ''context canceled''))"

definition served ::
  "'s sem_ops \<Rightarrow> 'o once_ops \<Rightarrow> ('s, 'o) beacon_schedule \<Rightarrow> (('s, 'o) beacon_world, nat) acquire_client" where
  "served so oo sd =
     \<lparr>acl_open = (\<lambda>w.
        (let i = 2 * bw_next w in
         case server_step so oo (SOpen i) (bw_server w) of
           Some (Inr v) \<Rightarrow> (Inr i, w\<lparr>bw_server := v, bw_next := bw_next w + 1\<rparr>)
         | _ \<Rightarrow> (Inl (ErrorString ''unavailable''), w))),
      acl_Send = (\<lambda>i m w.
        (case server_step so oo (SRecv i (bs_release sd i (bw_server w)) (Msg m)) (bw_server w) of
           Some (Inr v) \<Rightarrow> (None, w\<lparr>bw_server := v, bw_req := started_call i v (bw_req w)\<rparr>)
         | _ \<Rightarrow> (Some (ErrorString ''EOF''), w))),
      acl_Recv = (\<lambda>i w.
        (case sv_streams (bw_server w) i of
           Some (Acquiring r) \<Rightarrow>
             (case server_run so oo (bs_events sd i (bw_server w)) (bw_server w) of
                Some (Inr v) \<Rightarrow>
                  (case server_step so oo (SReturn i None (bs_release sd i v)) v of
                     Some (Inr v') \<Rightarrow> Some (answer_of v r, w\<lparr>bw_server := v'\<rparr>)
                   | _ \<Rightarrow> None)
              | _ \<Rightarrow> None)
         | _ \<Rightarrow> Some (Inl (ErrorString ''stream closed''), w))),
      acl_CloseSend = (\<lambda>i w.
        (case server_step so oo (SRecv i (bs_release sd i (bw_server w)) EOF) (bw_server w) of
           Some (Inr v) \<Rightarrow> (None, w\<lparr>bw_server := v\<rparr>)
         | _ \<Rightarrow> (Some (ErrorString ''stream closed''), w)))\<rparr>"

text \<open>The control of \<open>NewBeaconControl\<close> as \<open>Use\<close> and \<open>Acquire\<close> see it: the handle is the stream.\<close>

definition beacon_acquire ::
  "'s sem_ops \<Rightarrow> 'o once_ops \<Rightarrow> ('s, 'o) beacon_schedule \<Rightarrow> (go_error option \<Rightarrow> go_error option \<Rightarrow> go_error option) \<Rightarrow>
     (string, use_param) go_map \<Rightarrow> ('s, 'o) beacon_world \<Rightarrow> ((go_error + nat) \<times> ('s, 'o) beacon_world) option" where
  "beacon_acquire so oo sd app params w =
     (case beacon_LockForContainerUse app (NewBeaconControl (served so oo sd)) params w of
        Some ((Some i, err), w') \<Rightarrow> Some (Inr i, w')
      | Some ((None, Some err), w') \<Rightarrow> Some (Inl err, w')
      | _ \<Rightarrow> None)"

definition beacon_release ::
  "'s sem_ops \<Rightarrow> 'o once_ops \<Rightarrow> ('s, 'o) beacon_schedule \<Rightarrow> nat \<Rightarrow> ('s, 'o) beacon_world \<Rightarrow>
     go_panic + ('s, 'o) beacon_world" where
  "beacon_release so oo sd i w = Inr (beacon_unlock (NewBeaconControl (served so oo sd)) i w)"

text \<open>What the request of a stream holds in the Locker of the server.\<close>

definition call_hold :: "('s, 'o) beacon_world \<Rightarrow> nat \<Rightarrow> string \<Rightarrow> bool option" where
  "call_hold w i k = (case bw_req w i of None \<Rightarrow> None | Some r \<Rightarrow> hold (sv_sys (bw_server w)) r k)"

fun foreign :: "server_event \<Rightarrow> bool" where
  "foreign (SOpen j) = odd j"
| "foreign (SInternal a) = True"
| "foreign (SReturn j e ns) = odd j"
| "foreign (SRecv j ns ev) = odd j"

text \<open>A schedule leaves the streams of this client alone, and its release orders are iteration orders of the maps.\<close>

definition fair_beacon :: "('s, 'o) beacon_schedule \<Rightarrow> bool" where
  "fair_beacon sd \<longleftrightarrow>
     (\<forall>i v. list_all foreign (bs_events sd i v)) \<and>
     (\<forall>i v st r q. sv_streams v i = Some st \<longrightarrow> works_for st r \<longrightarrow> sy_reqs (sv_sys v) r = Some q \<longrightarrow>
        distinct (bs_release sd i v) \<and> set (bs_release sd i v) = keys_of q)"

section \<open>Requests of the server stay\<close>

text \<open>A handler only makes steps of the Locker.\<close>

definition reaches :: "'s sem_ops \<Rightarrow> 'o once_ops \<Rightarrow> ('s, 'o) sys \<Rightarrow> ('s, 'o) sys \<Rightarrow> bool" where
  "reaches so oo s s' \<longleftrightarrow> (\<exists>as. run so oo as s = Some s')"

lemma run_append: "run so oo as s = Some t \<Longrightarrow> run so oo bs t = u \<Longrightarrow> run so oo (as @ bs) s = u"
  by (induction as arbitrary: s) (auto split: option.splits sum.splits)

lemma reaches_refl [simp]: "reaches so oo s s"
  unfolding reaches_def by (rule exI [of _ "[]"]) simp

lemma reaches_step: "step so oo a s = Some (Inr s') \<Longrightarrow> reaches so oo s s'"
  unfolding reaches_def by (rule exI [of _ "[a]"]) simp

lemma reaches_trans: "reaches so oo s t \<Longrightarrow> reaches so oo t u \<Longrightarrow> reaches so oo s u"
  unfolding reaches_def using run_append by blast

lemma reaches_request:
  assumes "sys_reach so oo s" and "reaches so oo s s'" and "sy_reqs s r = Some q"
  shows "\<exists>q'. sy_reqs s' r = Some q' \<and> rq_entries q' = rq_entries q"
  using assms run_entries unfolding reaches_def by blast

lemma set_init_result_reaches: "set_init_result so oo r k ok s = Some (Inr s') \<Longrightarrow> reaches so oo s s'"
  by (auto simp: set_init_result_def simp del: step.simps split: option.splits intro: reaches_step)

lemma release_then_reaches: "release_then so oo r order st s = Some (Inr (st', s')) \<Longrightarrow> reaches so oo s s'"
  by (auto simp: release_then_def and_then_Inr simp del: step.simps intro: reaches_step)

lemma report_failed_reaches: "report_failed so oo r keys s = Some (Inr s') \<Longrightarrow> reaches so oo s s'"
proof (induction keys arbitrary: s)
  case (Cons k keys)
  then show ?case by (auto simp: and_then_Inr) (meson reaches_trans set_init_result_reaches)
qed simp

lemma after_init_reaches: "after_init so oo r T e order s = Some (Inr (st', s')) \<Longrightarrow> reaches so oo s s'"
  by (auto simp: after_init_def and_then_Inr split: option.splits if_splits
      intro: reaches_trans [OF report_failed_reaches] release_then_reaches report_failed_reaches)

lemma init_loop_reaches: "init_loop so oo r T i order s = Some (Inr (st', s')) \<Longrightarrow> reaches so oo s s'"
  by (auto simp: init_loop_def split: if_splits intro: after_init_reaches)

lemma acq_recv_reaches:
  assumes "acq_recv so oo order ev st s = Some (Inr (st', s'))"
  shows "reaches so oo s s'"
proof (cases st)
  case AwaitAcquire
  then show ?thesis using assms
    by (auto simp: and_then_Inr simp del: step.simps split: recv.splits acquire_request.splits sum.splits intro: reaches_step)
next
  case (Initialising r T i)
  then show ?thesis using assms
    by (auto simp: and_then_Inr Let_def split: recv.splits acquire_request.splits if_splits
        intro: release_then_reaches after_init_reaches reaches_trans [OF set_init_result_reaches] init_loop_reaches)
next
  case (AwaitRelease r)
  then show ?thesis using assms
    by (auto split: recv.splits acquire_request.splits intro: release_then_reaches)
qed (use assms in simp_all)

lemma acq_return_reaches: "acq_return so oo e order st s = Some (Inr (st', s')) \<Longrightarrow> reaches so oo s s'"
  by (auto simp: acq_return_def split: acq_state.splits option.splits phase.splits
      intro: release_then_reaches init_loop_reaches)

lemma server_step_reaches:
  assumes "server_step so oo a v = Some (Inr v')"
  shows "reaches so oo (sv_sys v) (sv_sys v')"
proof (cases a)
  case (SInternal b)
  then show ?thesis using assms by (auto simp: map_sum_Inr simp del: step.simps split: if_splits intro: reaches_step)
next
  case (SReturn i e ns)
  then show ?thesis using assms by (auto simp: with_stream_Inr intro: acq_return_reaches)
next
  case (SRecv i ns ev)
  then show ?thesis using assms by (auto simp: with_stream_Inr intro: acq_recv_reaches simp del: acq_recv.simps)
qed (use assms in \<open>auto split: if_splits\<close>)

lemma server_step_request:
  assumes "server_reach so oo v" and "server_step so oo a v = Some (Inr v')" and "sy_reqs (sv_sys v) r = Some q"
  shows "\<exists>q'. sy_reqs (sv_sys v') r = Some q' \<and> rq_entries q' = rq_entries q"
  using reaches_request [OF _ server_step_reaches [OF assms(2)] assms(3)] server_reach_inv [OF assms(1)]
  by (simp add: server_inv_def)

text \<open>Events touch the stream they are about, if any.\<close>

fun about :: "server_event \<Rightarrow> nat option" where
  "about (SOpen j) = Some j"
| "about (SInternal a) = None"
| "about (SReturn j e ns) = Some j"
| "about (SRecv j ns ev) = Some j"

lemma foreign_about: "foreign a \<longleftrightarrow> (\<forall>j. about a = Some j \<longrightarrow> odd j)"
  by (cases a) auto

lemma server_step_streams:
  assumes "server_step so oo a v = Some (Inr v')" and "about a \<noteq> Some j"
  shows "sv_streams v' j = sv_streams v j"
  using assms by (cases a) (auto simp: with_stream_Inr map_sum_Inr simp del: step.simps acq_recv.simps split: if_splits)

lemma server_step_opened:
  assumes "server_step so oo a v = Some (Inr v')" and "about a = Some i" and "a \<noteq> SOpen i"
  shows "sv_streams v i \<noteq> None"
  using assms by (cases a) (auto simp: with_stream_Inr simp del: acq_recv.simps)

lemma foreign_run:
  assumes "server_reach so oo v" and "server_run so oo evs v = Some (Inr v')" and "list_all foreign evs"
  shows "server_reach so oo v' \<and> (\<forall>n. sv_streams v' (2 * n) = sv_streams v (2 * n)) \<and>
    (\<forall>r q. sy_reqs (sv_sys v) r = Some q \<longrightarrow> (\<exists>q'. sy_reqs (sv_sys v') r = Some q' \<and> rq_entries q' = rq_entries q))"
  using assms
proof (induction evs arbitrary: v)
  case (Cons a evs)
  then obtain u where u: "server_step so oo a v = Some (Inr u)" "server_run so oo evs u = Some (Inr v')"
    by (auto simp del: server_step.simps split: option.splits sum.splits)
  have "about a \<noteq> Some (2 * n)" for n using Cons.prems(3) by (auto simp: foreign_about)
  then have "sv_streams u (2 * n) = sv_streams v (2 * n)" for n using server_step_streams [OF u(1)] by blast
  moreover note Cons.IH [OF server_reach.step [OF Cons.prems(1) u(1)] u(2)] Cons.prems(3)
  ultimately show ?case using server_step_request [OF Cons.prems(1) u(1)] by simp metis
qed simp

section \<open>The invariant of the client's world\<close>

text \<open>
  Streams that have not been opened are unknown to the server, and every stream has a request of its own.
\<close>

definition beacon_inv :: "'s sem_ops \<Rightarrow> 'o once_ops \<Rightarrow> ('s, 'o) beacon_world \<Rightarrow> bool" where
  "beacon_inv so oo w \<longleftrightarrow>
     server_reach so oo (bw_server w) \<and>
     (\<forall>n \<ge> bw_next w. sv_streams (bw_server w) (2 * n) = None \<and> bw_req w (2 * n) = None) \<and>
     (\<forall>i r. bw_req w i = Some r \<longrightarrow> sy_reqs (sv_sys (bw_server w)) r \<noteq> None) \<and>
     (\<forall>i j r. bw_req w i = Some r \<longrightarrow> bw_req w j = Some r \<longrightarrow> i = j)"

lemma beacon_inv_server:
  assumes inv: "beacon_inv so oo w" and v: "server_reach so oo v"
    and str: "\<forall>n \<ge> bw_next w. sv_streams v (2 * n) = None"
    and req: "\<And>r q. sy_reqs (sv_sys (bw_server w)) r = Some q \<Longrightarrow> \<exists>q'. sy_reqs (sv_sys v) r = Some q'"
  shows "beacon_inv so oo (w\<lparr>bw_server := v\<rparr>)"
  using inv v str req unfolding beacon_inv_def by simp blast

lemma beacon_inv_own:
  assumes inv: "beacon_inv so oo w" and st: "server_step so oo a (bw_server w) = Some (Inr v)"
    and a: "about a = Some i" "a \<noteq> SOpen i"
  shows "beacon_inv so oo (w\<lparr>bw_server := v\<rparr>)"
proof (rule beacon_inv_server [OF inv])
  have re: "server_reach so oo (bw_server w)" using inv by (simp add: beacon_inv_def)
  show "server_reach so oo v" by (rule server_reach.step [OF re st])
  show "\<exists>q'. sy_reqs (sv_sys v) r = Some q'" if "sy_reqs (sv_sys (bw_server w)) r = Some q" for r q
    using server_step_request [OF re st that] by blast
  show "\<forall>n \<ge> bw_next w. sv_streams v (2 * n) = None"
  proof (intro allI impI)
    fix n
    assume n: "bw_next w \<le> n"
    then have none: "sv_streams (bw_server w) (2 * n) = None" using inv by (simp add: beacon_inv_def)
    then have "about a \<noteq> Some (2 * n)" using server_step_opened [OF st a] a(1) by auto
    then show "sv_streams v (2 * n) = None" using server_step_streams [OF st] none by metis
  qed
qed

section \<open>One call through the server\<close>

lemma acquire_entries_client_inv: "acquire_entries (client_targets params) = Inr es \<Longrightarrow> es = use_entries params"
proof (induction params arbitrary: es)
  case (Cons x params)
  obtain name p where x: "x = (name, p)" by (cases x)
  have IH: "acquire_entries (map (\<lambda>(name, param). (name, acquire_op_of param)) params) = Inr es \<Longrightarrow>
      es = map (\<lambda>(name, param). (name, \<lparr>en_exclusive = up_exclusive param, en_init = (up_init param \<noteq> None)\<rparr>)) params" for es
    using Cons.IH by (simp add: client_targets_def use_entries_def)
  show ?case
    using Cons.prems IH
    by (auto simp: x client_targets_def use_entries_def acquire_op_of_def map_sum_Inr split: if_splits)
qed (simp add: client_targets_def use_entries_def)

text \<open>Only entries that asked for the initialisation are handed it.\<close>

definition one_init :: "(string, use_param) go_map \<Rightarrow> bool" where
  "one_init params \<longleftrightarrow> length (filter (\<lambda>(_, p). up_init p \<noteq> None) params) \<le> 1"

lemma acquired_asked:
  assumes "held_use so oo s r params" and "acquired s r k"
  shows "\<exists>p. map_of params k = Some p \<and> up_init p \<noteq> None"
proof -
  obtain cl q where cl: "sy_reqs s r = Some q" "rq_go q k = GLocked cl" "cl_init cl" and q: "rq_entries q = use_entries params"
    using assms by (auto simp: acquired_def InitAcquired_def lock_of_def held_use_def split: option.splits goroutine.splits)
  have "lock_shape q" using sys_reach_locks_fit [of so oo s] assms(1) cl(1) by (auto simp: held_use_def locks_fit_def)
  then obtain p where "rq_entry q k = Some p" "lock_fits k p cl" using cl(2) unfolding lock_shape_def by blast
  then show ?thesis using cl(3) q by (auto simp: map_of_use_entries lock_fits_def)
qed

lemma one_init_targets:
  assumes h: "held_use so oo s r params" and "one_init params" and "distinct (map fst params)"
  shows "length (filter (acquired s r) (map fst params)) \<le> 1"
proof -
  have imp: "up_init p \<noteq> None" if "(k, p) \<in> set params" "acquired s r k" for k p
    using acquired_asked [OF h that(2)] that(1) assms(3) by (auto simp: map_of_is_SomeI)
  have "length (filter (acquired s r) (map fst ps)) \<le> length (filter (\<lambda>(_, p). up_init p \<noteq> None) ps)"
    if "set ps \<subseteq> set params" for ps
    using that imp by (induction ps) auto
  then show ?thesis using assms(2) unfolding one_init_def by (meson order_refl order_trans)
qed

text \<open>The loop only looks at the containers whose initialisation was handed over.\<close>

lemma report_inits_targets:
  "report_inits app cli st params results w =
     report_inits app cli st params (map (\<lambda>n. (n, StateLocked, True)) (init_targets results)) w"
proof (induction results arbitrary: w)
  case (Cons x results)
  obtain n l f where x: "x = (n, l, f)" by (cases x)
  show ?case
  proof (cases f)
    case True
    then have T: "init_targets (x # results) = n # init_targets results" by (simp add: x init_targets_def)
    show ?thesis unfolding T by (simp add: x True Cons.IH [symmetric] del: report_inits.simps)
      (simp only: report_inits.simps Cons.IH [symmetric])
  next
    case False
    then have T: "init_targets (x # results) = init_targets results" by (simp add: x init_targets_def)
    show ?thesis unfolding T using Cons.IH False by (simp add: x)
  qed
qed (simp add: init_targets_def)

abbreviation moved :: "nat \<Rightarrow> acq_state \<Rightarrow> ('s, 'o) sys \<Rightarrow> ('s, 'o) server \<Rightarrow> ('s, 'o) server" where
  "moved i st s v \<equiv> \<lparr>sv_sys = s, sv_streams = (sv_streams v)(i \<mapsto> st)\<rparr>"

lemma fair_release:
  assumes "fair_beacon sd" and "sv_streams v i = Some st" and "works_for st r" and "held_use so oo (sv_sys v) r params"
  shows "distinct (bs_release sd i v)" and "set (bs_release sd i v) = set (map fst params)"
proof -
  obtain q where q: "sy_reqs (sv_sys v) r = Some q" "rq_entries q = use_entries params"
    using assms(4) by (auto simp: held_use_def)
  have "keys_of q = set (map fst params)" by (simp add: keys_of_def q(2))
  then show "distinct (bs_release sd i v)" "set (bs_release sd i v) = set (map fst params)"
    using assms(1-3) q(1) unfolding fair_beacon_def by metis+
qed

context weighted_semaphore
begin

text \<open>Reporting the one initialisation.\<close>

lemma report_one:
  assumes v: "sv_streams v i = Some (Initialising r [n] 0)" and h: "held_use so oo (sv_sys v) r params"
    and n: "n \<in> set (map fst params)"
  shows "\<exists>s'. server_step so oo (SRecv i order (Msg (InitParam n ok))) v = Some (Inr (moved i (AwaitRelease r) s' v)) \<and>
    held_use so oo s' r params \<and> reported so oo r n ok (sv_sys v) s'"
proof -
  obtain cl where cl: "lock_of (sv_sys v) r n = Some cl" using held_use_lock [OF h n] by metis
  obtain s' where s': "step so oo (InitResult r n ok) (sv_sys v) = Some (Inr s')" "held_use so oo s' r params"
    "reported so oo r n ok (sv_sys v) s'" using init_result_step [OF h n] by blast
  have "set_init_result so oo r n ok (sv_sys v) = Some (Inr s')" using s'(1) cl by (simp add: set_init_result_def)
  then show ?thesis
    using s'(2,3) v by (auto simp: with_stream_def and_then_def init_loop_def after_init_nil)
qed

text \<open>The end of a stream that holds its locks: the release message, or the end of the stream.\<close>

lemma release_message:
  assumes v: "sv_streams v i = Some (AwaitRelease r)" and h: "held_use so oo (sv_sys v) r params"
    and fo: "fair_beacon sd" and ev: "ev = Msg ReleaseParam \<or> ev = EOF"
  shows "\<exists>st s'. server_step so oo (SRecv i (bs_release sd i v) ev) v = Some (Inr (moved i st s' v)) \<and>
    (ev = Msg ReleaseParam \<longrightarrow> st = AwaitAcquire) \<and> (\<forall>k. hold s' r k = None)"
proof -
  have o: "distinct (bs_release sd i v)" "set (bs_release sd i v) = set (map fst params)"
    using fair_release [OF fo v _ h] by simp_all
  from ev show ?thesis
    using release_then_held [OF h o, of AwaitAcquire] release_then_held [OF h o, of "Ended (Some (StreamErr ''EOF''))"] v
    by (auto simp: with_stream_def)
qed

text \<open>The modes in which a call holds its containers when nothing is left to initialise.\<close>

lemma modes_plain:
  assumes h: "held_use so oo s r params" and none: "filter (acquired s r) (map fst params) = []"
    and k: "map_of params k = Some p"
  shows "hold s r k = Some (up_exclusive p)"
proof -
  have "\<not> acquired s r k" using none k by (force simp: filter_empty_conv dest: map_of_SomeD)
  then show ?thesis using held_modes(2,3) [OF h k] by blast
qed

lemma modes_reported:
  assumes h: "held_use so oo s r params" and one: "filter (acquired s r) (map fst params) = [n]"
    and h': "held_use so oo s' r params" and rep: "reported so oo r n True s s'" and k: "map_of params k = Some p"
  shows "hold s' r k = Some (up_exclusive p)"
proof -
  have n: "acquired s r n" using one by (metis filter_eq_Cons_iff)
  have mem: "k \<in> set (map fst params)" using k by (force dest: map_of_SomeD)
  have other: "\<not> acquired s r k" if "k \<noteq> n"
  proof
    assume "acquired s r k"
    then have "k \<in> set (filter (acquired s r) (map fst params))" using mem by simp
    then show False using one that by simp
  qed
  have "up_exclusive p \<or> is_shared s' r k"
    using held_modes(1,3) [OF h k] reported_modes [OF rep] other n by metis
  then show ?thesis using held_modes(2) [OF h' k] by simp
qed

end

section \<open>The parts of a call\<close>

lemma served_simps:
  "acl_open (served so oo sd) w =
     (case server_step so oo (SOpen (2 * bw_next w)) (bw_server w) of
        Some (Inr v) \<Rightarrow> (Inr (2 * bw_next w), w\<lparr>bw_server := v, bw_next := bw_next w + 1\<rparr>)
      | _ \<Rightarrow> (Inl (ErrorString ''unavailable''), w))"
  "acl_Send (served so oo sd) i m w =
     (case server_step so oo (SRecv i (bs_release sd i (bw_server w)) (Msg m)) (bw_server w) of
        Some (Inr v) \<Rightarrow> (None, w\<lparr>bw_server := v, bw_req := started_call i v (bw_req w)\<rparr>)
      | _ \<Rightarrow> (Some (ErrorString ''EOF''), w))"
  "acl_CloseSend (served so oo sd) i w =
     (case server_step so oo (SRecv i (bs_release sd i (bw_server w)) EOF) (bw_server w) of
        Some (Inr v) \<Rightarrow> (None, w\<lparr>bw_server := v\<rparr>)
      | _ \<Rightarrow> (Some (ErrorString ''stream closed''), w))"
  by (simp_all add: served_def Let_def)

text \<open>Opening the stream.\<close>

lemma open_call:
  assumes inv: "beacon_inv so oo w"
  shows "\<exists>w1. acl_open (served so oo sd) w = (Inr (2 * bw_next w), w1) \<and> beacon_inv so oo w1 \<and>
    sv_streams (bw_server w1) (2 * bw_next w) = Some AwaitAcquire \<and> bw_req w1 (2 * bw_next w) = None"
proof -
  let ?i = "2 * bw_next w" and ?v = "bw_server w"
  let ?v1 = "?v\<lparr>sv_streams := (sv_streams ?v)(?i \<mapsto> AwaitAcquire)\<rparr>"
  have st: "server_step so oo (SOpen ?i) ?v = Some (Inr ?v1)" using inv by (simp add: beacon_inv_def)
  have "server_reach so oo ?v1" using inv server_reach.step [OF _ st] by (simp add: beacon_inv_def)
  then have "beacon_inv so oo (w\<lparr>bw_server := ?v1, bw_next := bw_next w + 1\<rparr>)"
    using inv by (auto simp: beacon_inv_def)
  moreover have "bw_req w ?i = None" using inv by (simp add: beacon_inv_def)
  ultimately show ?thesis unfolding served_simps st by simp
qed

text \<open>Asking for the locks: the message is refused, the handler returns with an error, or it acquires.\<close>

lemma send_acquire:
  assumes inv: "beacon_inv so oo w" and i: "sv_streams (bw_server w) i = Some AwaitAcquire" "bw_req w i = None"
    and send: "acl_Send (served so oo sd) i (AcquireParam (client_targets params)) w = (e, w2)"
  obtains (refused) "e \<noteq> None" "w2 = w"
  | (ended) x where "e = None" "beacon_inv so oo w2" "bw_req w2 i = None" "sv_streams (bw_server w2) i = Some (Ended x)"
  | (started) r q where "e = None" "beacon_inv so oo w2" "bw_req w2 i = Some r" "distinct (map fst params)"
      "sv_streams (bw_server w2) i = Some (Acquiring r)" "sy_reqs (sv_sys (bw_server w2)) r = Some q" "rq_entries q = use_entries params"
proof -
  let ?a = "SRecv i (bs_release sd i (bw_server w)) (Msg (AcquireParam (client_targets params)))"
  show thesis
  proof (cases "\<exists>v. server_step so oo ?a (bw_server w) = Some (Inr v)")
    case False
    then have "e \<noteq> None \<and> w2 = w" using send unfolding served_simps by (auto split: option.splits sum.splits)
    then show thesis using refused by blast
  next
    case True
    then obtain v where v: "server_step so oo ?a (bw_server w) = Some (Inr v)" by blast
    have w2: "e = None" "w2 = w\<lparr>bw_server := v, bw_req := started_call i v (bw_req w)\<rparr>"
      using send unfolding served_simps v by auto
    have inv1: "beacon_inv so oo (w\<lparr>bw_server := v\<rparr>)" by (rule beacon_inv_own [OF inv v]) simp_all
    obtain st s' where st: "acq_recv so oo (bs_release sd i (bw_server w)) (Msg (AcquireParam (client_targets params)))
        AwaitAcquire (sv_sys (bw_server w)) = Some (Inr (st, s'))" "v = moved i st s' (bw_server w)"
      using v i(1) by (auto simp: with_stream_Inr simp del: acq_recv.simps)
    show thesis
    proof (cases "acquire_entries (client_targets params)")
      case (Inl err)
      then have "st = Ended (Some err)" using st(1) by simp
      then have "w2 = w\<lparr>bw_server := v\<rparr>" "sv_streams v i = Some (Ended (Some err))" by (simp_all add: w2 st(2) started_call_def)
      then show thesis using ended w2(1) inv1 i(2) by simp
    next
      case (Inr es)
      note es = acquire_entries_client_inv [OF Inr]
      let ?r = "ac_next (ctl (sv_sys (bw_server w)))"
      have acc: "step so oo (Accept es) (sv_sys (bw_server w)) = Some (Inr s')" "st = Acquiring ?r"
        using st(1) Inr by (auto simp: and_then_Inr)
      have q: "\<exists>q. sy_reqs s' ?r = Some q \<and> rq_entries q = es" and d: "distinct (map fst params)"
        using acc(1) by (auto simp: do_accept_def Let_def case_prod_beta adm.enter_ticket es split: if_splits)
      have "sys_reach so oo (sv_sys (bw_server w))"
        using inv server_reach_inv by (auto simp: beacon_inv_def server_inv_def)
      then have fresh: "sy_reqs (sv_sys (bw_server w)) ?r = None"
        using struct_invD(3) [OF sys_reach_struct_inv] by (metis less_irrefl option.exhaust)
      have "bw_req w j \<noteq> Some ?r" for j using inv fresh unfolding beacon_inv_def by blast
      then have "beacon_inv so oo (w\<lparr>bw_server := v, bw_req := (bw_req w)(i \<mapsto> ?r)\<rparr>)"
        using inv1 q i(1) inv by (auto simp: beacon_inv_def st(2))
      then show thesis using started [of ?r] w2 q d es by (auto simp: st(2) acc(2) started_call_def)
    qed
  qed
qed

text \<open>Waiting for the answer: the request has failed, or it holds its containers.\<close>

lemma recv_answer:
  assumes inv: "beacon_inv so oo w" and fo: "fair_beacon sd" and i: "even i"
    and r: "bw_req w i = Some r" "sv_streams (bw_server w) i = Some (Acquiring r)" "sy_reqs (sv_sys (bw_server w)) r = Some q"
      "rq_entries q = use_entries params"
    and recv: "acl_Recv (served so oo sd) i w = Some (ans, w3)"
  obtains (failed) e where "ans = Inl e" "beacon_inv so oo w3" "bw_req w3 i = Some r" "\<forall>k. hold (sv_sys (bw_server w3)) r k = None"
  | (held) results where "ans = Inr results" "beacon_inv so oo w3" "bw_req w3 i = Some r"
      "held_use so oo (sv_sys (bw_server w3)) r params" "init_targets results = filter (acquired (sv_sys (bw_server w3)) r) (map fst params)"
      "sv_streams (bw_server w3) i =
         Some (if init_targets results = [] then AwaitRelease r else Initialising r (init_targets results) 0)"
proof -
  obtain v v' where run: "server_run so oo (bs_events sd i (bw_server w)) (bw_server w) = Some (Inr v)"
    and ret: "server_step so oo (SReturn i None (bs_release sd i v)) v = Some (Inr v')"
    and w3: "ans = answer_of v r" "w3 = w\<lparr>bw_server := v'\<rparr>"
    using recv r(2) by (auto simp: served_def simp del: server_run.simps server_step.simps split: option.splits sum.splits)
  have re0: "server_reach so oo (bw_server w)" using inv by (simp add: beacon_inv_def)
  have fr: "list_all foreign (bs_events sd i (bw_server w))" using fo by (simp add: fair_beacon_def)
  note f = foreign_run [OF re0 run fr]
  have inv1: "beacon_inv so oo (w\<lparr>bw_server := v\<rparr>)"
  proof (rule beacon_inv_server [OF inv])
    show "\<exists>q'. sy_reqs (sv_sys v) x = Some q'" if "sy_reqs (sv_sys (bw_server w)) x = Some y" for x y
      using f that by blast
  qed (use f inv in \<open>simp_all add: beacon_inv_def\<close>)
  have inv3: "beacon_inv so oo w3"
    using beacon_inv_own [OF inv1, of "SReturn i None (bs_release sd i v)" v' i] ret by (simp add: w3(2) del: server_step.simps)
  have vi: "sv_streams v i = Some (Acquiring r)" using f r(2) i by (auto elim!: evenE)
  obtain q' where q': "sy_reqs (sv_sys v) r = Some q'" "rq_entries q' = use_entries params" using f r(3,4) by fastforce
  have re: "sys_reach so oo (sv_sys v)" using f server_reach_inv by (auto simp: server_inv_def)
  show thesis
  proof (cases "rq_phase q'")
    case PHeld
    let ?res = "acquire_results (sv_sys v) r (use_entries params)"
    have T: "init_targets ?res = filter (acquired (sv_sys v) r) (map fst params)"
      using init_targets_results(1) [of ?res "sv_sys v" r params] acquire_results_keys [of "sv_sys v" r "use_entries params"]
      by simp
    have h: "held_use so oo (sv_sys v) r params" using re q' PHeld by (auto simp: held_use_def)
    have v': "v' = moved i (if init_targets ?res = [] then AwaitRelease r else Initialising r (init_targets ?res) 0) (sv_sys v) v"
      using ret vi q' PHeld by (auto simp: with_stream_Inr acq_return_def init_loop_def after_init_nil split: if_splits)
    have "ans = Inr ?res" using q' PHeld by (simp add: w3(1) answer_of_def)
    then show thesis
      using held [of ?res] inv3 h T r(1) by (simp add: w3(2) v')
  next
    case PFailed
    have v': "sv_sys v' = sv_sys v" using ret vi q' PFailed by (auto simp: with_stream_Inr acq_return_def)
    have "locked_keys q' = {}"
      using struct_invD(2) [OF sys_reach_struct_inv [OF re] q'(1)] PFailed by (auto simp: req_ok_def req_shape_def)
    then have "\<forall>k. hold (sv_sys v) r k = None" using q'(1) by (auto simp: hold_def mode_None locked_keys_def)
    then show thesis using failed inv3 r(1) q' PFailed by (simp add: w3 v' answer_of_def)
  qed (use ret vi q' in \<open>simp_all add: with_stream_def acq_return_def\<close>)
qed

definition beacon_owns ::
  "'s sem_ops \<Rightarrow> 'o once_ops \<Rightarrow> ('s, 'o) beacon_world \<Rightarrow> nat \<Rightarrow> (string, use_param) go_map \<Rightarrow> bool" where
  "beacon_owns so oo w i params \<longleftrightarrow> beacon_inv so oo w \<and>
     (\<exists>r. bw_req w i = Some r \<and> sv_streams (bw_server w) i = Some (AwaitRelease r) \<and>
        held_use so oo (sv_sys (bw_server w)) r params)"

context weighted_semaphore
begin

text \<open>The reports of a call with at most one initialisation.\<close>

lemma report_call:
  assumes inv: "beacon_inv so oo w" and fo: "fair_beacon sd" and r: "bw_req w i = Some r"
    and h: "held_use so oo (sv_sys (bw_server w)) r params"
    and T: "init_targets results = filter (acquired (sv_sys (bw_server w)) r) (map fst params)" "length (init_targets results) \<le> 1"
    and i: "sv_streams (bw_server w) i =
      Some (if init_targets results = [] then AwaitRelease r else Initialising r (init_targets results) 0)"
    and rep: "report_inits app (served so oo sd) i params results w = (x, w')"
  shows "beacon_inv so oo w' \<and>
    (if x = None then beacon_owns so oo w' i params \<and> (\<forall>k p. map_of params k = Some p \<longrightarrow> call_hold w' i k = Some (up_exclusive p))
     else \<forall>k. call_hold w' i k = None)"
proof (cases "init_targets results")
  case Nil
  have "report_inits app (served so oo sd) i params [] w = (x, w')"
    using rep Nil unfolding report_inits_targets [of _ _ _ _ results] by simp
  then have "x = None" "w' = w" by simp_all
  moreover have "beacon_owns so oo w i params" using inv r h i Nil by (auto simp: beacon_owns_def)
  moreover have "call_hold w i k = Some (up_exclusive p)" if "map_of params k = Some p" for k p
    using modes_plain [OF h _ that] T(1) Nil r by (simp add: call_hold_def)
  ultimately show ?thesis using inv by simp
next
  case (Cons n ns)
  then have one: "init_targets results = [n]" using T(2) by simp
  have rep1: "report_inits app (served so oo sd) i params [(n, StateLocked, True)] w = (x, w')"
    using rep one unfolding report_inits_targets [of _ _ _ _ results] by simp
  let ?v = "bw_server w" and ?ok = "init_succeeds params n"
  have fil: "filter (acquired (sv_sys ?v) r) (map fst params) = [n]" using T(1) one by simp
  have "n \<in> set (filter (acquired (sv_sys ?v) r) (map fst params))" using fil by simp
  then have n: "n \<in> set (map fst params)" by simp
  have vi: "sv_streams ?v i = Some (Initialising r [n] 0)" using i one by simp
  obtain s1 where s1: "server_step so oo (SRecv i (bs_release sd i ?v) (Msg (InitParam n ?ok))) ?v =
      Some (Inr (moved i (AwaitRelease r) s1 ?v))" "held_use so oo s1 r params" "reported so oo r n ?ok (sv_sys ?v) s1"
    using report_one [OF vi h n] by blast
  let ?v1 = "moved i (AwaitRelease r) s1 ?v"
  have inv1: "beacon_inv so oo (w\<lparr>bw_server := ?v1\<rparr>)" by (rule beacon_inv_own [OF inv s1(1)]) simp_all
  have send: "acl_Send (served so oo sd) i (InitParam n ?ok) w = (None, w\<lparr>bw_server := ?v1\<rparr>)"
    unfolding served_simps s1(1) by (simp add: started_call_def)
  have ok: "(initSafe (Option.bind (map_of params n) up_init) = None) = ?ok" by (simp add: init_succeeds_def)
  show ?thesis
  proof (cases ?ok)
    case True
    then have x: "x = None" "w' = w\<lparr>bw_server := ?v1\<rparr>"
      using rep1 send ok by simp_all
    have "beacon_owns so oo w' i params" using inv1 r s1(2) by (auto simp: beacon_owns_def x(2))
    moreover have "call_hold w' i k = Some (up_exclusive p)" if "map_of params k = Some p" for k p
      using modes_reported [OF h fil s1(2) _ that] s1(3) True r by (simp add: call_hold_def x(2))
    ultimately show ?thesis using inv1 x by simp
  next
    case False
    obtain st s2 where s2: "server_step so oo (SRecv i (bs_release sd i ?v1) EOF) ?v1 = Some (Inr (moved i st s2 ?v1))"
      "\<forall>k. hold s2 r k = None"
      using release_message [of ?v1 i r oo params sd EOF] s1(2) fo by auto
    have close: "acl_CloseSend (served so oo sd) i (w\<lparr>bw_server := ?v1\<rparr>) = (None, w\<lparr>bw_server := moved i st s2 ?v1\<rparr>)"
      unfolding served_simps using s2(1) by simp
    have x: "x \<noteq> None" "w' = w\<lparr>bw_server := moved i st s2 ?v1\<rparr>"
      using rep1 send close ok False by (auto simp: Let_def)
    have "beacon_inv so oo ((w\<lparr>bw_server := ?v1\<rparr>)\<lparr>bw_server := moved i st s2 ?v1\<rparr>)"
      by (rule beacon_inv_own [OF inv1, of "SRecv i (bs_release sd i ?v1) EOF"]) (use s2(1) in simp_all)
    then show ?thesis using x s2(2) r by (auto simp: call_hold_def)
  qed
qed

end

section \<open>The contract of a control, through the server\<close>

lemma beacon_acquire_steps:
  "beacon_acquire so oo sd app params w =
     (case acl_open (served so oo sd) w of
        (Inl err, w1) \<Rightarrow> Some (Inl err, w1)
      | (Inr st, w1) \<Rightarrow>
          (case acl_Send (served so oo sd) st (AcquireParam (client_targets params)) w1 of
             (Some err, w2) \<Rightarrow> Some (Inl err, w2)
           | (None, w2) \<Rightarrow>
               (case acl_Recv (served so oo sd) st w2 of
                  None \<Rightarrow> None
                | Some (Inl err, w3) \<Rightarrow> Some (Inl err, w3)
                | Some (Inr results, w3) \<Rightarrow>
                    (case report_inits app (served so oo sd) st params results w3 of
                       (None, w4) \<Rightarrow> Some (Inr st, w4)
                     | (Some None, w4) \<Rightarrow> None
                     | (Some (Some err), w4) \<Rightarrow> Some (Inl err, w4)))))"
  by (simp add: beacon_acquire_def beacon_LockForContainerUse_def NewBeaconControl_def Let_def
      split: prod.split sum.split option.split)

context weighted_semaphore
begin

lemma beacon_call:
  assumes inv: "beacon_inv so oo w" and fo: "fair_beacon sd" and one: "one_init params"
    and call: "beacon_acquire so oo sd app params w = Some (res, w')"
  shows "beacon_inv so oo w' \<and>
    (case res of
       Inl e \<Rightarrow> \<forall>k. call_hold w' (2 * bw_next w) k = None
     | Inr h \<Rightarrow> h = 2 * bw_next w \<and> beacon_owns so oo w' h params \<and>
         (\<forall>k p. map_of params k = Some p \<longrightarrow> call_hold w' h k = Some (up_exclusive p)))"
proof -
  let ?i = "2 * bw_next w" and ?cli = "served so oo sd"
  obtain w1 where w1: "acl_open ?cli w = (Inr ?i, w1)" "beacon_inv so oo w1"
    "sv_streams (bw_server w1) ?i = Some AwaitAcquire" "bw_req w1 ?i = None"
    using open_call [OF inv] by blast
  obtain e w2 where send: "acl_Send ?cli ?i (AcquireParam (client_targets params)) w1 = (e, w2)" by force
  note call1 = call [unfolded beacon_acquire_steps w1(1), simplified, unfolded send, simplified]
  from w1(2,3,4) send show ?thesis
  proof (cases rule: send_acquire)
    case refused
    then show ?thesis using call1 w1(2,4) by (auto simp: call_hold_def)
  next
    case (ended x)
    then have "acl_Recv ?cli ?i w2 = Some (Inl (ErrorString ''stream closed''), w2)" by (simp add: served_def)
    then show ?thesis using call1 ended by (auto simp: call_hold_def)
  next
    case (started r q)
    obtain ans w3 where recv: "acl_Recv ?cli ?i w2 = Some (ans, w3)" using call1 started(1) by (auto split: option.splits)
    have ev: "even ?i" by simp
    from started(2) fo ev started(3,5-7) recv show ?thesis
    proof (cases rule: recv_answer)
      case (failed err)
      then show ?thesis using call1 started(1) recv by (auto simp: call_hold_def)
    next
      case (held results)
      obtain x w4 where rep: "report_inits app ?cli ?i params results w3 = (x, w4)" by force
      have len: "length (init_targets results) \<le> 1"
        using one_init_targets [OF held(4) one started(4)] held(5) by simp
      note R = report_call [OF held(2) fo held(3,4,5) len held(6) rep]
      then show ?thesis
        using call1 started(1) recv held(1) rep by (auto split: option.splits)
    qed
  qed
qed

lemma beacon_given_back:
  assumes own: "beacon_owns so oo w i params" and fo: "fair_beacon sd"
  shows "\<exists>w'. beacon_release so oo sd i w = Inr w' \<and> beacon_inv so oo w' \<and> (\<forall>k. call_hold w' i k = None)"
proof -
  let ?v = "bw_server w"
  obtain r where inv: "beacon_inv so oo w" and r: "bw_req w i = Some r" "sv_streams ?v i = Some (AwaitRelease r)"
    "held_use so oo (sv_sys ?v) r params" using own by (auto simp: beacon_owns_def)
  obtain s' where s': "server_step so oo (SRecv i (bs_release sd i ?v) (Msg ReleaseParam)) ?v =
      Some (Inr (moved i AwaitAcquire s' ?v))" "\<forall>k. hold s' r k = None"
    using release_message [OF r(2,3) fo, of "Msg ReleaseParam"] by blast
  let ?v1 = "moved i AwaitAcquire s' ?v"
  let ?v2 = "moved i (Ended None) s' ?v1"
  have send: "acl_Send (served so oo sd) i ReleaseParam w = (None, w\<lparr>bw_server := ?v1\<rparr>)"
    unfolding served_simps s'(1) by (simp add: started_call_def)
  have st2: "server_step so oo (SRecv i order EOF) ?v1 = Some (Inr ?v2)" for order by (simp add: with_stream_def)
  have close: "acl_CloseSend (served so oo sd) i (w\<lparr>bw_server := ?v1\<rparr>) = (None, w\<lparr>bw_server := ?v2\<rparr>)"
    unfolding served_simps using st2 by simp
  have "beacon_inv so oo (w\<lparr>bw_server := ?v1\<rparr>)" by (rule beacon_inv_own [OF inv s'(1)]) simp_all
  then have "beacon_inv so oo ((w\<lparr>bw_server := ?v1\<rparr>)\<lparr>bw_server := ?v2\<rparr>)"
    by (rule beacon_inv_own [where a = "SRecv i [] EOF" and i = i]) (use st2 in simp_all)
  moreover have "beacon_release so oo sd i w = Inr (w\<lparr>bw_server := ?v2\<rparr>)"
    by (simp add: beacon_release_def beacon_unlock_def NewBeaconControl_def send close)
  ultimately show ?thesis using s'(2) r(1) by (simp add: call_hold_def)
qed

text \<open>What one request of the server holds exclusively no other request holds, of whatever client.\<close>

lemma beacon_excludes:
  assumes "beacon_inv so oo w" and "call_hold w i k = Some x" and "bw_req w i = Some r" and "r' \<noteq> r"
  shows "hold (sv_sys (bw_server w)) r' k = None \<or> \<not> x \<and> hold (sv_sys (bw_server w)) r' k = Some False"
proof -
  have re: "sys_reach so oo (sv_sys (bw_server w))"
    using assms(1) server_reach_inv by (auto simp: beacon_inv_def server_inv_def)
  have h: "hold (sv_sys (bw_server w)) r k = Some x" using assms(2,3) by (simp add: call_hold_def)
  show ?thesis
  proof (cases "hold (sv_sys (bw_server w)) r' k")
    case (Some y)
    have "\<not> y" using reach_exclusion [OF re, of r' k r] Some h assms(4) by (cases y) auto
    moreover have "\<not> x" using reach_exclusion [OF re, of r k r'] Some h assms(4) by (cases x) auto
    ultimately show ?thesis using Some by simp
  qed simp
qed

end

locale scheduled_beacon = weighted_semaphore so cur size_of
  for so :: "'s sem_ops" and cur :: "'s \<Rightarrow> int" and size_of :: "'s \<Rightarrow> int" +
  fixes oo :: "'o once_ops" and sd :: "('s, 'o) beacon_schedule"
  assumes fair: "fair_beacon sd"

sublocale scheduled_beacon \<subseteq> remote: use_control "beacon_acquire so oo sd app" "beacon_release so oo sd" "beacon_inv so oo"
  "\<lambda>w. 2 * bw_next w" call_hold "beacon_owns so oo" one_init for app
proof
  fix l l' :: "('s, 'o) beacon_world" and i j h k params e
  show "j = i" if ex: "beacon_inv so oo l" "call_hold l i k = Some True" "call_hold l j k \<noteq> None"
  proof -
    obtain r r' where r: "bw_req l i = Some r" "bw_req l j = Some r'"
      using ex(2,3) by (auto simp: call_hold_def split: option.splits)
    then have "r' = r" using beacon_excludes [OF ex(1,2) r(1), of r'] ex(3) r(2)
      by (cases "r' = r") (auto simp: call_hold_def)
    then show "j = i" using r ex(1) unfolding beacon_inv_def by blast
  qed
  show "beacon_inv so oo l' \<and> h = 2 * bw_next l \<and> beacon_owns so oo l' h params \<and>
      (\<forall>k p. map_of params k = Some p \<longrightarrow> call_hold l' h k = Some (up_exclusive p))"
    if "beacon_inv so oo l" "beacon_acquire so oo sd app params l = Some (Inr h, l')" "one_init params"
    using beacon_call [OF that(1) fair that(3,2), unfolded sum.case] .
  show "beacon_inv so oo l' \<and> (\<forall>k. call_hold l' (2 * bw_next l) k = None)"
    if "beacon_inv so oo l" "beacon_acquire so oo sd app params l = Some (Inl e, l')" "one_init params"
    using beacon_call [OF that(1) fair that(3,2)] by simp
  show "\<exists>l'. beacon_release so oo sd h l = Inr l' \<and> beacon_inv so oo l' \<and> (\<forall>k. call_hold l' h k = None)"
    if "beacon_owns so oo l h params"
    using beacon_given_back [OF that fair] .
qed

context scheduled_beacon
begin

lemmas use_granted = remote.Use_granted and use_refused = remote.Use_refused and chain_granted = remote.Chain_granted
  and chain_refused = remote.Chain_refused and gives_back = remote.gives_back_def

end

section \<open>A schedule that serves one call at once\<close>

fun request_of :: "acq_state \<Rightarrow> nat option" where
  "request_of (Acquiring r) = Some r"
| "request_of (Initialising r T i) = Some r"
| "request_of (AwaitRelease r) = Some r"
| "request_of _ = None"

definition at_once :: "('s, 'o) beacon_schedule" where
  "at_once =
     \<lparr>bs_events = (\<lambda>i v. case Option.bind (sv_streams v i) request_of of
        None \<Rightarrow> []
      | Some r \<Rightarrow> map SInternal (sd_steps greedy r (sv_sys v))),
      bs_release = (\<lambda>i v. case Option.bind (sv_streams v i) request_of of
        None \<Rightarrow> []
      | Some r \<Rightarrow> sd_release greedy r (sv_sys v))\<rparr>"

lemma at_once_fair: "fair_beacon at_once"
  using greedy_orders
  by (auto simp: fair_beacon_def at_once_def works_for_def fair_orders_def list_all_iff split: option.splits)

interpretation gbeacon: scheduled_beacon counting_sem fst snd list_once at_once
  by unfold_locales (rule at_once_fair)

definition NewBeaconWorld :: "'o once_ops \<Rightarrow> ('s, 'o) beacon_world" where
  "NewBeaconWorld oo = \<lparr>bw_server = NewServer oo, bw_next = 0, bw_req = Map.empty\<rparr>"

lemma NewBeaconWorld_inv: "beacon_inv so oo (NewBeaconWorld oo)"
  by (simp add: beacon_inv_def NewBeaconWorld_def server_reach.start) (simp add: NewServer_def)

section \<open>Main properties\<close>


text \<open>A container whose control goes through a beacon server.\<close>

definition beacon_container :: "string \<Rightarrow> (int \<times> int, string list) beacon_world container" where
  "beacon_container name =
     \<lparr>cn_ex = \<lparr>ct_LockForNamespace = Granted, ct_UnlockNamespace = Inr, ct_LockForBuild = (\<lambda>_ l _. Granted l),
         ct_UnlockBuild = (\<lambda>l _. Inr l), ct_LockForContainerSetup = (\<lambda>_ l _. Granted l), ct_UnlockContainerSetup = (\<lambda>l _. Inr l),
         ct_LockForContainerUse = beacon_acquire counting_sem list_once at_once first_of,
         ct_UnlockContainerUse = beacon_release counting_sem list_once at_once\<rparr>,
      cn_id = ''1'', cn_name = name, cn_alias = name, cn_ports = []\<rparr>"

lemma beacon_container_simps:
  "ct_LockForContainerUse (cn_ex (beacon_container name)) = beacon_acquire counting_sem list_once at_once first_of"
  "ct_UnlockContainerUse (cn_ex (beacon_container name)) = beacon_release counting_sem list_once at_once"
  "cn_name (beacon_container name) = name" "cn_ports (beacon_container name) = []"
  by (simp_all add: beacon_container_def)




end
