(* ===== verification/Unique_Values.thy ===== *)
theory Unique_Values
  imports Confort_Prelude "HOL-Library.Word"
begin

unbundle bit_operations_syntax

text \<open>
  unique/unique.go and internal/beacon/server/unique.go: generators of values that no two tests see
  twice. A local generator remembers the values it has handed out; a global one asks the beacon
  server to store each value under a store name. The generating function of the user is a
  parameter with its own state, and so is the gRPC client; the locale \<open>value_store_service\<close> is what the
  global generator relies on, and the server of this repository provides it.
\<close>

section \<open>Errors\<close>

text \<open>Error values compared by identity (\<open>errors.Is\<close>), errors of the user's function and of the RPC.\<close>

datatype unique_error =
    ErrRetryable
  | ErrFailedToGenerate
  | FnError string
  | RpcError string
  | WrapError string unique_error

fun is_retryable :: "unique_error \<Rightarrow> bool" where
  "is_retryable ErrRetryable = True"
| "is_retryable (WrapError _ e) = is_retryable e"
| "is_retryable _ = False"

type_synonym ('g, 'v) fn = "'g \<Rightarrow> (unique_error + 'v) \<times> 'g"

section \<open>The server\<close>

record value_store =
  vs_values :: "(string \<Rightarrow> bool option) option"

definition empty_store :: value_store where
  "empty_store = \<lparr>vs_values = None\<rparr>"

text \<open>\<open>s.values[v]\<close> is false for a value that is not in the map.\<close>

definition tryStore :: "value_store \<Rightarrow> string \<Rightarrow> bool \<times> value_store" where
  "tryStore s v =
     (let values = (case vs_values s of None \<Rightarrow> Map.empty | Some m \<Rightarrow> m) in
      if values v = Some True then (False, s\<lparr>vs_values := Some values\<rparr>)
      else (True, s\<lparr>vs_values := Some (values(v \<mapsto> True))\<rparr>))"

record unique_server =
  us_stores :: "string \<Rightarrow> value_store option"

definition NewUniqueServer :: unique_server where
  "NewUniqueServer = \<lparr>us_stores = Map.empty\<rparr>"

definition StoreUniqueValue :: "unique_server \<Rightarrow> string \<Rightarrow> string \<Rightarrow> bool \<times> unique_server" where
  "StoreUniqueValue u store value =
     (let vs = (case us_stores u store of Some s \<Rightarrow> s | None \<Rightarrow> empty_store);
          (succeeded, vs') = tryStore vs value
      in (succeeded, u\<lparr>us_stores := (us_stores u)(store \<mapsto> vs')\<rparr>))"

section \<open>Generators\<close>

text \<open>One pass through the loop of a generator: try again, or return.\<close>

datatype 'v attempt = Again | Return "unique_error + 'v"

definition local_attempt :: "('g, 'v) fn \<Rightarrow> 'v set \<Rightarrow> 'g \<Rightarrow> 'v attempt \<times> 'v set \<times> 'g" where
  "local_attempt f m g =
     (case f g of
        (Inl err, g') \<Rightarrow> if is_retryable err then (Again, m, g') else (Return (Inl err), m, g')
      | (Inr v, g') \<Rightarrow> if v \<in> m then (Again, m, g') else (Return (Inr v), insert v m, g'))"

text \<open>
  The global generator sends \<open>fmt.Sprint(v)\<close>. The client \<open>cli\<close> carries the state of the service; an
  error of the call ends the generation.
\<close>

definition global_attempt ::
  "('s \<Rightarrow> string \<Rightarrow> string \<Rightarrow> (unique_error + bool) \<times> 's) \<Rightarrow> ('v \<Rightarrow> string) \<Rightarrow> string \<Rightarrow> ('g, 'v) fn \<Rightarrow>
     's \<Rightarrow> 'g \<Rightarrow> 'v attempt \<times> 's \<times> 'g" where
  "global_attempt cli sprint store f s g =
     (case f g of
        (Inl err, g') \<Rightarrow> if is_retryable err then (Again, s, g') else (Return (Inl err), s, g')
      | (Inr v, g') \<Rightarrow>
          (case cli s store (sprint v) of
             (Inl err, s') \<Rightarrow> (Return (Inl err), s', g')
           | (Inr succeeded, s') \<Rightarrow>
               if \<not> succeeded then (Again, s', g') else (Return (Inr v), s', g')))"

text \<open>The loop \<open>for i := uint(0); i < retry; i++\<close> around either attempt.\<close>

function attempt_loop ::
  "('s \<Rightarrow> 'g \<Rightarrow> 'v attempt \<times> 's \<times> 'g) \<Rightarrow> 64 word \<Rightarrow> 64 word \<Rightarrow> 's \<Rightarrow> 'g \<Rightarrow> (unique_error + 'v) \<times> 's \<times> 'g" where
  "attempt_loop att retry i s g =
     (if i < retry then
        (case att s g of
           (Again, s', g') \<Rightarrow> attempt_loop att retry (i + 1) s' g'
         | (Return r, s', g') \<Rightarrow> (r, s', g'))
      else (Inl ErrFailedToGenerate, s, g))"
  by pat_completeness auto

lemma unat_Suc_below: "i < n \<Longrightarrow> unat (i + 1) = Suc (unat i)" for i n :: "'a :: len word"
proof -
  assume "i < n"
  then have "unat i < unat n" by (simp add: word_less_nat_alt)
  then have "Suc (unat i) < 2 ^ LENGTH('a)" using unsigned_less [of n] by (meson le_less_trans Suc_leI)
  then show ?thesis by (simp add: unat_word_ariths(1))
qed

termination attempt_loop
  by (relation "measure (\<lambda>(_, retry, i, _, _). unat retry - unat i)")
    (auto simp: unat_Suc_below word_less_nat_alt)

declare attempt_loop.simps [simp del]

definition generate_local ::
  "('g, 'v) fn \<Rightarrow> 64 word \<Rightarrow> 'v set \<Rightarrow> 'g \<Rightarrow> (unique_error + 'v) \<times> 'v set \<times> 'g" where
  "generate_local f retry m g = attempt_loop (local_attempt f) retry 0 m g"

definition generate_global ::
  "('s \<Rightarrow> string \<Rightarrow> string \<Rightarrow> (unique_error + bool) \<times> 's) \<Rightarrow> ('v \<Rightarrow> string) \<Rightarrow> string \<Rightarrow> ('g, 'v) fn \<Rightarrow>
     64 word \<Rightarrow> 's \<Rightarrow> 'g \<Rightarrow> (unique_error + 'v) \<times> 's \<times> 'g" where
  "generate_global cli sprint store f retry s g =
     attempt_loop (global_attempt cli sprint store f) retry 0 s g"

section \<open>Construction\<close>

datatype unique_option = OptRetry "64 word" | OptBeacon string

definition WithRetry :: "64 word \<Rightarrow> unique_option" where
  "WithRetry n = OptRetry (if n = 0 then n - 1 else n)"

definition WithBeacon :: "string \<Rightarrow> unique_option" where
  "WithBeacon storeName = OptBeacon storeName"

text \<open>Which generator a \<open>Unique\<close> has: the local one, with the values it has handed out, or the global one.\<close>

datatype 'v generator_kind = LocalGen "'v set" | GlobalGen string

record 'v unique =
  uq_g :: "'v generator_kind"
  uq_retry :: "64 word"

fun apply_options :: "unique_option list \<Rightarrow> 64 word \<times> string \<Rightarrow> 64 word \<times> string" where
  "apply_options [] rs = rs"
| "apply_options (OptRetry n # opts) (retry, storeName) = apply_options opts (n, storeName)"
| "apply_options (OptBeacon st # opts) (retry, storeName) = apply_options opts (retry, st)"

text \<open>\<open>connect\<close> is the outcome of \<open>beacon.Connect\<close>: an error, or whether the connection is enabled.\<close>

definition New :: "(unique_error + bool) \<Rightarrow> unique_option list \<Rightarrow> unique_error + 'v unique" where
  "New connect opts =
     (let (retry, storeName) = apply_options opts (10, '''');
          u = \<lparr>uq_g = LocalGen {}, uq_retry = retry\<rparr>
      in if storeName \<noteq> '''' then
           (case connect of
              Inl err \<Rightarrow> Inl err
            | Inr enabled \<Rightarrow> Inr (if enabled then u\<lparr>uq_g := GlobalGen storeName\<rparr> else u))
         else Inr u)"

definition Unique_New ::
  "('s \<Rightarrow> string \<Rightarrow> string \<Rightarrow> (unique_error + bool) \<times> 's) \<Rightarrow> ('v \<Rightarrow> string) \<Rightarrow> ('g, 'v) fn \<Rightarrow>
     'v unique \<Rightarrow> 's \<Rightarrow> 'g \<Rightarrow> (unique_error + 'v) \<times> 'v unique \<times> 's \<times> 'g" where
  "Unique_New cli sprint f u s g =
     (case uq_g u of
        LocalGen m \<Rightarrow>
          (let (r, m', g') = generate_local f (uq_retry u) m g in (r, u\<lparr>uq_g := LocalGen m'\<rparr>, s, g'))
      | GlobalGen store \<Rightarrow>
          (let (r, s', g') = generate_global cli sprint store f (uq_retry u) s g in (r, u, s', g')))"

text \<open>
  \<open>Must\<close> of the package panics with the error, \<open>Must\<close> of a \<open>Unique\<close> fails the test with it (\<open>tb.Fatal\<close>); neither
  returns then (\<open>MustFails\<close>).
\<close>

datatype 'a must = MustFails unique_error | MustReturns 'a

definition Must :: "unique_error + 'v unique \<Rightarrow> 'v unique must" where
  "Must r = (case r of Inl err \<Rightarrow> MustFails err | Inr u \<Rightarrow> MustReturns u)"

definition Unique_Must ::
  "('s \<Rightarrow> string \<Rightarrow> string \<Rightarrow> (unique_error + bool) \<times> 's) \<Rightarrow> ('v \<Rightarrow> string) \<Rightarrow> ('g, 'v) fn \<Rightarrow>
     'v unique \<Rightarrow> 's \<Rightarrow> 'g \<Rightarrow> 'v must \<times> 'v unique \<times> 's \<times> 'g" where
  "Unique_Must cli sprint f u s g =
     (case Unique_New cli sprint f u s g of
        (Inl err, rest) \<Rightarrow> (MustFails err, rest)
      | (Inr v, rest) \<Rightarrow> (MustReturns v, rest))"

section \<open>Random strings\<close>

definition letters :: string where
  "letters = ''abcdefghijklmnopqrstuvwxyzABCDEFGHIJKLMNOPQRSTUVWXYZ0123456789''"

definition letterIdxBits :: nat where
  "letterIdxBits = 6"

definition letterIdxMask :: "64 word" where
  "letterIdxMask = push_bit letterIdxBits 1 - 1"

definition letterIdxMax :: nat where
  "letterIdxMax = 63 div letterIdxBits"

text \<open>
  The loop of \<open>StringFunc\<close>. The random source is the step function \<open>int63\<close> on its state. Whether the
  loop ends depends on the source, so it has fuel, one unit per pass; \<open>None\<close> means that the fuel did
  not suffice.
\<close>

fun string_loop ::
  "('r \<Rightarrow> 64 word \<times> 'r) \<Rightarrow> nat \<Rightarrow> 'r \<Rightarrow> char list \<Rightarrow> int \<Rightarrow> 64 word \<Rightarrow> nat \<Rightarrow> (string \<times> 'r) option" where
  "string_loop int63 fuel s b i cache remain =
     (if i < 0 then Some (b, s)
      else case fuel of
        0 \<Rightarrow> None
      | Suc fuel' \<Rightarrow>
          (let (cache, remain, s) =
                 (if remain = 0 then (let (c, s') = int63 s in (c, letterIdxMax, s')) else (cache, remain, s));
               idx = unat (cache AND letterIdxMask);
               (b, i) = (if idx < length letters then (b[nat i := letters ! idx], i - 1) else (b, i))
           in string_loop int63 fuel' s b i (drop_bit letterIdxBits cache) (remain - 1)))"

declare string_loop.simps [simp del]

text \<open>\<open>make([]byte, n)\<close> panics for a negative length.\<close>

definition StringFunc ::
  "('r \<Rightarrow> 64 word \<times> 'r) \<Rightarrow> int \<Rightarrow> nat \<Rightarrow> 'r \<Rightarrow> (go_panic + (string \<times> 'r)) option" where
  "StringFunc int63 n fuel s =
     (if n < 0 then Some (Inl MakeSliceLen)
      else (let (cache, s1) = int63 s in
            map_option Inr
              (string_loop int63 fuel s1 (replicate (nat n) (CHR 0x00)) (n - 1) cache letterIdxMax)))"

section \<open>Attempts counted by a natural number\<close>

fun attempt_iter ::
  "('s \<Rightarrow> 'g \<Rightarrow> 'v attempt \<times> 's \<times> 'g) \<Rightarrow> nat \<Rightarrow> 's \<Rightarrow> 'g \<Rightarrow> (unique_error + 'v) \<times> 's \<times> 'g" where
  "attempt_iter att 0 s g = (Inl ErrFailedToGenerate, s, g)"
| "attempt_iter att (Suc n) s g =
     (case att s g of
        (Again, s', g') \<Rightarrow> attempt_iter att n s' g'
      | (Return r, s', g') \<Rightarrow> (r, s', g'))"

lemma attempt_loop_iter:
  "i \<le> retry \<Longrightarrow> attempt_loop att retry i s g = attempt_iter att (unat retry - unat i) s g"
proof (induction att retry i s g rule: attempt_loop.induct)
  case (1 att retry i s g)
  show ?case
  proof (cases "i < retry")
    case True
    then have u: "unat retry - unat i = Suc (unat retry - unat (i + 1))"
      by (simp add: unat_Suc_below word_less_nat_alt Suc_diff_Suc)
    have le: "i + 1 \<le> retry" using True by (simp add: word_le_nat_alt unat_Suc_below word_less_nat_alt)
    obtain r s' g' where a: "att s g = (r, s', g')" by (cases "att s g") auto
    show ?thesis
    proof (cases r)
      case Again
      then have "attempt_loop att retry (i + 1) s' g' = attempt_iter att (unat retry - unat (i + 1)) s' g'"
        using "1.IH" True a le by simp
      then show ?thesis unfolding u by (simp add: attempt_loop.simps [of att retry i] True a Again)
    next
      case (Return x)
      then show ?thesis unfolding u by (simp add: attempt_loop.simps [of att retry i] True a)
    qed
  next
    case False
    then have "i = retry" using "1.prems" by simp
    then show ?thesis by (simp add: attempt_loop.simps)
  qed
qed

text \<open>What the user's function returns on consecutive calls.\<close>

fun outputs :: "('g, 'v) fn \<Rightarrow> nat \<Rightarrow> 'g \<Rightarrow> (unique_error + 'v) list" where
  "outputs f 0 g = []"
| "outputs f (Suc n) g = (case f g of (r, g') \<Rightarrow> r # outputs f n g')"

text \<open>A result that ends the generation: an error that is not retryable, or a value not handed out before.\<close>

definition decisive :: "'v set \<Rightarrow> unique_error + 'v \<Rightarrow> bool" where
  "decisive m r = (case r of Inl err \<Rightarrow> \<not> is_retryable err | Inr v \<Rightarrow> v \<notin> m)"

lemma attempt_iter_local:
  "fst (attempt_iter (local_attempt f) n m g) =
     (case List.find (decisive m) (outputs f n g) of Some r \<Rightarrow> r | None \<Rightarrow> Inl ErrFailedToGenerate)"
  by (induction n arbitrary: g)
    (auto simp: local_attempt_def decisive_def split: prod.splits sum.splits if_splits)

section \<open>Values that are handed out\<close>

text \<open>
  An attempt is sound with respect to a record of used values: it returns only values that are not
  in the record, and puts them there; the record only grows.
\<close>

locale recording =
  fixes att :: "'s \<Rightarrow> 'g \<Rightarrow> 'v attempt \<times> 's \<times> 'g" and used :: "'s \<Rightarrow> 'v \<Rightarrow> bool"
  assumes returns_new: "att s g = (Return (Inr v), s', g') \<Longrightarrow> \<not> used s v \<and> used s' v"
    and keeps_used: "att s g = (r, s', g') \<Longrightarrow> used s v \<Longrightarrow> used s' v"
begin

lemma iter_returns_new: "attempt_iter att n s g = (Inr v, s', g') \<Longrightarrow> \<not> used s v \<and> used s' v"
proof (induction n arbitrary: s g)
  case (Suc n)
  obtain r t h where a: "att s g = (r, t, h)" by (cases "att s g") auto
  show ?case
  proof (cases r)
    case Again
    then have "\<not> used t v \<and> used s' v" using Suc a by simp
    then show ?thesis using keeps_used [OF a] by blast
  next
    case (Return x)
    then show ?thesis using Suc.prems a returns_new by simp
  qed
qed simp

lemma iter_keeps_used: "attempt_iter att n s g = (r, s', g') \<Longrightarrow> used s v \<Longrightarrow> used s' v"
proof (induction n arbitrary: s g)
  case (Suc n)
  obtain x t h where a: "att s g = (x, t, h)" by (cases "att s g") auto
  with Suc keeps_used [OF a] show ?case by (cases x) auto
qed simp

lemma loop_returns_new: "attempt_loop att retry 0 s g = (Inr v, s', g') \<Longrightarrow> \<not> used s v \<and> used s' v"
  using iter_returns_new by (simp add: attempt_loop_iter)

lemma loop_keeps_used: "attempt_loop att retry 0 s g = (r, s', g') \<Longrightarrow> used s v \<Longrightarrow> used s' v"
  using iter_keeps_used by (simp add: attempt_loop_iter)

end

interpretation local_rec: recording "local_attempt f" "\<lambda>m v. v \<in> m" for f
  by unfold_locales (auto simp: local_attempt_def split: prod.splits sum.splits if_splits)

text \<open>The values of consecutive calls of \<open>New\<close> on one local generator; calls that fail give no value.\<close>

fun handed_out :: "('g, 'v) fn \<Rightarrow> 64 word \<Rightarrow> nat \<Rightarrow> 'v set \<Rightarrow> 'g \<Rightarrow> 'v list" where
  "handed_out f retry 0 m g = []"
| "handed_out f retry (Suc n) m g =
     (case generate_local f retry m g of
        (Inl _, m', g') \<Rightarrow> handed_out f retry n m' g'
      | (Inr v, m', g') \<Rightarrow> v # handed_out f retry n m' g')"

lemma handed_out_fresh: "distinct (handed_out f retry n m g) \<and> set (handed_out f retry n m g) \<inter> m = {}"
proof (induction n arbitrary: m g)
  case (Suc n)
  obtain r m' g' where a: "generate_local f retry m g = (r, m', g')" by (cases "generate_local f retry m g") auto
  then have loop: "attempt_loop (local_attempt f) retry 0 m g = (r, m', g')" by (simp add: generate_local_def)
  have "m \<subseteq> m'" using local_rec.loop_keeps_used [OF loop] by blast
  then show ?case
    using Suc.IH [of m' g'] a local_rec.loop_returns_new [of f retry m g _ m' g'] loop
    by (cases r) auto
qed simp

section \<open>The store service\<close>

text \<open>
  What a global generator relies on: a value is stored at most once under a store name, and what is
  stored stays. \<open>stored s store\<close> are the values of a store.
\<close>

locale value_store_service =
  fixes cli :: "'s \<Rightarrow> string \<Rightarrow> string \<Rightarrow> (unique_error + bool) \<times> 's"
    and stored :: "'s \<Rightarrow> string \<Rightarrow> string \<Rightarrow> bool"
  assumes store_new: "cli s st v = (Inr True, s') \<Longrightarrow> \<not> stored s st v \<and> stored s' st v"
    and store_keeps: "cli s st v = (r, s') \<Longrightarrow> stored s st' v' \<Longrightarrow> stored s' st' v'"
begin

lemma global_attempt_new:
  "global_attempt cli sprint st f s g = (Return (Inr v), s', g') \<Longrightarrow>
     \<not> stored s st (sprint v) \<and> stored s' st (sprint v)"
  using store_new
  by (auto simp: global_attempt_def split: prod.splits sum.splits if_splits)

lemma global_attempt_keeps:
  "global_attempt cli sprint st f s g = (r, s', g') \<Longrightarrow> stored s st' v' \<Longrightarrow> stored s' st' v'"
  using store_keeps
  by (auto simp: global_attempt_def split: prod.splits sum.splits if_splits)

end

sublocale value_store_service \<subseteq> glob: recording "global_attempt cli sprint st f" "\<lambda>s v. stored s st (sprint v)" for sprint st f
  by unfold_locales (simp_all add: global_attempt_new global_attempt_keeps)

text \<open>The server of this repository behind an RPC that does not fail.\<close>

definition server_client :: "unique_server \<Rightarrow> string \<Rightarrow> string \<Rightarrow> (unique_error + bool) \<times> unique_server" where
  "server_client u store value = map_prod Inr id (StoreUniqueValue u store value)"

definition stored_on_server :: "unique_server \<Rightarrow> string \<Rightarrow> string \<Rightarrow> bool" where
  "stored_on_server u store v =
     (case us_stores u store of
        None \<Rightarrow> False
      | Some s \<Rightarrow> (case vs_values s of None \<Rightarrow> False | Some m \<Rightarrow> m v = Some True))"

interpretation srv: value_store_service server_client stored_on_server
  by unfold_locales
    (auto simp: server_client_def StoreUniqueValue_def tryStore_def stored_on_server_def empty_store_def Let_def
      split: option.splits if_splits)

text \<open>
  Several processes share the server. A schedule names the process that makes the next attempt; an
  attempt calls the process's function and the server once, and the server handles calls one at a
  time. The result lists the values returned, with the process that got them.
\<close>

fun global_run ::
  "(nat \<Rightarrow> string) \<Rightarrow> ('v \<Rightarrow> string) \<Rightarrow> (nat \<Rightarrow> ('g, 'v) fn) \<Rightarrow> nat list \<Rightarrow> unique_server \<Rightarrow> (nat \<Rightarrow> 'g) \<Rightarrow>
     (nat \<times> 'v) list" where
  "global_run store sprint fs [] u gs = []"
| "global_run store sprint fs (c # cs) u gs =
     (case global_attempt server_client sprint (store c) (fs c) u (gs c) of
        (Return (Inr v), u', g') \<Rightarrow> (c, v) # global_run store sprint fs cs u' (gs(c := g'))
      | (_, u', g') \<Rightarrow> global_run store sprint fs cs u' (gs(c := g')))"

lemma global_run_fresh:
  "(c, v) \<in> set (global_run store sprint fs cs u gs) \<Longrightarrow> \<not> stored_on_server u (store c) (sprint v)"
proof (induction cs arbitrary: u gs)
  case (Cons a cs)
  obtain r u' g' where at: "global_attempt server_client sprint (store a) (fs a) u (gs a) = (r, u', g')"
    by (cases "global_attempt server_client sprint (store a) (fs a) u (gs a)") auto
  show ?case
    using Cons at srv.global_attempt_new [of sprint "store a" "fs a" u "gs a" _ u' g'] srv.global_attempt_keeps [OF at]
    by (auto split: attempt.splits sum.splits)
qed simp

lemma global_run_distinct:
  "distinct (map (\<lambda>(c, v). (store c, sprint v)) (global_run store sprint fs cs u gs))"
proof (induction cs arbitrary: u gs)
  case (Cons a cs)
  obtain r u' g' where at: "global_attempt server_client sprint (store a) (fs a) u (gs a) = (r, u', g')"
    by (cases "global_attempt server_client sprint (store a) (fs a) u (gs a)") auto
  show ?case
    using Cons at srv.global_attempt_new [of sprint "store a" "fs a" u "gs a" _ u' g']
      global_run_fresh [of _ _ store sprint fs cs u' "gs(a := g')"]
    by (fastforce split: attempt.splits sum.splits)
qed simp

section \<open>The string loop ends\<close>

text \<open>A letter comes out of one of the next \<open>r\<close> six-bit groups of the cache.\<close>

definition letter_group :: "64 word \<Rightarrow> nat \<Rightarrow> nat" where
  "letter_group cache j = unat (drop_bit (letterIdxBits * j) cache AND letterIdxMask)"

definition letter_ahead :: "64 word \<Rightarrow> nat \<Rightarrow> bool" where
  "letter_ahead cache r \<longleftrightarrow> (\<exists>j < r. letter_group cache j < length letters)"

lemma letter_group_Suc: "letter_group cache (Suc j) = letter_group (drop_bit letterIdxBits cache) j"
  by (simp add: letter_group_def drop_bit_drop_bit add.commute)

lemma letter_ahead_skip:
  assumes "0 < r" and "\<not> letter_group cache 0 < length letters"
  shows "letter_ahead cache r \<longleftrightarrow> letter_ahead (drop_bit letterIdxBits cache) (r - 1)"
proof -
  obtain r' where r: "r = Suc r'" using assms(1) by (cases r) auto
  show ?thesis
    unfolding letter_ahead_def r using assms(2)
    by (auto simp: less_Suc_eq_0_disj letter_group_Suc)
qed

text \<open>A source is productive when every number it gives has a letter in its ten groups.\<close>

definition productive :: "('r \<Rightarrow> 64 word \<times> 'r) \<Rightarrow> bool" where
  "productive int63 \<longleftrightarrow> (\<forall>s. letter_ahead (fst (int63 s)) letterIdxMax)"

definition letters_from :: "char list \<Rightarrow> int \<Rightarrow> bool" where
  "letters_from b i \<longleftrightarrow> (\<forall>j. i < int j \<longrightarrow> j < length b \<longrightarrow> b ! j \<in> set letters)"

text \<open>Fuel that suffices: the groups left in the cache, and ten for every letter that is missing.\<close>

definition fuel_bound :: "int \<Rightarrow> 64 word \<Rightarrow> nat \<Rightarrow> nat" where
  "fuel_bound i cache remain = remain + 10 * nat (i + 1) - (if letter_ahead cache remain then 10 else 0)"

lemma letterIdxMax_10 [simp]: "letterIdxMax = 10"
  by (simp add: letterIdxMax_def letterIdxBits_def)

text \<open>One pass, on a cache that is not empty.\<close>

lemma letters_from_step:
  assumes "letters_from b i" and "0 \<le> i" and "x \<in> set letters"
  shows "letters_from (b[nat i := x]) (i - 1)"
  unfolding letters_from_def
proof (intro allI impI)
  fix j assume j: "i - 1 < int j" "j < length (b[nat i := x])"
  show "b[nat i := x] ! j \<in> set letters"
    using assms j by (cases "j = nat i") (auto simp: letters_from_def)
qed

lemma letters_from_end: "int (length b) \<le> i + 1 \<Longrightarrow> letters_from b i"
  by (auto simp: letters_from_def)

definition loop_ok :: "nat \<Rightarrow> (string \<times> 'r) option \<Rightarrow> bool" where
  "loop_ok n res \<longleftrightarrow> (\<exists>b s. res = Some (b, s) \<and> length b = n \<and> set b \<subseteq> set letters)"

lemma letters_from_all: "letters_from b i \<Longrightarrow> i < 0 \<Longrightarrow> set b \<subseteq> set letters"
  by (auto simp: letters_from_def in_set_conv_nth)

definition pass_index :: "64 word \<Rightarrow> int \<Rightarrow> int" where
  "pass_index cache i = (if letter_group cache 0 < length letters then i - 1 else i)"

lemma fuel_bound_pass:
  assumes "0 \<le> i" and "0 < remain"
  shows "fuel_bound (pass_index cache i) (drop_bit letterIdxBits cache) (remain - 1) < fuel_bound i cache remain"
proof (cases "letter_group cache 0 < length letters")
  case True
  then have "letter_ahead cache remain" using assms(2) by (auto simp: letter_ahead_def)
  then show ?thesis using True assms by (auto simp: fuel_bound_def pass_index_def nat_add_distrib)
next
  case False
  then show ?thesis
    using assms letter_ahead_skip [OF assms(2) False] by (auto simp: fuel_bound_def pass_index_def nat_add_distrib)
qed

lemma fuel_bound_refill:
  assumes "productive int63" and "0 \<le> i"
  shows "fuel_bound i (fst (int63 s)) letterIdxMax = fuel_bound i cache 0"
  using assms by (auto simp: fuel_bound_def productive_def letter_ahead_def)

text \<open>The loop on a cache that has just been refilled when it was empty.\<close>

lemma string_loop_pass:
  assumes "0 \<le> i" and "0 < remain"
  shows "string_loop int63 (Suc fuel) s b i cache remain =
    string_loop int63 fuel s (if letter_group cache 0 < length letters then b[nat i := letters ! letter_group cache 0] else b)
      (pass_index cache i) (drop_bit letterIdxBits cache) (remain - 1)"
  using assms by (simp add: string_loop.simps [of int63 "Suc fuel"] letter_group_def pass_index_def Let_def)

lemma string_loop_refill:
  assumes "0 \<le> i"
  shows "string_loop int63 (Suc fuel) s b i cache 0 =
    string_loop int63 (Suc fuel) (snd (int63 s)) b i (fst (int63 s)) letterIdxMax"
  using assms by (simp add: string_loop.simps [of int63 "Suc fuel"] Let_def case_prod_beta)

lemma string_loop_ends:
  assumes prod: "productive int63"
  shows "letters_from b i \<Longrightarrow> length b = n \<Longrightarrow> i < int n \<Longrightarrow> fuel_bound i cache remain \<le> fuel \<Longrightarrow>
    loop_ok n (string_loop int63 fuel s b i cache remain)"
proof (induction fuel arbitrary: s b i cache remain)
  case 0
  then have "i < 0" by (cases "0 \<le> i") (auto simp: fuel_bound_def nat_add_distrib letter_ahead_def split: if_splits)
  then show ?case using 0 by (auto simp: string_loop.simps loop_ok_def dest: letters_from_all)
next
  case (Suc fuel)
  show ?case
  proof (cases "i < 0")
    case True
    then show ?thesis using Suc.prems by (auto simp: string_loop.simps loop_ok_def dest: letters_from_all)
  next
    case False
    have pass: "loop_ok n (string_loop int63 (Suc fuel) t b i c r)"
      if r: "0 < r" and le: "fuel_bound i c r \<le> Suc fuel" for t c r
    proof -
      let ?b = "if letter_group c 0 < length letters then b[nat i := letters ! letter_group c 0] else b"
      have "letters_from ?b (pass_index c i)"
        using letters_from_step [OF Suc.prems(1)] Suc.prems(1) False by (auto simp: pass_index_def)
      moreover have "length ?b = n" "pass_index c i < int n" using Suc.prems by (auto simp: pass_index_def)
      moreover have "fuel_bound (pass_index c i) (drop_bit letterIdxBits c) (r - 1) \<le> fuel"
        using fuel_bound_pass [of i r c] False r le by simp
      moreover have "0 \<le> i" using False by simp
      ultimately show ?thesis unfolding string_loop_pass [OF \<open>0 \<le> i\<close> r] by (intro Suc.IH)
    qed
    show ?thesis
    proof (cases "remain = 0")
      case True
      then have "fuel_bound i (fst (int63 s)) letterIdxMax \<le> Suc fuel"
        using fuel_bound_refill [OF prod, of i s cache] False Suc.prems(4) by simp
      then show ?thesis using pass [of letterIdxMax] string_loop_refill [of i int63 fuel s b cache] False True by simp
    qed (use pass Suc.prems(4) in blast)
  qed
qed

section \<open>Main properties\<close>

text \<open>
  A local generator never hands out a value twice: the values returned by any number of calls of
  \<open>New\<close>, whatever the user's function produces, are pairwise distinct.
\<close>

theorem local_values_unique: "distinct (handed_out f retry n {} g)"
  using handed_out_fresh [of f retry n "{}" g] by (rule conjunct1)

text \<open>
  C30: Values are unique across processes. Whatever the schedule of any number of processes that
  generate values through one beacon server, no two returned values with the same store name have
  the same textual representation.
\<close>

theorem global_values_unique:
  "distinct (map (\<lambda>(c, v). (store c, sprint v)) (global_run store sprint fs cs NewUniqueServer gs))"
  by (rule global_run_distinct)

text \<open>
  C34: The result of a local generation is exact: it is the first among the first \<open>retry\<close> outputs of
  the user's function that is a value not handed out before or an error other than \<open>ErrRetryable\<close>,
  and \<open>errFailedToGenerate\<close> if there is none. With \<open>WithRetry(0)\<close> the number of attempts is the largest
  unsigned integer.
\<close>

theorem generate_local_exact:
  "fst (generate_local f retry m g) =
     (case List.find (decisive m) (outputs f (unat retry) g) of
        Some r \<Rightarrow> r
      | None \<Rightarrow> Inl ErrFailedToGenerate) \<and>
   WithRetry 0 = OptRetry (- 1)"
  unfolding generate_local_def
  by (simp add: attempt_loop_iter attempt_iter_local WithRetry_def)



end
