(* ===== verification/Beacon_Process.thy ===== *)
theory Beacon_Process
  imports Beacon_Acquire Unique_Values
begin

text \<open>
  The process of the beacon server: the services that server.go registers, and the life of the server of operations.go.
  \<open>NewOperation\<close> gives \<open>Register\<close> a callback for interrupts that stops the server half a second later, in a goroutine of
  its own, so that the interrupting client still gets its answer. \<open>StartBeaconServer\<close> serves in a goroutine that closes
  the channel \<open>done\<close> when \<open>Serve\<close> returns.
\<close>

section \<open>The process\<close>

record ('s, 'o) services =
  sr_beacon :: "('s, 'o) server"
  sr_unique :: unique_server
  sr_health :: "go_error option"

text \<open>The checker of the health service always returns nil.\<close>

definition Register :: "'o once_ops \<Rightarrow> ('s, 'o) services" where
  "Register oo = \<lparr>sr_beacon = NewServer oo, sr_unique = NewUniqueServer, sr_health = None\<rparr>"

text \<open>Times are in nanoseconds; \<open>bp_stops\<close> are the times of the pending \<open>time.After\<close> of the callback's goroutines.\<close>

record ('s, 'o) beacon_process =
  bp_services :: "('s, 'o) services"
  bp_now :: int
  bp_serving :: bool
  bp_listening :: bool
  bp_done :: bool
  bp_stops :: "int list"

definition start_process :: "'o once_ops \<Rightarrow> int \<Rightarrow> ('s, 'o) beacon_process" where
  "start_process oo now =
     \<lparr>bp_services = Register oo, bp_now = now, bp_serving = True, bp_listening = True, bp_done = False, bp_stops = []\<rparr>"

definition stop_delay :: int where
  "stop_delay = 500 * 1000000"

text \<open>The callback that \<open>NewOperation\<close> registers.\<close>

definition interrupt_callback :: "('s, 'o) beacon_process \<Rightarrow> go_error option \<times> ('s, 'o) beacon_process" where
  "interrupt_callback p = (None, p\<lparr>bp_stops := bp_stops p @ [bp_now p + stop_delay]\<rparr>)"

text \<open>\<open>op.srv.Stop()\<close>, with which \<open>Serve\<close> returns and \<open>done\<close> is closed, and \<open>op.ln.Close()\<close>.\<close>

definition stop_server :: "('s, 'o) beacon_process \<Rightarrow> ('s, 'o) beacon_process" where
  "stop_server p = p\<lparr>bp_serving := False, bp_listening := False, bp_done := bp_done p \<or> bp_serving p\<rparr>"

text \<open>What happens in the process: time passes, calls of the services arrive, a timer of the callback fires.\<close>

datatype process_event =
    Elapse nat
  | BeaconCall server_event
  | StoreCall string string
  | InterruptCall
  | StopTimer nat

fun process_step ::
  "'s sem_ops \<Rightarrow> 'o once_ops \<Rightarrow> process_event \<Rightarrow> ('s, 'o) beacon_process \<Rightarrow> (go_panic + ('s, 'o) beacon_process) option" where
  "process_step so oo (Elapse d) p = Some (Inr (p\<lparr>bp_now := bp_now p + int d\<rparr>))"
| "process_step so oo (BeaconCall ev) p =
     (if bp_serving p then
        map_option (map_sum id (\<lambda>v. p\<lparr>bp_services := (bp_services p)\<lparr>sr_beacon := v\<rparr>\<rparr>))
          (server_step so oo ev (sr_beacon (bp_services p)))
      else None)"
| "process_step so oo (StoreCall store value) p =
     (if bp_serving p then
        Some (Inr (p\<lparr>bp_services := (bp_services p)\<lparr>sr_unique := snd (StoreUniqueValue (sr_unique (bp_services p)) store value)\<rparr>\<rparr>))
      else None)"
| "process_step so oo InterruptCall p =
     (if bp_serving p then Some (Inr (snd (Interrupt interrupt_callback p))) else None)"
| "process_step so oo (StopTimer i) p =
     (if i < length (bp_stops p) \<and> bp_stops p ! i \<le> bp_now p
      then Some (Inr (stop_server (p\<lparr>bp_stops := take i (bp_stops p) @ drop (Suc i) (bp_stops p)\<rparr>)))
      else None)"

fun process_run ::
  "'s sem_ops \<Rightarrow> 'o once_ops \<Rightarrow> process_event list \<Rightarrow> ('s, 'o) beacon_process \<Rightarrow>
     (go_panic + ('s, 'o) beacon_process) option" where
  "process_run so oo [] p = Some (Inr p)"
| "process_run so oo (e # es) p =
     (case process_step so oo e p of
        Some (Inr p') \<Rightarrow> process_run so oo es p'
      | x \<Rightarrow> x)"

section \<open>When the server stops\<close>

fun elapsed :: "process_event list \<Rightarrow> int" where
  "elapsed [] = 0"
| "elapsed (Elapse d # es) = int d + elapsed es"
| "elapsed (_ # es) = elapsed es"

text \<open>The time since the first interrupt of a run; \<open>None\<close> when there was none.\<close>

definition since_interrupt :: "process_event list \<Rightarrow> int option" where
  "since_interrupt es = (if InterruptCall \<in> set es then Some (elapsed (dropWhile (\<lambda>e. e \<noteq> InterruptCall) es)) else None)"

lemma elapsed_append: "elapsed (es @ es') = elapsed es + elapsed es'"
  by (induction es rule: elapsed.induct) simp_all

lemma since_interrupt_snoc:
  "since_interrupt (es @ [e]) =
     (case since_interrupt es of
        None \<Rightarrow> if e = InterruptCall then Some 0 else None
      | Some t \<Rightarrow> Some (t + elapsed [e]))"
  by (auto simp: since_interrupt_def dropWhile_append elapsed_append)

lemma process_run_snoc:
  "process_run so oo (es @ [e]) p = Some (Inr p') \<longleftrightarrow>
     (\<exists>q. process_run so oo es p = Some (Inr q) \<and> process_step so oo e q = Some (Inr p'))"
  by (induction es arbitrary: p) (auto split: option.splits sum.splits)

text \<open>The first interrupt decides: no timer is due earlier, and its timer is pending until the server has stopped.\<close>

definition stops_due :: "int option \<Rightarrow> ('s, 'o) beacon_process \<Rightarrow> bool" where
  "stops_due since p \<longleftrightarrow>
     bp_serving p = (\<not> bp_done p) \<and> bp_listening p = (\<not> bp_done p) \<and>
     (case since of
        None \<Rightarrow> \<not> bp_done p \<and> bp_stops p = []
      | Some t \<Rightarrow> (\<forall>x \<in> set (bp_stops p). bp_now p - t + stop_delay \<le> x) \<and>
          (if bp_done p then stop_delay \<le> t else bp_now p - t + stop_delay \<in> set (bp_stops p)))"

lemma stops_due_step:
  assumes due: "stops_due (since_interrupt es) p" and st: "process_step so oo e p = Some (Inr p')"
    and pos: "\<forall>t. since_interrupt es = Some t \<longrightarrow> 0 \<le> t"
  shows "stops_due (since_interrupt (es @ [e])) p'"
proof (cases e)
  case (Elapse d)
  then show ?thesis using st due by (auto simp: stops_due_def since_interrupt_snoc split: option.splits if_splits)
next
  case (BeaconCall ev)
  then show ?thesis
    using st due by (auto simp: stops_due_def since_interrupt_snoc map_sum_Inr split: option.splits if_splits)
next
  case (StoreCall s v)
  then show ?thesis using st due by (auto simp: stops_due_def since_interrupt_snoc split: option.splits if_splits)
next
  case InterruptCall
  then show ?thesis
    using st due pos
    by (auto simp: stops_due_def since_interrupt_snoc Interrupt_def interrupt_callback_def split: option.splits if_splits)
next
  case (StopTimer i)
  then have i: "i < length (bp_stops p)" "bp_stops p ! i \<le> bp_now p"
    and p': "p' = stop_server (p\<lparr>bp_stops := take i (bp_stops p) @ drop (Suc i) (bp_stops p)\<rparr>)"
    using st by (auto split: if_splits)
  have mem: "bp_stops p ! i \<in> set (bp_stops p)" using i(1) by simp
  have sub: "set (take i (bp_stops p)) \<union> set (drop (Suc i) (bp_stops p)) \<subseteq> set (bp_stops p)"
    using set_take_subset set_drop_subset by fast
  obtain t where t: "since_interrupt es = Some t" using due mem by (cases "since_interrupt es") (auto simp: stops_due_def)
  have "bp_now p - t + stop_delay \<le> bp_stops p ! i" using due t mem by (auto simp: stops_due_def)
  then have "stop_delay \<le> t" using i(2) by simp
  moreover have "\<forall>x \<in> set (bp_stops p'). bp_now p - t + stop_delay \<le> x"
    using due t sub by (auto simp: stops_due_def p' stop_server_def)
  ultimately show ?thesis
    using StopTimer due t by (auto simp: stops_due_def since_interrupt_snoc p' stop_server_def)
qed

lemma elapsed_nonneg: "0 \<le> elapsed es"
  by (induction es rule: elapsed.induct) simp_all

lemma process_stops_due:
  "process_run so oo es (start_process oo now) = Some (Inr p) \<Longrightarrow> stops_due (since_interrupt es) p"
proof (induction es arbitrary: p rule: rev_induct)
  case Nil
  then show ?case by (auto simp: stops_due_def since_interrupt_def start_process_def)
next
  case (snoc e es)
  have pos: "\<forall>t. since_interrupt es = Some t \<longrightarrow> 0 \<le> t" by (auto simp: since_interrupt_def elapsed_nonneg)
  show ?case using snoc.prems stops_due_step [OF snoc.IH _ pos] by (auto simp: process_run_snoc)
qed

section \<open>The services of the process\<close>

lemma process_server_reach:
  "process_run so oo es (start_process oo now) = Some (Inr p) \<Longrightarrow> server_reach so oo (sr_beacon (bp_services p))"
proof (induction es arbitrary: p rule: rev_induct)
  case Nil
  then show ?case by (auto simp: start_process_def Register_def server_reach.start)
next
  case (snoc e es)
  then obtain q where q: "process_run so oo es (start_process oo now) = Some (Inr q)"
    and st: "process_step so oo e q = Some (Inr p)" by (auto simp: process_run_snoc)
  note re = snoc.IH [OF q]
  show ?case
    using st re server_reach.step [OF re]
    by (cases e) (auto simp: Interrupt_def interrupt_callback_def stop_server_def map_sum_Inr split: if_splits option.splits)
qed



end
