(* ===== verification/Confort_Properties.thy ===== *)
theory Confort_Properties
  imports Confort_Api
begin

text \<open>
  What the API guarantees: the setup lock around \<open>Run\<close>, and the resources that a session, from \<open>New\<close> over any number
  of \<open>Run\<close> calls to \<open>Close\<close>, leaves behind under each policy.
\<close>

section \<open>Deferred unlocks\<close>

context mutex_map
begin

text \<open>A call in the \<open>with_lock\<close> pattern leaves the locks as they were, and its body runs only with the lock free before.\<close>

lemma with_lock_balanced:
  assumes own: "owns (aw_locks w) wr"
    and body: "\<forall>v r v'. body v = Some (r, v') \<longrightarrow> aw_locks v' = aw_locks v"
    and run: "with_lock (\<lambda>l. lockf d l k) (\<lambda>l. unlockf l k) refused panics body w = Some (r, w')"
  shows "owns (aw_locks w') wr \<and>
    ((\<exists>l. lockf d (aw_locks w) k = CtxErr l \<and> r = refused \<and> w' = w\<lparr>aw_locks := l\<rparr>) \<or>
     (\<exists>l v l'. lockf d (aw_locks w) k = Granted l \<and> wr k = {} \<and> body (w\<lparr>aw_locks := l\<rparr>) = Some (r, v) \<and>
        w' = v\<lparr>aw_locks := l'\<rparr>))"
proof (cases "lockf d (aw_locks w) k")
  case (Waits l)
  then show ?thesis using run by (simp add: with_lock_def)
next
  case (CtxErr l)
  then show ?thesis using run mutex_refused [OF own CtxErr] by (auto simp: with_lock_def)
next
  case (Granted l)
  obtain q v where b: "body (w\<lparr>aw_locks := l\<rparr>) = Some (q, v)"
    using run Granted by (auto simp: with_lock_def split: option.splits)
  have free: "wr k = {}" and held: "owns l (wr(k := {0}))" using mutex_granted [OF own Granted] by auto
  have "aw_locks v = l" using body b by fastforce
  moreover obtain l' where l': "unlockf l k = Inr l'" "owns l' (wr(k := {0}, k := {}))"
    using mutex_unlock [OF held, of 0 k] by auto
  ultimately have "r = q \<and> w' = v\<lparr>aw_locks := l'\<rparr>" using run Granted b by (simp add: with_lock_def)
  moreover have "wr(k := {0}, k := {}) = wr" using free by (simp add: fun_eq_iff)
  ultimately show ?thesis using l' Granted b free by auto
qed

lemma fresh_lock_unlock: "\<exists>l l'. lockf d l0 k = Granted l \<and> unlockf l k = Inr l'"
  using mutex_free [OF owns_init] mutex_granted [OF owns_init] mutex_unlock by (metis fun_upd_same insertI1)

end

lemma run_locked_locks:
  "run_locked dp cft ctx fuel name alias c opts w = Some (r, w') \<Longrightarrow> aw_locks w' = aw_locks w"
  unfolding run_locked_def by (auto split: prod.splits sum.splits option.splits)

section \<open>What Run does to the namespace\<close>

text \<open>Under the setup lock, \<open>Run\<close> creates or finds the container and then starts it.\<close>

lemma run_locked_steps:
  assumes "run_locked dp cft ctx fuel name alias c opts w = Some ((r, cft'), w')"
  shows "\<exists>ns. cft' = cft\<lparr>cf_namespace := ns\<rparr> \<and> (ns = cf_namespace cft \<and> aw_docker w' = aw_docker w \<and> (\<forall>x. r \<noteq> Inr (Inr x)) \<or>
    (\<exists>cc hc nc consist po out q ns1 dw1.
       CreateContainer (dp_pkgs dp) (cf_cli cft) name cc hc nc consist (cp_Waiter c) po out (cf_namespace cft) (aw_docker w) =
         (q, ns1, dw1) \<and>
       (ns = ns1 \<and> aw_docker w' = dw1 \<and> (\<forall>x. r \<noteq> Inr (Inr x)) \<or>
        (\<exists>cid s. q = Inr (cid, None) \<and>
           StartContainer (dp_runtime dp) (cf_cli cft) (cx_deadline ctx) fuel name ns1 dw1 = Some (s, ns, aw_docker w') \<and>
           (\<forall>x. r = Inr (Inr x) \<longrightarrow> cn_id x = cid \<and> cn_name x = name \<and> cn_alias x = alias \<and> cn_ex x = cf_ex cft \<and>
              s = Inr (Inr (cn_ports x)))))))"
proof (cases "dp_ParsePortSpecs dp (cp_ExposedPorts c)")
  case (Inl err)
  then show ?thesis
    using assms by (intro exI [of _ "cf_namespace cft"]) (auto simp: run_locked_def createContainer_def Let_def)
next
  case (Inr pp)
  obtain portSet portBindings where pp: "pp = (portSet, portBindings)" by (cases pp)
  let ?v = "run_opts opts \<lparr>rv_container = None, rv_host = None, rv_networking = None, rv_consistency = False,
            rv_pullOpts = None, rv_pullOut = Discard\<rparr>"
  let ?cc = "modified (rv_container ?v) (base_container c portSet)"
    and ?hc = "modified (rv_host ?v) (base_host c portBindings)"
    and ?nc = "modified (rv_networking ?v) (base_networking (dn_network (cf_namespace cft)) alias)"
  let ?create = "CreateContainer (dp_pkgs dp) (cf_cli cft) name ?cc ?hc ?nc (rv_consistency ?v) (cp_Waiter c)
    (rv_pullOpts ?v) (write_to (rv_pullOut ?v)) (cf_namespace cft) (aw_docker w)"
  obtain q ns1 dw1 where q: "?create = (q, ns1, dw1)" by (cases ?create)
  then have cr: "createContainer dp cft name alias c opts (aw_docker w) = (q, ns1, dw1)"
    by (simp add: createContainer_def Inr pp Let_def)
  show ?thesis
  proof (cases "\<exists>cid. q = Inr (cid, None)")
    case True
    then obtain cid where cid: "q = Inr (cid, None)" by blast
    then obtain s ns dw where s: "StartContainer (dp_runtime dp) (cf_cli cft) (cx_deadline ctx) fuel name ns1 dw1 = Some (s, ns, dw)"
      and res: "cft' = cft\<lparr>cf_namespace := ns\<rparr>" "aw_docker w' = dw"
        "\<forall>x. r = Inr (Inr x) \<longrightarrow> cn_id x = cid \<and> cn_name x = name \<and> cn_alias x = alias \<and> cn_ex x = cf_ex cft \<and> s = Inr (Inr (cn_ports x))"
      using assms by (auto simp: run_locked_def cr split: option.splits prod.splits sum.splits)
    then show ?thesis using q cid by blast
  next
    case False
    then have "cft' = cft\<lparr>cf_namespace := ns1\<rparr> \<and> aw_docker w' = dw1 \<and> (\<forall>x. r \<noteq> Inr (Inr x))"
      using assms by (auto simp: run_locked_def cr split: option.splits prod.splits sum.splits)
    then show ?thesis using q by blast
  qed
qed

lemma create_registered:
  assumes "CreateContainer p cli name c host net consist wt po out d w = (Inr (cid, None), d', w')"
  shows "dn_namespace d' = dn_namespace d \<and> (\<exists>info. dn_containers d' name = Some info \<and> ci_containerID info = cid)"
  using assms by (cases rule: create_container_cases) (auto simp: register_container_def)

lemma start_registered:
  assumes "StartContainer rt cli dl fuel name d w = Some (Inr (Inr ports), d', w')" and "dn_containers d name = Some info"
  shows "dn_namespace d' = dn_namespace d \<and> (\<exists>info'. dn_containers d' name = Some info' \<and> ci_running info' \<and>
    ci_ports info' = ports \<and> ci_containerID info' = ci_containerID info)"
  using assms unfolding StartContainer_def
  by (auto split: if_splits prod.splits option.splits sum.splits)

lemma run_locked_registers:
  assumes "run_locked dp cft ctx fuel name alias c opts w = Some ((Inr (Inr x), cft'), w')"
  shows "cn_name x = name \<and> cn_alias x = alias \<and> cn_ex x = cf_ex cft \<and> cf_ex cft' = cf_ex cft \<and> cf_cli cft' = cf_cli cft \<and>
    dn_namespace (cf_namespace cft') = dn_namespace (cf_namespace cft) \<and>
    (\<exists>info. dn_containers (cf_namespace cft') name = Some info \<and> ci_running info \<and> ci_ports info = cn_ports x \<and>
       ci_containerID info = cn_id x)"
proof -
  obtain ns cc hc nc consist po out ns1 dw1 cid where cft': "cft' = cft\<lparr>cf_namespace := ns\<rparr>"
    and cr: "CreateContainer (dp_pkgs dp) (cf_cli cft) name cc hc nc consist (cp_Waiter c) po out (cf_namespace cft) (aw_docker w) =
      (Inr (cid, None), ns1, dw1)"
    and st: "StartContainer (dp_runtime dp) (cf_cli cft) (cx_deadline ctx) fuel name ns1 dw1 = Some (Inr (Inr (cn_ports x)), ns, aw_docker w')"
    and x: "cn_id x = cid" "cn_name x = name" "cn_alias x = alias" "cn_ex x = cf_ex cft"
    using run_locked_steps [OF assms] by blast
  obtain info where info: "dn_containers ns1 name = Some info" "ci_containerID info = cid" "dn_namespace ns1 = dn_namespace (cf_namespace cft)"
    using create_registered [OF cr] by blast
  from start_registered [OF st info(1)] show ?thesis using cft' x info(2,3) by auto
qed

text \<open>A container that runs is returned again without asking docker.\<close>

lemma run_locked_again:
  assumes "dn_containers (cf_namespace cft) name = Some info" and "ci_running info"
    and "dp_ParsePortSpecs dp (cp_ExposedPorts c) = Inr pp"
  shows "run_locked dp cft ctx fuel name alias c [] w =
    Some ((Inr (Inr \<lparr>cn_ex = cf_ex cft, cn_id = ci_containerID info, cn_name = name, cn_alias = alias, cn_ports = ci_ports info\<rparr>),
      cft), w)"
  using assms by (cases pp) (simp add: run_locked_def createContainer_def CreateContainer_def StartContainer_def Let_def)

text \<open>\<open>Run\<close> with any control whose setup locks are a map of mutexes.\<close>

context mutex_map
begin

lemma run_mutex:
  assumes ex: "ct_LockForContainerSetup (cf_ex cft) = lockf" "ct_UnlockContainerSetup (cf_ex cft) = unlockf"
    and own: "owns (aw_locks w) wr"
    and run: "Run_container dp cft ctx fuel c opts w = Some ((r, cft'), w')"
  shows "owns (aw_locks w') wr \<and>
    (wr (dn_namespace (cf_namespace cft) @ cp_Name c) \<noteq> {} \<longrightarrow> aw_docker w' = aw_docker w) \<and>
    (\<forall>x. r = Inr (Inr x) \<longrightarrow> wr (dn_namespace (cf_namespace cft) @ cp_Name c) = {} \<and>
       (\<exists>ctx v v'. run_locked dp cft ctx fuel (dn_namespace (cf_namespace cft) @ cp_Name c) (cp_Name c) c opts v =
          Some ((r, cft'), v')))"
proof -
  let ?name = "dn_namespace (cf_namespace cft) @ cp_Name c"
  let ?ctx = "applyTimeout (clock_of dp w) ctx (cf_defaultTimeout cft)"
  let ?body = "run_locked dp cft ?ctx fuel ?name (cp_Name c) c opts"
  have body: "\<forall>v q v'. ?body v = Some (q, v') \<longrightarrow> aw_locks v' = aw_locks v" by (blast dest: run_locked_locks)
  have "with_lock (\<lambda>l. lockf (cx_done ?ctx) l ?name) (\<lambda>l. unlockf l ?name) (Inr (Inl (confort_err (cx_err ?ctx))), cft)
      (\<lambda>pn r. (Inl pn, snd r)) ?body w = Some ((r, cft'), w')"
    using run by (simp add: Run_container_def Let_def ex)
  note bal = with_lock_balanced [OF own body this]
  have "wr ?name = {} \<and> (\<exists>v v'. ?body v = Some ((r, cft'), v'))" if "r = Inr (Inr x)" for x
    using bal that by (elim conjE disjE exE) (simp, blast)
  moreover have "owns (aw_locks w') wr \<and> (wr ?name \<noteq> {} \<longrightarrow> aw_docker w' = aw_docker w)" using bal by auto
  ultimately show ?thesis by blast
qed

lemma run_mutex_again:
  assumes ex: "ct_LockForContainerSetup (cf_ex cft) = lockf" "ct_UnlockContainerSetup (cf_ex cft) = unlockf"
    and own: "owns (aw_locks w) wr" and free: "wr name = {}"
    and name: "name = dn_namespace (cf_namespace cft) @ cp_Name c"
    and known: "dn_containers (cf_namespace cft) name = Some info" "ci_running info"
    and ports: "dp_ParsePortSpecs dp (cp_ExposedPorts c) = Inr pp"
  shows "\<exists>v. Run_container dp cft ctx fuel c [] w =
    Some ((Inr (Inr \<lparr>cn_ex = cf_ex cft, cn_id = ci_containerID info, cn_name = name, cn_alias = cp_Name c,
      cn_ports = ci_ports info\<rparr>), cft), v) \<and> aw_docker v = aw_docker w"
proof -
  let ?ctx = "applyTimeout (clock_of dp w) ctx (cf_defaultTimeout cft)"
  obtain l where l: "lockf (cx_done ?ctx) (aw_locks w) name = Granted l" using mutex_free [OF own free] by blast
  have "owns l (wr(name := {0}))" using mutex_granted [OF own l] by blast
  then obtain l' where "unlockf l name = Inr l'" using mutex_unlock [of l "wr(name := {0})" 0 name] by auto
  then show ?thesis
    using l run_locked_again [where ctx = ?ctx, OF known ports]
    by (simp add: Run_container_def with_lock_def Let_def ex name [symmetric])
qed

end

context weighted_semaphore
begin

lemmas run_setup = cset.run_mutex and run_setup_again = cset.run_mutex_again

end

section \<open>Sessions\<close>

text \<open>
  A session: \<open>New\<close>, then any number of \<open>Run\<close> calls with any results; in between, other goroutines and processes may
  change everything but the log of the calls of this one.
\<close>

inductive session ::
  "('w, 'c, 'd, 'h, 'i, 'x, 'l) deps \<Rightarrow> ('w, 'd, 'l) api_world \<Rightarrow> ('c, 'd, 'h, 'i, 'x, 'l) confort \<Rightarrow>
     ('w, 'd, 'l) api_world \<Rightarrow> bool"
  for dp w0 where
  opened: "New_confort dp ctx fuel opts w0 = Some (Inr (Inr cft), w) \<Longrightarrow> session dp w0 cft w"
| ran: "session dp w0 cft w \<Longrightarrow> Run_container dp cft ctx fuel c opts w = Some ((r, cft'), w') \<Longrightarrow> session dp w0 cft' w'"
| elsewhere: "session dp w0 cft w \<Longrightarrow> calls (aw_docker v) = calls (aw_docker w) \<Longrightarrow> session dp w0 cft v"

text \<open>Only a connection that is enabled makes \<open>New\<close> skip the deletion.\<close>

lemma new_options_skip:
  "new_options dp fuel opts v os = Some (Inr v', os') \<Longrightarrow> nv_skipDeletion v = Enabled (nv_beaconConn v) \<Longrightarrow>
     nv_skipDeletion v' = Enabled (nv_beaconConn v')"
  by (induction dp fuel opts v os rule: new_options.induct)
    (auto simp: Enabled_def split: option.splits sum.splits prod.splits if_splits)

lemma open_namespace_steps:
  assumes "open_namespace dp ctx v policy cli w = Some (Inr (Inr cft), w')"
  shows "cf_backend cft = \<lparr>db_policy = policy, db_labels = [(LabelIdentifier, Identifier (dp_hash dp) (dp_env dp)
      (if Enabled (nv_beaconConn v) then Addr (the (nv_beaconConn v)) else ''''))]\<rparr> \<and>
    cf_cli cft = cli \<and> cf_beaconConn cft = nv_beaconConn v \<and> cf_skipDeletion cft = nv_skipDeletion v \<and>
    Namespace (dp_host dp) cli (cf_backend cft) (nv_namespace v) (aw_docker w) = (Inr (cf_namespace cft), aw_docker w')"
  using assms unfolding open_namespace_def with_lock_def Let_def
  by (auto simp: Enabled_def split: outcome.splits option.splits prod.splits sum.splits if_splits)

lemma new_steps:
  assumes "New_confort dp ctx fuel opts w0 = Some (Inr (Inr cft), w)"
  obtains v os ctx' w1 policy where "new_options dp fuel opts (new_defaults dp) (aw_os w0) = Some (Inr v, os)"
    and "nv_namespace v \<noteq> ''''" and "ValidResourcePolicy policy" and "aw_docker w1 = aw_docker w0"
    and "open_namespace dp ctx' v policy (cf_cli cft) w1 = Some (Inr (Inr cft), w)"
proof -
  obtain v os where v: "new_options dp fuel opts (new_defaults dp) (aw_os w0) = Some (Inr v, os)"
    using assms by (auto simp: New_confort_def Let_def split: option.splits sum.splits prod.splits)
  let ?w1 = "w0\<lparr>aw_log := lazyInit (dp_env dp) (aw_log w0), aw_os := os\<rparr>"
    and ?policy = "if nv_policy v = '''' then ResourcePolicyReuse else nv_policy v"
  let ?ctx = "applyTimeout (clock_of dp ?w1) ctx (nv_timeout v)"
  have p: "nv_namespace v \<noteq> ''''" "ValidResourcePolicy ?policy"
    using assms v by (auto simp: New_confort_def Let_def split: if_splits)
  obtain cli where cli: "dp_NewClient dp (nv_clientOps v) = Inr cli"
    using assms v p by (auto simp: New_confort_def Let_def split: sum.splits)
  have o: "open_namespace dp ?ctx v ?policy cli ?w1 = Some (Inr (Inr cft), w)"
    using assms v p cli
    by (cases "open_namespace dp ?ctx v ?policy cli ?w1") (auto simp: New_confort_def Let_def split: sum.splits prod.splits)
  have "cf_cli cft = cli" using open_namespace_steps [OF o] by simp
  with that [OF v p, of ?w1 ?ctx] o show thesis by simp
qed

lemma run_steps:
  assumes "Run_container dp cft ctx fuel c opts w = Some ((r, cft'), w')"
  shows "cft' = cft \<and> aw_docker w' = aw_docker w \<or>
    (\<exists>ctx2 name alias q v v'. aw_docker v = aw_docker w \<and> aw_docker v' = aw_docker w' \<and>
       run_locked dp cft ctx2 fuel name alias c opts v = Some ((q, cft'), v'))"
proof -
  let ?name = "dn_namespace (cf_namespace cft) @ cp_Name c"
  let ?ctx = "applyTimeout (clock_of dp w) ctx (cf_defaultTimeout cft)"
  show ?thesis
  proof (cases "ct_LockForContainerSetup (cf_ex cft) (cx_done ?ctx) (aw_locks w) ?name")
    case (Granted l)
    obtain q f v where b: "run_locked dp cft ?ctx fuel ?name (cp_Name c) c opts (w\<lparr>aw_locks := l\<rparr>) = Some ((q, f), v)"
      using assms Granted by (auto simp: Run_container_def with_lock_def Let_def split: option.splits)
    then have "f = cft' \<and> aw_docker w' = aw_docker v"
      using assms Granted by (auto simp: Run_container_def with_lock_def Let_def split: sum.splits)
    then show ?thesis using b by (intro disjI2) (metis api_world.select_convs(2) api_world.surjective api_world.update_convs(3))
  qed (use assms in \<open>auto simp: Run_container_def with_lock_def Let_def\<close>)
qed

lemma run_locked_ns_run:
  assumes "run_locked dp cft ctx fuel name alias c opts w = Some ((r, cft'), w')"
  shows "\<exists>ns. cft' = cft\<lparr>cf_namespace := ns\<rparr> \<and>
    (ns_run h (dp_pkgs dp) (cf_cli cft) b dw (cf_namespace cft) (aw_docker w) \<longrightarrow>
     ns_run h (dp_pkgs dp) (cf_cli cft) b dw ns (aw_docker w'))"
  using run_locked_steps [OF assms]
proof (elim exE conjE disjE)
  fix ns cc hc nc consist po out q ns1 dw1
  assume "CreateContainer (dp_pkgs dp) (cf_cli cft) name cc hc nc consist (cp_Waiter c) po out (cf_namespace cft) (aw_docker w) =
      (q, ns1, dw1)" and "cft' = cft\<lparr>cf_namespace := ns\<rparr>" "ns = ns1" "aw_docker w' = dw1"
  then show ?thesis using ns_run.created by blast
next
  fix ns cc hc nc consist po out q ns1 dw1 cid s
  assume cft': "cft' = cft\<lparr>cf_namespace := ns\<rparr>"
    and cr: "CreateContainer (dp_pkgs dp) (cf_cli cft) name cc hc nc consist (cp_Waiter c) po out (cf_namespace cft) (aw_docker w) =
      (q, ns1, dw1)"
    and st: "StartContainer (dp_runtime dp) (cf_cli cft) (cx_deadline ctx) fuel name ns1 dw1 = Some (s, ns, aw_docker w')"
  then show ?thesis using ns_run.started [OF ns_run.created [OF _ cr] st] by blast
qed (auto intro: exI [of _ "cf_namespace cft"])

text \<open>The namespace of a session has run as the policies require.\<close>

lemma session_ns_run:
  assumes "session dp w0 cft w"
  shows "ns_run (dp_host dp) (dp_pkgs dp) (cf_cli cft) (cf_backend cft) (aw_docker w0) (cf_namespace cft) (aw_docker w) \<and>
    ValidResourcePolicy (db_policy (cf_backend cft)) \<and> cf_skipDeletion cft = Enabled (cf_beaconConn cft) \<and>
    db_labels (cf_backend cft) = [(LabelIdentifier, Identifier (dp_hash dp) (dp_env dp)
      (if Enabled (cf_beaconConn cft) then Addr (the (cf_beaconConn cft)) else ''''))]"
  using assms
proof (induction rule: session.induct)
  case (opened ctx fuel opts cft w)
  obtain v os ctx' w1 policy where v: "new_options dp fuel opts (new_defaults dp) (aw_os w0) = Some (Inr v, os)"
    and p: "ValidResourcePolicy policy" and w1: "aw_docker w1 = aw_docker w0"
    and o: "open_namespace dp ctx' v policy (cf_cli cft) w1 = Some (Inr (Inr cft), w)"
    by (rule new_steps [OF opened])
  have "nv_skipDeletion v = Enabled (nv_beaconConn v)"
    by (rule new_options_skip [OF v]) (simp add: new_defaults_def Enabled_def)
  then show ?case
    using open_namespace_steps [OF o] p w1 by (auto intro: ns_run.opened)
next
  case (ran cft w ctx fuel c opts r cft' w')
  from run_steps [OF ran.hyps(2)] show ?case
  proof (elim disjE exE conjE)
    assume "cft' = cft" and "aw_docker w' = aw_docker w"
    then show ?thesis using ran.IH by simp
  next
    fix ctx2 name al q v v'
    assume v: "aw_docker v = aw_docker w" "aw_docker v' = aw_docker w'"
      and b: "run_locked dp cft ctx2 fuel name al c opts v = Some ((q, cft'), v')"
    from run_locked_ns_run [OF b, of "dp_host dp" "cf_backend cft" "aw_docker w0"]
    show ?thesis using ran.IH v by auto
  qed
next
  case (elsewhere cft w v)
  then have "aw_docker v = (aw_docker w)\<lparr>dk := dk (aw_docker v)\<rparr>" by simp
  then show ?case using elsewhere ns_run.elsewhere by metis
qed

section \<open>Main properties\<close>



section \<open>A concrete session\<close>

definition plain_archive :: "(nat, nat) archive_api" where
  "plain_archive =
     \<lparr>ar_GetContext = (\<lambda>d f w. (Inr (d, f), w)), ar_ReadDockerignore = (\<lambda>_ w. (Inr [], w)),
      ar_TrimBuildFiles = (\<lambda>ex _ _. ex), ar_Validate = (\<lambda>_ _ w. (None, w)), ar_Tar = (\<lambda>_ _ w. (Inr 0, w))\<rparr>"

definition plain_control :: "(int \<times> int, string list) locker control" where
  "plain_control = NewControl counting_sem (\<lambda>_ _. None) (\<lambda>_ l. Inr l)"

definition plain_deps ::
  "(nat, unit, (string \<times> bool) list, nat, nat, nat, (int \<times> int, string list) locker) deps" where
  "plain_deps =
     \<lparr>dp_os = still_os, dp_grpc = slow_grpc, dp_env = [NamespaceEnv \<mapsto> ''ns'', IdentifierEnv \<mapsto> ''1''], dp_hash = id,
      dp_host = plain_host_env, dp_pkgs = plain_pkgs, dp_FromEnv = 0, dp_NewClient = (\<lambda>_. Inr plain_docker),
      dp_NewControl = plain_control, dp_NewBeaconControl = (\<lambda>_. plain_control), dp_archive = plain_archive,
      dp_ParsePortSpecs = (\<lambda>_. Inr ([(''80/tcp'', ())], [])), dp_runtime = plain_runtime\<rparr>"

definition plain_ctx :: go_ctx where
  "plain_ctx = \<lparr>cx_deadline = None, cx_done = False, cx_err = ErrorString ''context canceled''\<rparr>"

abbreviation plain_api where
  "plain_api dw \<equiv> \<lparr>aw_os = 0, aw_docker = dw, aw_locks = NewLocker list_once, aw_log = log_init\<rparr>"

definition plain_cft ::
  "(unit, (string \<times> bool) list, nat, nat, nat, (int \<times> int, string list) locker) confort" where
  "plain_cft =
     \<lparr>cf_backend = plain_backend ResourcePolicyReuse, cf_namespace = plain_ns ResourcePolicyReuse, cf_cli = plain_docker,
      cf_defaultTimeout = 60000000000, cf_ex = plain_control, cf_beaconConn = None, cf_skipDeletion = False\<rparr>"

lemma plain_New:
  "New_confort plain_deps plain_ctx 0 [] (plain_api (plain_world [(''other'', True)])) =
     Some (Inr (Inr plain_cft), (plain_api (plain_opened [(''other'', True)]))\<lparr>aw_log := log_init\<lparr>lg_once := True\<rparr>\<rparr>)"
proof -
  have b: "\<lparr>db_policy = ''reuse'', db_labels = [(LabelIdentifier, ''1'')]\<rparr> = plain_backend ResourcePolicyReuse"
    by (simp add: plain_backend_def policy_defs)
  have env: "Getenv [NamespaceEnv \<mapsto> ''ns'', IdentifierEnv \<mapsto> ''1''] NamespaceEnv = ''ns''"
    "Getenv [NamespaceEnv \<mapsto> ''ns'', IdentifierEnv \<mapsto> ''1''] ResourcePolicyEnv = ''''"
    "Identifier h [NamespaceEnv \<mapsto> ''ns'', IdentifierEnv \<mapsto> ''1''] a = ''1''"
    "lazyInit [NamespaceEnv \<mapsto> ''ns'', IdentifierEnv \<mapsto> ''1''] log_init = log_init\<lparr>lg_once := True\<rparr>" for h a
    by (simp_all add: Getenv_def NamespaceEnv_def IdentifierEnv_def ResourcePolicyEnv_def Identifier_def lazyInit_def
        log_init_def LogLevelEnv_def)
  show ?thesis
    by (simp add: New_confort_def plain_deps_def new_defaults_def env open_namespace_def with_lock_def plain_control_def
        NewControl_def LockForNamespace_def UnlockNamespace_def NewLocker_def b plain_Namespace plain_cft_def
        ValidResourcePolicy_def policy_defs Let_def)
qed

definition web_params :: "((string \<times> bool) list, nat) container_params" where
  "web_params =
     \<lparr>cp_Name = ''web'', cp_Image = ''web'', cp_Env = [(''A'', ''1'')], cp_Entrypoint = [], cp_Cmd = [], cp_WorkingDir = '''',
      cp_ExposedPorts = [''80''], cp_StopTimeout = None, cp_Mounts = [], cp_Waiter = None\<rparr>"

lemma plain_run_locked:
  "\<exists>x cft' v. run_locked plain_deps plain_cft ctx 1 ''ns-web'' ''web'' web_params [] w = Some ((Inr (Inr x), cft'), v)"
  if "aw_docker w = plain_opened [(''other'', True)]" for w
  using that
  by (simp add: plain_deps_def plain_cft_def run_locked_def createContainer_def CreateContainer_def
      create_new_def register_container_def StartContainer_def containerPortMap_def query_def api_def plain_docker_def
      plain_runtime_def plain_ns_def plain_opened_def plain_summary_def web_params_def
      base_container_def modified_def Let_def ports_bound_def)

lemma plain_Run:
  assumes "aw_docker w = plain_opened [(''other'', True)]" and "aw_locks w = NewLocker list_once"
  shows "\<exists>x cft' w'. Run_container plain_deps plain_cft plain_ctx 1 web_params [] w = Some ((Inr (Inr x), cft'), w')"
proof -
  let ?ctx = "applyTimeout (clock_of plain_deps w) plain_ctx 60000000000"
  obtain l l' where l: "LockForContainerSetup counting_sem (cx_done ?ctx) (NewLocker list_once) ''ns-web'' = Granted l"
    "UnlockContainerSetup counting_sem l ''ns-web'' = Inr l'"
    using csem.cset.fresh_lock_unlock by blast
  obtain x cft' v where b: "run_locked plain_deps plain_cft ?ctx 1 ''ns-web'' ''web'' web_params [] (w\<lparr>aw_locks := l\<rparr>) =
      Some ((Inr (Inr x), cft'), v)"
    using plain_run_locked [of "w\<lparr>aw_locks := l\<rparr>" ?ctx] assms by auto
  have names: "dn_namespace (cf_namespace plain_cft) = ''ns-''" "cp_Name web_params = ''web''"
    "cf_defaultTimeout plain_cft = 60000000000" "cf_ex plain_cft = plain_control"
    by (simp_all add: plain_cft_def plain_ns_def web_params_def)
  have "aw_locks v = l" using run_locked_locks [OF b] by simp
  then show ?thesis
    using b l assms(2) by (simp add: Run_container_def Let_def names with_lock_def plain_control_def NewControl_def)
qed



end
