(* ===== verification/Commands.thy ===== *)
theory Commands
  imports Confort_Properties
begin

text \<open>
  internal/cmd: the commands \<open>confort start\<close>, \<open>confort stop\<close> and \<open>confort test\<close> (commands.go) and the operations behind
  them (operations.go). \<open>Operation\<close> is an interface: record \<open>operation\<close>, with \<open>NewOperation\<close> as its implementation. The
  flag package is modelled by the variables and \<open>Set\<close> functions of the flags; log output is left out.
\<close>

section \<open>Operations\<close>

text \<open>What running a test process ends with, besides nil: its exit code, or the failure to run it.\<close>

datatype run_error = ExitCode int | RunError go_error

record ('w, 'd) cmd_world =
  cw_os :: 'w
  cw_docker :: "'d docker_world"

record 'v operation =
  op_StartBeaconServer :: "'v \<Rightarrow> ((go_error + string) \<times> 'v) option"
  op_Done :: "'v \<Rightarrow> 'v"
  op_StopBeaconServer :: "string \<Rightarrow> 'v \<Rightarrow> go_error option \<times> 'v"
  op_CleanupResources :: "string \<Rightarrow> string \<Rightarrow> 'v \<Rightarrow> go_error option \<times> 'v"
  op_ExecuteTest :: "string \<Rightarrow> string list \<Rightarrow> string list \<Rightarrow> 'v \<Rightarrow> run_error option \<times> 'v"

text \<open>
  The surroundings of the operations: the listener (its address), starting and stopping the gRPC server, the end of
  the server, the interrupt call of a client, and the execution of a command with its arguments and environment,
  which may do anything to docker.
\<close>

record ('w, 'c, 'd) server_api =
  sa_Listen :: "'w \<Rightarrow> (go_error + string) \<times> 'w"
  sa_Serve :: "'w \<Rightarrow> 'w"
  sa_Stop :: "'w \<Rightarrow> 'w"
  sa_CloseListener :: "'w \<Rightarrow> 'w"
  sa_Done :: "'w \<Rightarrow> 'w"
  sa_Interrupt :: "'c \<Rightarrow> 'w \<Rightarrow> go_error option \<times> 'w"
  sa_Command :: "string \<Rightarrow> string list \<Rightarrow> string list \<Rightarrow> 'w \<times> 'd \<Rightarrow> run_error option \<times> 'w \<times> 'd"

text \<open>The health-check loop of the starting server: an error of a check is skipped. Fuel as in \<open>connect\<close>.\<close>

fun serving_loop :: "('w, 'c) grpc_api \<Rightarrow> 'c \<Rightarrow> nat \<Rightarrow> nat \<Rightarrow> 'w \<Rightarrow> (bool \<times> 'w) option" where
  "serving_loop g c 0 k w = None"
| "serving_loop g c (Suc fuel) k w =
     (case gr_Continue g (200 * 1000000) 150 k w of
        (False, w') \<Rightarrow> Some (False, w')
      | (True, w') \<Rightarrow>
          (case gr_Health g c w' of
             (Inr HealthServing, w'') \<Rightarrow> Some (True, w'')
           | (_, w'') \<Rightarrow> serving_loop g c fuel (Suc k) w''))"

definition StartBeaconServer ::
  "('w, 'c, 'd) server_api \<Rightarrow> ('w, 'c) grpc_api \<Rightarrow> nat \<Rightarrow> 'w \<Rightarrow> ((go_error + string) \<times> 'w) option" where
  "StartBeaconServer sa g fuel w =
     (case sa_Listen sa w of
        (Inl err, w1) \<Rightarrow> Some (Inl err, w1)
      | (Inr addr, w1) \<Rightarrow>
          (let w2 = sa_Serve sa w1; failed = (\<lambda>w. sa_CloseListener sa (sa_Stop sa w)) in
           case gr_Dial g addr w2 of
             (Inl err, w3) \<Rightarrow> Some (Inl err, failed w3)
           | (Inr conn, w3) \<Rightarrow>
               (case serving_loop g conn fuel 0 w3 of
                  None \<Rightarrow> None
                | Some (True, w4) \<Rightarrow> Some (Inr addr, snd (gr_Close g conn w4))
                | Some (False, w4) \<Rightarrow>
                    Some (Inl (ErrorString ''cannot obtain beacon endpoint''), failed (snd (gr_Close g conn w4))))))"

definition StopBeaconServer ::
  "('w, 'c, 'd) server_api \<Rightarrow> ('w, 'c) grpc_api \<Rightarrow> string \<Rightarrow> 'w \<Rightarrow> go_error option \<times> 'w" where
  "StopBeaconServer sa g addr w =
     (case gr_Dial g addr w of
        (Inl err, w1) \<Rightarrow> (Some err, w1)
      | (Inr conn, w1) \<Rightarrow> (case sa_Interrupt sa conn w1 of (err, w2) \<Rightarrow> (err, snd (gr_Close g conn w2))))"

text \<open>Removing one resource after the other; errors are collected.\<close>

fun remove_all ::
  "('a \<Rightarrow> 'd docker_world \<Rightarrow> go_error option \<times> 'd docker_world) \<Rightarrow> 'a list \<Rightarrow> go_error option list \<Rightarrow> 'd docker_world \<Rightarrow>
     go_error option list \<times> 'd docker_world" where
  "remove_all rm [] errs w = (errs, w)"
| "remove_all rm (x # xs) errs w =
     (case rm x w of
        (None, w') \<Rightarrow> remove_all rm xs errs w'
      | (Some e, w') \<Rightarrow> remove_all rm xs (errs @ [Some e]) w')"

text \<open>A failed listing gives the zero value, no resources, and its error is collected too.\<close>

definition listed :: "go_error + 'a list \<Rightarrow> 'a list \<times> go_error option list" where
  "listed r = (case r of Inl err \<Rightarrow> ([], [Some err]) | Inr xs \<Rightarrow> (xs, []))"

lemma listed_Inr [simp]: "listed (Inr xs) = (xs, [])"
  by (simp add: listed_def)

definition CleanupResources ::
  "('h, 'i) err_pkgs \<Rightarrow> (go_error + ('d, 'h, 'i, 'x) docker_client) \<Rightarrow> string \<Rightarrow> string \<Rightarrow> 'd docker_world \<Rightarrow>
     go_error option \<times> 'd docker_world" where
  "CleanupResources p newClient label val w =
     (case newClient of
        Inl err \<Rightarrow> (Some err, w)
      | Inr cli \<Rightarrow>
          (let f = LabelFilter (label @ ''='' @ val) in
           case query (dc_ContainerList cli f) w of
             (r1, w1) \<Rightarrow>
               (case remove_all (\<lambda>c. run_terminator cli (RemoveContainer (cs_ID c))) (fst (listed r1)) (snd (listed r1)) w1 of
                  (errs1, w2) \<Rightarrow>
                    (case query (dc_NetworkList cli f) w2 of
                       (r2, w3) \<Rightarrow>
                         (case remove_all (\<lambda>n. run_terminator cli (RemoveNetwork (nr_ID n))) (fst (listed r2))
                                 (errs1 @ snd (listed r2)) w3 of
                            (errs2, w4) \<Rightarrow> (Combine p errs2, w4))))))"

definition ExecuteTest ::
  "('w, 'c, 'd) server_api \<Rightarrow> string \<Rightarrow> string list \<Rightarrow> string list \<Rightarrow> 'w \<times> 'd \<Rightarrow> run_error option \<times> 'w \<times> 'd" where
  "ExecuteTest sa goCmd args environments w = sa_Command sa goCmd (''test'' # args) environments w"

definition on_os :: "('w \<Rightarrow> 'r \<times> 'w) \<Rightarrow> ('w, 'd) cmd_world \<Rightarrow> 'r \<times> ('w, 'd) cmd_world" where
  "on_os f v = (case f (cw_os v) of (r, w) \<Rightarrow> (r, v\<lparr>cw_os := w\<rparr>))"

definition NewOperation ::
  "('w, 'c, 'd) server_api \<Rightarrow> ('w, 'c) grpc_api \<Rightarrow> nat \<Rightarrow> ('h, 'i) err_pkgs \<Rightarrow> (go_error + ('d, 'h, 'i, 'x) docker_client) \<Rightarrow>
     ('w, 'd) cmd_world operation" where
  "NewOperation sa g fuel p newClient =
     \<lparr>op_StartBeaconServer =
        (\<lambda>v. map_option (\<lambda>(r, w). (r, v\<lparr>cw_os := w\<rparr>)) (StartBeaconServer sa g fuel (cw_os v))),
      op_Done = (\<lambda>v. v\<lparr>cw_os := sa_Done sa (cw_os v)\<rparr>),
      op_StopBeaconServer = (\<lambda>addr. on_os (StopBeaconServer sa g addr)),
      op_CleanupResources =
        (\<lambda>label val v. case CleanupResources p newClient label val (cw_docker v) of (e, dw) \<Rightarrow> (e, v\<lparr>cw_docker := dw\<rparr>)),
      op_ExecuteTest = (\<lambda>goCmd args env v.
        case ExecuteTest sa goCmd args env (cw_os v, dk (cw_docker v)) of
          (r, w, d) \<Rightarrow> (r, v\<lparr>cw_os := w, cw_docker := (cw_docker v)\<lparr>dk := d\<rparr>\<rparr>))\<rparr>"

section \<open>start and stop\<close>

definition ExitSuccess :: int where "ExitSuccess = 0"

definition ExitFailure :: int where "ExitFailure = 1"

text \<open>The default of the flag \<open>-lock-file\<close>.\<close>

definition default_lock_file :: "environment \<Rightarrow> string" where
  "default_lock_file env = (let d = Getenv env LockFileEnv in if d = '''' then LockFile else d)"

definition Start_Execute ::
  "'v operation \<Rightarrow> 'v file_api \<Rightarrow> string \<Rightarrow> 'v \<Rightarrow> (int \<times> 'v) option" where
  "Start_Execute op os lockFile v =
     (case os_Stat os lockFile v of
        (None, v1) \<Rightarrow> Some (ExitFailure, v1)
      | (Some (FileError _), v1) \<Rightarrow> Some (ExitFailure, v1)
      | (Some NotExist, v1) \<Rightarrow>
          (case op_StartBeaconServer op v1 of
             None \<Rightarrow> None
           | Some (Inl err, v2) \<Rightarrow> Some (ExitFailure, v2)
           | Some (Inr addr, v2) \<Rightarrow>
               (case StoreAddressToLockFile os lockFile addr v2 of
                  (Some err, v3) \<Rightarrow> Some (ExitFailure, snd (op_StopBeaconServer op addr v3))
                | (None, v3) \<Rightarrow> Some (ExitSuccess, op_Done op v3))))"

definition Stop_Execute ::
  "'v operation \<Rightarrow> 'v file_api \<Rightarrow> (string \<Rightarrow> string) \<Rightarrow> environment \<Rightarrow> string \<Rightarrow> 'v \<Rightarrow> int \<times> 'v" where
  "Stop_Execute op os hash env lockFile v =
     (case Address os env lockFile v of
        (Inl _, v1) \<Rightarrow> (ExitFailure, v1)
      | (Inr addr, v1) \<Rightarrow>
          (case op_StopBeaconServer op addr v1 of
             (Some err, v2) \<Rightarrow> (ExitFailure, v2)
           | (None, v2) \<Rightarrow>
               (case op_CleanupResources op LabelIdentifier (Identifier hash env addr) v2 of
                  (Some err, v3) \<Rightarrow> (ExitFailure, v3)
                | (None, v3) \<Rightarrow>
                    (case DeleteLockFile os lockFile v3 of
                       (Some err, v4) \<Rightarrow> (ExitFailure, v4)
                     | (None, v4) \<Rightarrow> (ExitSuccess, v4)))))"

section \<open>test\<close>

datatype go_mode = ModeExact | ModeLatest | ModeFallback

record test_command =
  tc_namespace :: string
  tc_policy :: string
  tc_goVer :: string
  tc_goMode :: go_mode

definition Test_SetFlags :: "environment \<Rightarrow> test_command" where
  "Test_SetFlags env =
     \<lparr>tc_namespace = Getenv env NamespaceEnv, tc_policy = ResourcePolicyReuse, tc_goVer = '''', tc_goMode = ModeFallback\<rparr>"

definition resourcePolicy_Set :: "string \<Rightarrow> test_command \<Rightarrow> go_error + test_command" where
  "resourcePolicy_Set v t =
     (if \<not> ValidResourcePolicy v then Inl (Errorf ''invalid resource policy: %s'' [v]) else Inr (t\<lparr>tc_policy := v\<rparr>))"

fun goMode_String :: "go_mode \<Rightarrow> string" where
  "goMode_String ModeExact = ''exact''"
| "goMode_String ModeLatest = ''latest''"
| "goMode_String ModeFallback = ''fallback''"

definition goMode_Set :: "string \<Rightarrow> test_command \<Rightarrow> go_error + test_command" where
  "goMode_Set v t =
     (if v = ''exact'' then Inr (t\<lparr>tc_goMode := ModeExact\<rparr>)
      else if v = ''latest'' then Inr (t\<lparr>tc_goMode := ModeLatest\<rparr>)
      else if v \<in> {''fallback'', ''''} then Inr (t\<lparr>tc_goMode := ModeFallback\<rparr>)
      else Inl (Errorf ''invalid value: %s'' [v]))"

text \<open>The package gocmd: the version of the go command, the version in go.mod, and the choice of a command.\<close>

record gocmd_api =
  gc_CurrentVersion :: "string \<times> go_error option"
  gc_ModuleGoVersion :: "string \<times> go_error option"
  gc_Determine :: "string \<Rightarrow> go_mode \<Rightarrow> string \<times> string \<times> go_error option"

definition determineGoCommand :: "gocmd_api \<Rightarrow> test_command \<Rightarrow> string \<times> string \<times> go_error option" where
  "determineGoCommand gc t =
     (if tc_goVer t = '''' then (case gc_CurrentVersion gc of (ver, err) \<Rightarrow> (''go'', ver, err))
      else if tc_goVer t = ''mod'' then
        (case gc_ModuleGoVersion gc of
           (ver, Some err) \<Rightarrow> ('''', '''', Some (Wrapped ''failed to read go.mod: '' err))
         | (ver, None) \<Rightarrow> gc_Determine gc ver (tc_goMode t))
      else gc_Determine gc (tc_goVer t) (tc_goMode t))"

definition env_entry :: "string \<Rightarrow> string \<Rightarrow> string" where
  "env_entry k v = k @ ''='' @ v"

definition test_environ :: "test_command \<Rightarrow> string \<Rightarrow> string \<Rightarrow> string list \<Rightarrow> string list" where
  "test_environ t addr identifier environ =
     environ @ [env_entry AddressEnv addr] @
     (if tc_namespace t \<noteq> '''' then [env_entry NamespaceEnv (tc_namespace t)] else []) @
     [env_entry ResourcePolicyEnv (tc_policy t), env_entry IdentifierEnv identifier]"

text \<open>
  \<open>Execute\<close>, after the working directory: what follows the start of the server, whose deferred stop comes last.
  \<open>None\<close>: a loop has not ended within its fuel.
\<close>

definition test_started ::
  "'v operation \<Rightarrow> gocmd_api \<Rightarrow> test_command \<Rightarrow> string \<Rightarrow> string list \<Rightarrow> string list \<Rightarrow> string \<Rightarrow> 'v \<Rightarrow> int \<times> 'v" where
  "test_started op gc t identifier environ args addr v =
     (case determineGoCommand gc t of
        (goCmd, ver, Some err) \<Rightarrow> (ExitFailure, v)
      | (goCmd, ver, None) \<Rightarrow>
          (case op_ExecuteTest op goCmd args (test_environ t addr identifier environ) v of
             (Some (RunError err), v1) \<Rightarrow> (ExitFailure, v1)
           | (r, v1) \<Rightarrow>
               (let status = (case r of Some (ExitCode n) \<Rightarrow> n | _ \<Rightarrow> ExitSuccess) in
                if tc_policy t \<noteq> ResourcePolicyReusable then
                  (case op_CleanupResources op LabelIdentifier identifier v1 of
                     (Some err, v2) \<Rightarrow> (ExitFailure, v2)
                   | (None, v2) \<Rightarrow> (status, v2))
                else (status, v1))))"

definition Test_Execute ::
  "'v operation \<Rightarrow> gocmd_api \<Rightarrow> (string \<Rightarrow> string) \<Rightarrow> environment \<Rightarrow> go_error + string \<Rightarrow> test_command \<Rightarrow> string list \<Rightarrow>
     string list \<Rightarrow> 'v \<Rightarrow> (int \<times> 'v) option" where
  "Test_Execute op gc hash env getwd t environ args v =
     (case getwd of
        Inl err \<Rightarrow> Some (ExitFailure, v)
      | Inr workingDir \<Rightarrow>
          (case op_StartBeaconServer op v of
             None \<Rightarrow> None
           | Some (Inl err, v1) \<Rightarrow> Some (ExitFailure, v1)
           | Some (Inr addr, v1) \<Rightarrow>
               (case test_started op gc t (Identifier hash env (workingDir @ '':'' @ tc_namespace t)) environ args addr v1 of
                  (status, v2) \<Rightarrow> Some (status, snd (op_StopBeaconServer op addr v2)))))"

section \<open>Cleaning up\<close>

lemma remove_all_calls:
  assumes "\<And>x w e w'. rm x w = (e, w') \<Longrightarrow> calls w' = calls w @ [f x]" and "remove_all rm xs errs w = (es, w')"
  shows "calls w' = calls w @ map f xs"
  using assms(2)
proof (induction xs arbitrary: errs w)
  case (Cons x xs)
  obtain e v where e: "rm x w = (e, v)" by (cases "rm x w")
  have "calls w' = calls v @ map f xs"
    using Cons.IH [of "errs" v] Cons.IH [of "errs @ [e]" v] Cons.prems e by (cases e) auto
  then show ?case using assms(1) [OF e] by simp
qed simp

lemma cleanup_calls:
  assumes "CleanupResources p (Inr cli) label val w = (e, w')"
    and "query (dc_ContainerList cli (LabelFilter (label @ ''='' @ val))) w = (r1, w1)"
  shows "\<exists>w2 r2 w3. query (dc_NetworkList cli (LabelFilter (label @ ''='' @ val))) w2 = (r2, w3) \<and>
    calls w' = calls w @ map (\<lambda>c. ContainerRemoveCall (cs_ID c)) (fst (listed r1)) @
      map (\<lambda>n. NetworkRemoveCall (nr_ID n)) (fst (listed r2))"
proof -
  let ?f = "LabelFilter (label @ ''='' @ val)"
  let ?rc = "\<lambda>c. run_terminator cli (RemoveContainer (cs_ID c))" and ?rn = "\<lambda>n. run_terminator cli (RemoveNetwork (nr_ID n))"
  obtain errs1 w2 where a: "remove_all ?rc (fst (listed r1)) (snd (listed r1)) w1 = (errs1, w2)"
    by (cases "remove_all ?rc (fst (listed r1)) (snd (listed r1)) w1")
  obtain r2 w3 where b: "query (dc_NetworkList cli ?f) w2 = (r2, w3)" by (cases "query (dc_NetworkList cli ?f) w2")
  obtain errs2 w4 where c: "remove_all ?rn (fst (listed r2)) (errs1 @ snd (listed r2)) w3 = (errs2, w4)"
    by (cases "remove_all ?rn (fst (listed r2)) (errs1 @ snd (listed r2)) w3")
  have w4: "w' = w4" using assms a b c by (simp add: CleanupResources_def Let_def)
  have "calls w2 = calls w1 @ map (\<lambda>c. ContainerRemoveCall (cs_ID c)) (fst (listed r1))"
    by (rule remove_all_calls [OF _ a]) (auto dest: run_terminator_calls)
  moreover have "calls w4 = calls w3 @ map (\<lambda>n. NetworkRemoveCall (nr_ID n)) (fst (listed r2))"
    by (rule remove_all_calls [OF _ c]) (auto dest: run_terminator_calls)
  ultimately show ?thesis using b w4 query_calls [OF assms(2)] query_calls [OF b] by auto
qed

section \<open>The environment of the tests\<close>

text \<open>The value of a variable in a list of entries: the last entry of the name counts.\<close>

definition env_lookup :: "string list \<Rightarrow> environment" where
  "env_lookup es k =
     (case List.find (\<lambda>e. prefix (k @ ''='') e) (rev es) of
        None \<Rightarrow> None
      | Some e \<Rightarrow> Some (drop (length k + 1) e))"

lemmas env_names = AddressEnv_def NamespaceEnv_def ResourcePolicyEnv_def IdentifierEnv_def

lemma test_environ_lookup:
  "env_lookup (test_environ t addr i environ) AddressEnv = Some addr"
  "env_lookup (test_environ t addr i environ) ResourcePolicyEnv = Some (tc_policy t)"
  "env_lookup (test_environ t addr i environ) IdentifierEnv = Some i"
  "tc_namespace t \<noteq> '''' \<Longrightarrow> env_lookup (test_environ t addr i environ) NamespaceEnv = Some (tc_namespace t)"
  by (simp_all add: env_lookup_def test_environ_def env_entry_def env_names)

lemma Identifier_test:
  assumes "\<And>s. hash s \<noteq> ''''"
  shows "Identifier hash (env_lookup (test_environ t addr (Identifier hash env s) environ)) x = Identifier hash env s"
  using assms by (simp add: Identifier_def Getenv_def test_environ_lookup Let_def)

section \<open>Main properties\<close>

text \<open>
  C23: \<open>confort test\<close> cleans up after its tests. Let the server start and the test process run to its end, with exit
  code zero or not. Then the command returns; the tests have seen the address of the server, the policy of the
  flag and the identifier of the command, so that every session in them labels its resources with exactly the
  identifier that the clean-up filters on; and, unless the policy is reusable, the command removes every container
  and every network that docker lists under that label, whatever single removals return. The exit status is that of
  the tests, or a failure when the clean-up reports one.
\<close>

theorem test_command_cleanup:
  assumes "op = NewOperation sa g fuel p (Inr cli)" and "\<forall>s. hash s \<noteq> ''''"
    and "op_StartBeaconServer op v = Some (Inr addr, v1)" and "addr \<noteq> ''''" and "\<not> EqualFold addr ''disabled''"
    and "determineGoCommand gc t = (goCmd, ver, None)"
    and "ident = Identifier hash env (wd @ '':'' @ tc_namespace t)" and "tenv = test_environ t addr ident environ"
    and "op_ExecuteTest op goCmd args tenv v1 = (r, v2)" and "\<forall>err. r \<noteq> Some (RunError err)"
    and "query (dc_ContainerList cli (LabelFilter (LabelIdentifier @ ''='' @ ident))) (cw_docker v2) = (Inr cs, w1)"
  shows "\<exists>status v'. Test_Execute op gc hash env (Inr wd) t environ args v = Some (status, v') \<and>
    Address os (env_lookup tenv) lockFile w = (Inr addr, w) \<and>
    Getenv (env_lookup tenv) ResourcePolicyEnv = tc_policy t \<and>
    (\<forall>dp w0 cft x. session dp w0 cft x \<longrightarrow> dp_env dp = env_lookup tenv \<longrightarrow> dp_hash dp = hash \<longrightarrow>
       db_labels (cf_backend cft) = [(LabelIdentifier, ident)]) \<and>
    (if tc_policy t = ResourcePolicyReusable then calls (cw_docker v') = calls (cw_docker v2)
     else \<exists>w2 r2 w3. query (dc_NetworkList cli (LabelFilter (LabelIdentifier @ ''='' @ ident))) w2 = (r2, w3) \<and>
       calls (cw_docker v') = calls (cw_docker v2) @ map (\<lambda>c. ContainerRemoveCall (cs_ID c)) cs @
         map (\<lambda>n. NetworkRemoveCall (nr_ID n)) (fst (listed r2))) \<and>
    (status = (case r of Some (ExitCode n) \<Rightarrow> n | _ \<Rightarrow> ExitSuccess) \<or> tc_policy t \<noteq> ResourcePolicyReusable \<and> status = ExitFailure)"
proof -
  obtain e dw where c: "CleanupResources p (Inr cli) LabelIdentifier ident (cw_docker v2) = (e, dw)"
    by (cases "CleanupResources p (Inr cli) LabelIdentifier ident (cw_docker v2)")
  let ?status = "case r of Some (ExitCode n) \<Rightarrow> n | _ \<Rightarrow> ExitSuccess"
  let ?done = "if tc_policy t = ResourcePolicyReusable then (?status, v2)
    else (if e = None then ?status else ExitFailure, v2\<lparr>cw_docker := dw\<rparr>)"
  have cl: "op_CleanupResources op LabelIdentifier ident v2 = (e, v2\<lparr>cw_docker := dw\<rparr>)"
    by (simp add: assms(1) NewOperation_def c)
  have "test_started op gc t ident environ args addr v1 = ?done"
    using assms(6,8-10) cl by (cases r) (auto simp: test_started_def Let_def split: run_error.splits option.splits)
  then have ex: "Test_Execute op gc hash env (Inr wd) t environ args v =
      Some (fst ?done, snd (op_StopBeaconServer op addr (snd ?done)))"
    using assms(3) by (simp add: Test_Execute_def assms(7))
  have dk: "cw_docker (snd (op_StopBeaconServer op addr x)) = cw_docker x" for x
    by (auto simp: assms(1) NewOperation_def on_os_def split: prod.splits)
  have addr: "Address os (env_lookup tenv) lockFile w = (Inr addr, w)"
    using assms(4,5) by (simp add: Address_def Getenv_def assms(8) test_environ_lookup)
  have pol: "Getenv (env_lookup tenv) ResourcePolicyEnv = tc_policy t"
    by (simp add: Getenv_def assms(8) test_environ_lookup)
  have "Identifier hash (env_lookup tenv) x = ident" for x
    unfolding assms(7,8) using assms(2) by (intro Identifier_test) blast
  then have lab: "\<forall>dp w0 cft x. session dp w0 cft x \<longrightarrow> dp_env dp = env_lookup tenv \<longrightarrow> dp_hash dp = hash \<longrightarrow>
      db_labels (cf_backend cft) = [(LabelIdentifier, ident)]"
    using session_ns_run by fastforce
  have clean: "if tc_policy t = ResourcePolicyReusable then calls (cw_docker (snd ?done)) = calls (cw_docker v2)
     else \<exists>w2 r2 w3. query (dc_NetworkList cli (LabelFilter (LabelIdentifier @ ''='' @ ident))) w2 = (r2, w3) \<and>
       calls (cw_docker (snd ?done)) = calls (cw_docker v2) @ map (\<lambda>c. ContainerRemoveCall (cs_ID c)) cs @
         map (\<lambda>n. NetworkRemoveCall (nr_ID n)) (fst (listed r2))"
    using cleanup_calls [OF c assms(11)] by simp
  have status: "fst ?done = ?status \<or> tc_policy t \<noteq> ResourcePolicyReusable \<and> fst ?done = ExitFailure" by simp
  show ?thesis
    by (rule exI [of _ "fst ?done"], rule exI [of _ "snd (op_StopBeaconServer op addr (snd ?done))"])
      (unfold dk, intro conjI ex addr pol lab clean status)
qed

text \<open>A server that is up at once, and a test process that fails with exit code 1 and leaves a container behind.\<close>

definition plain_server :: "(nat, unit, (string \<times> bool) list) server_api" where
  "plain_server =
     \<lparr>sa_Listen = (\<lambda>w. (Inr ''[::]:1'', w)), sa_Serve = id, sa_Stop = id, sa_CloseListener = id, sa_Done = id,
      sa_Interrupt = (\<lambda>_ w. (None, w)), sa_Command = (\<lambda>_ _ _ (w, d). (Some (ExitCode 1), w, (''left'', True) # d))\<rparr>"

definition plain_operation :: "(nat, (string \<times> bool) list) cmd_world operation" where
  "plain_operation = NewOperation plain_server slow_grpc 4 plain_pkgs (Inr plain_docker)"

definition plain_gocmd :: gocmd_api where
  "plain_gocmd = \<lparr>gc_CurrentVersion = (''1.19'', None), gc_ModuleGoVersion = (''1.19'', None), gc_Determine = (\<lambda>v _. (''go'', v, None))\<rparr>"

theorem test_command_cleanup_witness:
  "\<exists>status v'. Test_Execute plain_operation plain_gocmd (\<lambda>_. ''abc'') Map.empty (Inr ''/src'') (Test_SetFlags Map.empty) [] []
      \<lparr>cw_os = 0, cw_docker = plain_world []\<rparr> = Some (status, v') \<and>
    ContainerRemoveCall ''id-left'' \<in> set (calls (cw_docker v'))"
proof -
  let ?v = "\<lparr>cw_os = 0, cw_docker = plain_world []\<rparr>" and ?t = "Test_SetFlags Map.empty"
  let ?id = "Identifier (\<lambda>_. ''abc'') Map.empty (''/src'' @ '':'' @ tc_namespace ?t)"
  let ?v1 = "\<lparr>cw_os = 3, cw_docker = plain_world []\<rparr>"
    and ?v2 = "\<lparr>cw_os = 3, cw_docker = plain_world [(''left'', True)]\<rparr>"
  have s: "op_StartBeaconServer plain_operation ?v = Some (Inr ''[::]:1'', ?v1)"
    by (simp add: plain_operation_def NewOperation_def StartBeaconServer_def plain_server_def slow_grpc_def eval_nat_numeral)
  have gc: "determineGoCommand plain_gocmd ?t = (''go'', ''1.19'', None)"
    by (simp add: determineGoCommand_def plain_gocmd_def Test_SetFlags_def)
  have e: "op_ExecuteTest plain_operation ''go'' [] tenv ?v1 = (Some (ExitCode 1), ?v2)" for tenv
    by (simp add: plain_operation_def NewOperation_def ExecuteTest_def plain_server_def plain_world_def)
  have l: "query (dc_ContainerList plain_docker f) (cw_docker ?v2) = (Inr [plain_summary (''left'', True)], plain_world [(''left'', True)])" for f
    by (simp add: query_def api_def plain_docker_def plain_world_def)
  have "tc_policy ?t \<noteq> ResourcePolicyReusable" by (simp add: Test_SetFlags_def policy_defs)
  with test_command_cleanup [OF plain_operation_def _ s _ _ gc refl refl e _ l, of "\<lambda>_. ''abc''"]
  show ?thesis by (fastforce simp: plain_summary_def ascii_lower_def)
qed

end
