(* ===== verification/Command_Line.thy ===== *)
theory Command_Line
  imports Commands
begin

text \<open>
  The command line of \<open>confort\<close>: the registration of the commands, their names, descriptions and flags (commands.go), and
  \<open>main\<close> (cmd/confort/main.go). The package subcommands is a parameter: which command, flags and arguments it makes of
  the arguments of the process, and its exit status for a usage error and for its own help commands. A flag is set by
  the function of its type, in the order of the command line.
\<close>

section \<open>Commands\<close>

datatype subcommand = CommandsCommand | FlagsCommand | HelpCommand | StartCommand | StopCommand | TestCommand

text \<open>\<open>NewCommands\<close>: the registered commands with their groups.\<close>

definition NewCommands :: "(subcommand \<times> string) list" where
  "NewCommands =
     [(CommandsCommand, ''help''), (FlagsCommand, ''help''), (HelpCommand, ''help''),
      (StartCommand, ''''), (StopCommand, ''''), (TestCommand, '''')]"

fun command_Name :: "subcommand \<Rightarrow> string" where
  "command_Name CommandsCommand = ''commands''"
| "command_Name FlagsCommand = ''flags''"
| "command_Name HelpCommand = ''help''"
| "command_Name StartCommand = ''start''"
| "command_Name StopCommand = ''stop''"
| "command_Name TestCommand = ''test''"

definition Start_Synopsis :: string where
  "Start_Synopsis = ''Start beacon server for test.''"

definition Stop_Synopsis :: string where
  "Stop_Synopsis = ''Stop beacon server.''"

definition Test_Synopsis :: string where
  "Test_Synopsis = ''Start beacon server and execute test.''"

text \<open>A text of several lines, each with its newline.\<close>

definition text_of :: "string list \<Rightarrow> string" where
  "text_of ls = concat (map (\<lambda>l. l @ ''\<newline>'') ls)"

definition Start_Usage :: string where
  "Start_Usage = text_of
     [''$ confort start (-lock-file <filename>)'',
      '''',
      ''Start the beacon server and output its endpoint to lock file.'',
      ''Use \"confort stop\" command to stop beacon server.'',
      '''',
      ''By using \"-lock-file\" option, you can use a user-defined file name as a lock file.'',
      ''Default file name is \".confort.lock\".'',
      ''To tell the endpoint to test code, you have to set file name as environment variable CFT_LOCKFILE.'',
      ''If the variable is already set, this command regards CFT_LOCKFILE as the default file name.'',
      ''See the document of confort.WithBeacon.'',
      '''',
      ''If lock file already exists, this command fails.'',
      '''']"

definition Stop_Usage :: string where
  "Stop_Usage = text_of
     [''$ confort stop (-lock-file <filename>)'',
      '''',
      ''Stop the beacon server started by \"confort start\" command.'',
      ''The target server address will be read from lock file(\".confort.lock\"), and the lock file will be removed.'',
      ''If \"confort start\" has accompanied by \"-lock-file\" option, this command requires the same.'',
      '''']"

definition Test_Usage :: string where
  "Test_Usage = text_of
     [''$ confort test (-namespace <namespace> -policy <resource policy> -go <go version> -go-mode <mode>) (-- -p=4 -shuffle=on)'',
      '''',
      ''Start the beacon server and execute tests.'',
      ''After the tests are finished, the beacon server will be stopped automatically.'',
      ''If you want to use options of \"go test\", put them after \"--\".'',
      '''']"

section \<open>Flags\<close>

definition undefined_flag :: "string \<Rightarrow> go_error" where
  "undefined_flag name = Errorf ''flag provided but not defined: -%s'' [name]"

text \<open>The flags of \<open>start\<close> and \<open>stop\<close>; the result is the lock file.\<close>

fun lock_flags :: "(string \<times> string) list \<Rightarrow> string \<Rightarrow> go_error + string" where
  "lock_flags [] f = Inr f"
| "lock_flags ((name, v) # flags) f =
     (if name = ''lock-file'' then lock_flags flags v else Inl (undefined_flag name))"

definition test_flag :: "string \<Rightarrow> string \<Rightarrow> test_command \<Rightarrow> go_error + test_command" where
  "test_flag name v t =
     (if name = ''namespace'' then Inr (t\<lparr>tc_namespace := v\<rparr>)
      else if name = ''policy'' then resourcePolicy_Set v t
      else if name = ''go'' then Inr (t\<lparr>tc_goVer := v\<rparr>)
      else if name = ''go-mode'' then goMode_Set v t
      else Inl (undefined_flag name))"

fun test_flags :: "(string \<times> string) list \<Rightarrow> test_command \<Rightarrow> go_error + test_command" where
  "test_flags [] t = Inr t"
| "test_flags ((name, v) # flags) t =
     (case test_flag name v t of
        Inl e \<Rightarrow> Inl e
      | Inr t' \<Rightarrow> test_flags flags t')"

section \<open>main\<close>

record cli_pkg =
  cl_Parse :: "string list \<Rightarrow> string list \<Rightarrow> (string \<times> (string \<times> string) list \<times> string list) option"
  cl_UsageError :: int
  cl_Help :: "string \<Rightarrow> int"

text \<open>
  \<open>command.Execute\<close> and the exit status of \<open>main\<close>. A command line that cannot be parsed and a flag that cannot be set are
  usage errors; they start nothing.
\<close>

definition main_exit ::
  "cli_pkg \<Rightarrow> 'v operation \<Rightarrow> 'v file_api \<Rightarrow> gocmd_api \<Rightarrow> (string \<Rightarrow> string) \<Rightarrow> environment \<Rightarrow> go_error + string \<Rightarrow>
     string list \<Rightarrow> string list \<Rightarrow> 'v \<Rightarrow> (int \<times> 'v) option" where
  "main_exit cl op os gc hash env getwd environ args v =
     (case cl_Parse cl (map (\<lambda>(c, _). command_Name c) NewCommands) args of
        None \<Rightarrow> Some (cl_UsageError cl, v)
      | Some (name, flags, rest) \<Rightarrow>
          (case List.find (\<lambda>(c, _). command_Name c = name) NewCommands of
             None \<Rightarrow> Some (cl_UsageError cl, v)
           | Some (StartCommand, _) \<Rightarrow>
               (case lock_flags flags (default_lock_file env) of
                  Inl _ \<Rightarrow> Some (cl_UsageError cl, v)
                | Inr lockFile \<Rightarrow> Start_Execute op os lockFile v)
           | Some (StopCommand, _) \<Rightarrow>
               (case lock_flags flags (default_lock_file env) of
                  Inl _ \<Rightarrow> Some (cl_UsageError cl, v)
                | Inr lockFile \<Rightarrow> Some (Stop_Execute op os hash env lockFile v))
           | Some (TestCommand, _) \<Rightarrow>
               (case test_flags flags (Test_SetFlags env) of
                  Inl _ \<Rightarrow> Some (cl_UsageError cl, v)
                | Inr t \<Rightarrow> Test_Execute op gc hash env getwd t environ rest v)
           | Some (c, _) \<Rightarrow> Some (cl_Help cl name, v)))"

section \<open>Flags are valid\<close>

lemma test_flag_policy:
  "test_flag name v t = Inr t' \<Longrightarrow> ValidResourcePolicy (tc_policy t) \<Longrightarrow> ValidResourcePolicy (tc_policy t')"
  by (auto simp: test_flag_def resourcePolicy_Set_def goMode_Set_def split: if_splits)

lemma test_flags_policy:
  "test_flags flags t = Inr t' \<Longrightarrow> ValidResourcePolicy (tc_policy t) \<Longrightarrow> ValidResourcePolicy (tc_policy t')"
  by (induction flags t rule: test_flags.induct) (auto split: sum.splits dest: test_flag_policy)

text \<open>The value of a flag: the last one on the command line, or the default.\<close>

definition last_flag :: "(string \<times> string) list \<Rightarrow> string \<Rightarrow> string \<Rightarrow> string" where
  "last_flag flags k d = (case map_of (rev flags) k of Some v \<Rightarrow> v | None \<Rightarrow> d)"

lemma last_flag_simps [simp]:
  "last_flag [] k d = d"
  "last_flag ((n, v) # flags) k d = last_flag flags k (if n = k then v else d)"
  by (auto simp: last_flag_def map_add_def split: option.splits)

lemma test_flag_sets:
  assumes "test_flag name v t = Inr t'"
  shows "tc_policy t' = (if name = ''policy'' then v else tc_policy t)"
    and "tc_namespace t' = (if name = ''namespace'' then v else tc_namespace t)"
proof -
  have mode: "tc_policy u = tc_policy t \<and> tc_namespace u = tc_namespace t" if "goMode_Set v t = Inr u" for u
    using that by (auto simp: goMode_Set_def simp del: insert_iff split: if_split_asm)
  have pol: "tc_policy u = v \<and> tc_namespace u = tc_namespace t" if "resourcePolicy_Set v t = Inr u" for u
    using that by (auto simp: resourcePolicy_Set_def split: if_split_asm)
  consider (ns) "name = ''namespace''" | (pol) "name = ''policy''" | (go) "name = ''go''" | (mode) "name = ''go-mode''"
    using assms by (simp add: test_flag_def split: if_split_asm)
  then have "tc_policy t' = (if name = ''policy'' then v else tc_policy t) \<and>
      tc_namespace t' = (if name = ''namespace'' then v else tc_namespace t)"
    using assms by cases (auto simp: test_flag_def dest: mode pol)
  then show "tc_policy t' = (if name = ''policy'' then v else tc_policy t)"
    and "tc_namespace t' = (if name = ''namespace'' then v else tc_namespace t)" by blast+
qed

lemma test_flags_last:
  "test_flags flags t = Inr t' \<Longrightarrow>
     tc_policy t' = last_flag flags ''policy'' (tc_policy t) \<and>
     tc_namespace t' = last_flag flags ''namespace'' (tc_namespace t)"
proof (induction flags t rule: test_flags.induct)
  case (2 name v flags t)
  then obtain u where u: "test_flag name v t = Inr u" "test_flags flags u = Inr t'"
    by (cases "test_flag name v t") simp_all
  from "2.IH" [OF u] show ?case by (simp only: last_flag_simps test_flag_sets [OF u(1)])
qed simp

lemma lock_flags_last: "lock_flags flags f = Inr f' \<Longrightarrow> f' = last_flag flags ''lock-file'' f"
  by (induction flags f rule: lock_flags.induct) (auto split: if_splits)


definition plain_cli :: cli_pkg where
  "plain_cli = \<lparr>cl_Parse = (\<lambda>_ args. Some (''test'', [(''policy'', ''reusable''), (''go-mode'', ''exact'')], args)),
    cl_UsageError = 2, cl_Help = (\<lambda>_. 0)\<rparr>"


end
