(* ===== verification/Start_Stop.thy ===== *)
theory Start_Stop
  imports Commands
begin

text \<open>
  The workflow of \<open>confort start\<close> and \<open>confort stop\<close> (commands.go): the lock file that one writes and the other reads and
  deletes, the sessions in between, and what the clean-up removes. The file calls of the commands go to the operating
  system and leave docker alone (\<open>host_files\<close>); their laws are the locale \<open>lock_files\<close>.
\<close>

definition host_files :: "'w file_api \<Rightarrow> ('w, 'd) cmd_world file_api" where
  "host_files fs =
     \<lparr>os_ReadFile = (\<lambda>f. on_os (os_ReadFile fs f)), os_WriteFile = (\<lambda>f d. on_os (os_WriteFile fs f d)),
      os_Stat = (\<lambda>f. on_os (os_Stat fs f)), os_Remove = (\<lambda>f. on_os (os_Remove fs f)),
      os_After = (\<lambda>t. on_os (os_After fs t))\<rparr>"

lemma address_loop_host: "address_loop (host_files fs) f n v = on_os (address_loop fs f n) v"
  by (induction n arbitrary: v)
    (auto simp: host_files_def on_os_def split: prod.splits option.splits sum.splits file_error.splits)

lemma Address_host: "Address (host_files fs) env f v = on_os (Address fs env f) v"
  by (simp add: Address_def address_loop_host on_os_def Let_def)

lemma DeleteLockFile_host: "DeleteLockFile (host_files fs) f v = on_os (DeleteLockFile fs f) v"
  by (auto simp: DeleteLockFile_def host_files_def on_os_def split: prod.splits option.splits file_error.splits)

lemma StoreAddress_host: "StoreAddressToLockFile (host_files fs) f a v = on_os (StoreAddressToLockFile fs f a) v"
  by (simp add: StoreAddressToLockFile_def host_files_def on_os_def)

text \<open>
  The removals of a clean-up on docker: what docker lists under the label, containers first; a failed listing counts as
  nothing listed.
\<close>

definition cleaned_up ::
  "('d, 'h, 'i, 'x) docker_client \<Rightarrow> string \<Rightarrow> 'd docker_world \<Rightarrow> 'd docker_world \<Rightarrow> bool" where
  "cleaned_up cli ident w w' \<longleftrightarrow>
     (\<exists>r1 w1 w2 r2 w3.
        query (dc_ContainerList cli (LabelFilter (LabelIdentifier @ ''='' @ ident))) w = (r1, w1) \<and>
        query (dc_NetworkList cli (LabelFilter (LabelIdentifier @ ''='' @ ident))) w2 = (r2, w3) \<and>
        calls w' = calls w @ map (\<lambda>c. ContainerRemoveCall (cs_ID c)) (fst (listed r1)) @
          map (\<lambda>n. NetworkRemoveCall (nr_ID n)) (fst (listed r2)))"

lemma CleanupResources_cleaned:
  assumes "CleanupResources p (Inr cli) LabelIdentifier ident w = (e, w')"
  shows "cleaned_up cli ident w w'"
proof -
  obtain r1 w1 where "query (dc_ContainerList cli (LabelFilter (LabelIdentifier @ ''='' @ ident))) w = (r1, w1)"
    by (cases "query (dc_ContainerList cli (LabelFilter (LabelIdentifier @ ''='' @ ident))) w")
  with cleanup_calls [OF assms this] show ?thesis unfolding cleaned_up_def by blast
qed

text \<open>\<open>confort start\<close> step by step: a success means that the file did not exist and that it holds the address while the server runs.\<close>

context lock_files
begin

lemma start_stores:
  assumes "Start_Execute (NewOperation sa g fuel p nc) (host_files os) f u = Some (ExitSuccess, u')"
  shows "content (cw_os u) f = None \<and>
    (\<exists>addr w1 w2 w3. StartBeaconServer sa g fuel w1 = Some (Inr addr, w2) \<and> content w3 f = Some addr \<and>
       u' = u\<lparr>cw_os := sa_Done sa w3\<rparr>)"
proof -
  obtain s w1 where s: "os_Stat os f (cw_os u) = (s, w1)" by (cases "os_Stat os f (cw_os u)")
  obtain addr w2 w3 where st: "s = Some NotExist" "StartBeaconServer sa g fuel w1 = Some (Inr addr, w2)"
    "os_WriteFile os f addr w2 = (None, w3)" "u' = u\<lparr>cw_os := sa_Done sa w3\<rparr>"
    using assms s
    by (auto simp: Start_Execute_def NewOperation_def StoreAddress_host StoreAddressToLockFile_def on_os_def
        host_files_def ExitSuccess_def ExitFailure_def split: option.splits file_error.splits prod.splits sum.splits)
  have "content (cw_os u) f = None" "content w3 f = Some addr" using stat_file [OF s] write_file [OF st(3)] st(1) by simp_all
  with st(2,4) show ?thesis by blast
qed

lemma stop_reads:
  assumes "Getenv env AddressEnv = ''''" and "content (cw_os v) f = Some addr"
    and "Stop_Execute (NewOperation sa g fuel p (Inr cli)) (host_files os) hash env f v = (status, v')"
  shows "(status = ExitSuccess \<longrightarrow> content (cw_os v') f = None \<and> cleaned_up cli (Identifier hash env addr) (cw_docker v) (cw_docker v')) \<and>
    (status \<noteq> ExitSuccess \<longrightarrow> status = ExitFailure \<and>
       (cw_docker v' = cw_docker v \<or> cleaned_up cli (Identifier hash env addr) (cw_docker v) (cw_docker v')))"
proof -
  obtain r w1 where r: "Address os env f (cw_os v) = (r, w1)" by (cases "Address os env f (cw_os v)")
  from address_unset [OF assms(1) r] assms(2) consider "r = Inr addr" | e where "r = Inl (AddrError e)" by auto
  then show ?thesis
  proof cases
    case 1
    obtain e1 w2 where e1: "StopBeaconServer sa g addr w1 = (e1, w2)" by (cases "StopBeaconServer sa g addr w1")
    obtain e2 d where e2: "CleanupResources p (Inr cli) LabelIdentifier (Identifier hash env addr) (cw_docker v) = (e2, d)"
      by (cases "CleanupResources p (Inr cli) LabelIdentifier (Identifier hash env addr) (cw_docker v)")
    obtain e3 w3 where e3: "DeleteLockFile os f w2 = (e3, w3)" by (cases "DeleteLockFile os f w2")
    note c = CleanupResources_cleaned [OF e2]
    have "(status, v') =
        (if e1 \<noteq> None then (ExitFailure, v\<lparr>cw_os := w2\<rparr>)
         else if e2 \<noteq> None then (ExitFailure, v\<lparr>cw_os := w2, cw_docker := d\<rparr>)
         else (if e3 = None then ExitSuccess else ExitFailure, v\<lparr>cw_os := w3, cw_docker := d\<rparr>))"
      using assms(3) r 1 e1 e2 e3
      by (auto simp: Stop_Execute_def Address_host DeleteLockFile_host on_os_def NewOperation_def split: if_splits)
    then show ?thesis using c delete_removes [of f w2 w3] e3
      by (auto simp: ExitSuccess_def ExitFailure_def split: if_splits)
  next
    case 2
    then show ?thesis using assms(3) r
      by (auto simp: Stop_Execute_def Address_host on_os_def ExitSuccess_def ExitFailure_def)
  qed
qed

end

section \<open>Main property\<close>


text \<open>A server that is up at once, on an operating system with only files.\<close>

definition files_server :: "(string \<Rightarrow> string option, unit, (string \<times> bool) list) server_api" where
  "files_server =
     \<lparr>sa_Listen = (\<lambda>w. (Inr ''[::]:1'', w)), sa_Serve = id, sa_Stop = id, sa_CloseListener = id, sa_Done = id,
      sa_Interrupt = (\<lambda>_ w. (None, w)), sa_Command = (\<lambda>_ _ _ (w, d). (None, w, d))\<rparr>"

definition files_grpc :: "(string \<Rightarrow> string option, unit) grpc_api" where
  "files_grpc =
     \<lparr>gr_Dial = (\<lambda>_ w. (Inr (), w)), gr_Health = (\<lambda>_ w. (Inr HealthServing, w)),
      gr_Continue = (\<lambda>_ retries k w. (k \<le> retries, w)), gr_Close = (\<lambda>_ w. (None, w))\<rparr>"

definition files_operation :: "(string \<Rightarrow> string option, (string \<times> bool) list) cmd_world operation" where
  "files_operation = NewOperation files_server files_grpc 1 plain_pkgs (Inr plain_docker)"


end
