(* ===== verification/Spec2Isabelle.thy ===== *)
theory Spec2Isabelle
  imports Locker_Refinement Locker_Liveness Beacon_Use Beacon_Process Command_Line Start_Stop
begin

text \<open>
  \<^bold>\<open>Verification of confort\<close>, a Go library and command that manages docker containers for tests and controls their
  exclusive and shared use, within one process and, through a beacon server, across processes.

  \<^bold>\<open>The program.\<close> A test process calls \<open>New\<close> (src/confort.go), which opens a namespace, that is a docker network, on the
  docker backend (src/backend.go); \<open>Run\<close> creates or reuses a container, starts it and waits until it is ready
  (src/wait); \<open>Use\<close> and \<open>Acquire\<close> take the locks of containers; \<open>Close\<close> releases the resources. Locks come from a
  \<open>Control\<close> (src/internal/exclusion): either the \<open>Locker\<close> of the process or a client of the beacon server
  (src/internal/beacon/server), which runs one Locker for all processes. The command \<open>confort\<close> (src/internal/cmd) starts
  and stops the server, runs tests under it and removes what they leave behind. Beside them are unique values
  (src/unique) and commands in containers (src/exec.go).

  \<^bold>\<open>Theories.\<close>
  \<^item> \<open>Confort_Prelude\<close>: outcomes of blocking calls, panics, errors, Go maps, lemmas on queues and cardinalities.
  \<^item> \<open>Keyed_Lock\<close>: keyed\_lock.go, reader/writer locks per key on a weighted semaphore. The contract of a keyed lock is
    the locale \<open>rw_keyed_lock\<close>, obtained from the semaphore's locale \<open>weighted_semaphore\<close>.
  \<^item> \<open>Acquire_Controller\<close>: acquire.go, the queue that admits acquisitions of several containers; locale \<open>admission\<close>.
  \<^item> \<open>Exclusion_Locker\<close>, \<open>Locker_Invariant\<close>, \<open>Locker_Properties\<close>: locker.go and the transition system of any number of
    concurrent acquisitions (\<open>step\<close>, \<open>sys_reach\<close>, \<open>struct_inv\<close>), mutual exclusion, absence of deadlock and of panics,
    admission order, one-time initialisation.
  \<^item> \<open>Exclusion_Control\<close>: control.go, \<open>LockForContainerUse\<close> with the user's initialisations; the types of the locks and
    the bounds of their weights. \<open>Inprocess_Control\<close>: the in-process control as a whole, with a schedule for the other
    calls, and \<open>Use\<close> and \<open>Acquire\<close> on it; their contract is the locale \<open>use_control\<close>.
  \<^item> \<open>Locker_Refinement\<close>: the abstract machine that grants all locks of a call in one step (\<open>rw_step\<close>) and the simulation
    of the Locker and of the beacon server by it, locale \<open>rw_simulation\<close>. \<open>Locker_Liveness\<close>: a measure of the work that is
    left (\<open>work\<close>), which every step that serves a request takes down.
  \<^item> \<open>Beacon_Server\<close>, \<open>Beacon_Acquire\<close>: server/beacon.go, health.go and the client side of control.go. Handlers are
    state machines over the received messages; the streams of the build and setup locks are one machine over the
    locale \<open>mutex_map\<close>, and \<open>AcquireContainerLock\<close> runs on the transition system of the Locker. \<open>Beacon_Client\<close>: the call
    \<open>LockForContainerUse\<close> of the client over the stub of gRPC, against the in-process control and against the server.
  \<^item> \<open>Beacon_Use\<close>: \<open>Use\<close> and \<open>Acquire\<close> through the beacon. The stub is the server itself (\<open>served\<close>): a message goes to the
    handler of its stream, and while \<open>Recv\<close> waits, a schedule lets any other clients and goroutines run. The locale
    \<open>use_control\<close> is interpreted on it, for calls with at most one \<open>InitFunc\<close> (\<open>one_init\<close>); with more the server
    releases the locks of a successful client.
  \<^item> \<open>Beacon_Process\<close>: the services that server.go registers and the life of the server process, with the delayed stop
    after an interrupt.
  \<^item> \<open>Config_Consistency\<close>: config\_consistency.go; each check of a field is an instance of the locale \<open>field_check\<close>.
  \<^item> \<open>Unique_Values\<close>: unique.go and the value store of the server; locales \<open>recording\<close> and \<open>value_store_service\<close>.
  \<^item> \<open>Wait_Loop\<close>: wait.go; locale \<open>wait_runtime\<close>. \<open>Container_Exec\<close>: exec.go, with shared output buffers in a store.
  \<^item> \<open>Beacon_Env\<close>: addr.go, beacon.go, env.go, label.go, resource\_policy.go, logging.go; locale \<open>lock_files\<close>.
  \<^item> \<open>Docker_Backend\<close>: backend.go on an arbitrary docker client, with a log of the calls that change docker.
    \<open>Docker_Policy\<close>: what each operation does to docker, the invariant of the resource policies. \<open>Docker_Runtime\<close>:
    termination, locale \<open>docker_runtime\<close> with the built-in checks of waiters as sublocales of \<open>wait_runtime\<close>.
  \<^item> \<open>Confort_Api\<close>, \<open>Confort_Properties\<close>: confort.go, sessions from \<open>New\<close> to \<open>Close\<close>.
  \<^item> \<open>Commands\<close>: commands.go and operations.go. \<open>Command_Line\<close>: names, texts, flags and registration of the commands, and
    cmd/confort/main.go. \<open>Start_Stop\<close>: \<open>confort start\<close> and \<open>confort stop\<close> together, with the lock file between them.

  \<^bold>\<open>Correspondence.\<close> A Go struct is a record, an enumeration or a set of option constructors a datatype, a map the list
  of its bindings in iteration order, a pointer an option. A call that may block gives an \<open>outcome\<close> or, where a whole
  operation is modelled, an option in which \<open>None\<close> means that it has not returned; errors and panics are values of sums.
  Concurrency is the interleaving of atomic steps: critical sections, semaphore operations and received messages.
  Functions keep their Go names, with the receiver added where names would clash (\<open>Release_namespace\<close>, \<open>New_confort\<close>).

  \<^bold>\<open>Parameters.\<close> Code outside the repository is a parameter with its documented behaviour as locale assumptions: the
  semaphore package, oncewait, go-cmp and multierr (\<open>error_packages\<close>), gRPC and backoff, the docker client, gocmd. Every
  locale is interpreted on concrete functions, which the witnesses use. The operating system (files, timers, name
  resolution, URL parsing) is a parameter too.

  \<^bold>\<open>What the theorems show.\<close>
  \<^item> Locks: exclusion, deadlock freedom, no panics, all-or-nothing acquisitions and first-come admission for every
    interleaving; an initialisation is handed out again only after a failure; the same exclusion across processes. All of
    it is summed up by the refinement of the atomic machine. When holders release and nobody cancels, every request ends.
  \<^item> The API: what \<open>Use\<close> and \<open>Acquire\<close> of the library hold when they return, in the mode asked for, and that a failure
    holds nothing, with the in-process control and through a beacon server shared with other clients; the beacon client
    runs the same initialisations as the in-process control, and whatever the server granted comes back.
  \<^item> Resources: under each policy, what a session removes and what it must leave alone; the calls of each operation; what
    \<open>confort test\<close> and \<open>confort stop\<close> clean up, given the label that its sessions put on everything they create.
  \<^item> Exactness: the configuration check is the containment of settings, outputs of commands, values of generators.
  \<^item> Termination: waiters, the port loop, the random strings, the health check; the server stops half a second
    after an interrupt and not before; a command line runs tests only with a valid policy.
  \<^item> Faults that the code has: a cancelled request blocks a container, initialisations that get lost, reports of several
    initialisations that the server drops, locks that leak or a handler that panics on unexpected messages.

  \<^bold>\<open>Fuel.\<close> Loops whose end depends on time or on a random source have fuel, one unit per pass: the random string loop
  needs ten passes per letter, a waiter \<open>timeout / interval + 2\<close> checks, the port loop \<open>T / 200ms + 3\<close> passes for a context
  with the time \<open>T\<close> left, the health check one more than the calls that the backoff controller allows. The theorems
  prove that this fuel suffices.

  \<^bold>\<open>Not modelled.\<close> Generated gRPC and mock code, the end-to-end fixtures and test data. The functions of logging.go are
  modelled, the places that call them are not, nor are the messages the commands log: no result depends on them. The
  option interfaces of Go are the constructors of the option datatypes. The parsing of a command line by the packages flag
  and subcommands is a parameter. A second call of a release function and data races between unsynchronised calls on one
  namespace (\<open>Run\<close> serialises them by the setup lock) are outside the model.
\<close>

end
